(* ===== verification/Amarre_Base.thy ===== *)
theory Amarre_Base
  imports Main "HOL-Library.Word" "HOL-Library.List_Lexorder" "HOL-Library.Char_ord"
    "HOL-Library.Multiset" "HOL-Library.Sublist"
begin

text \<open>
  Shared vocabulary of the development: Go's clock (\<open>time.Time\<close>, \<open>time.Duration\<close>), its 64-bit
  integers, the UTF-8 bytes the program's French messages are made of, and
  \<open>sort.SliceStable\<close>.

  A \<open>time.Time\<close> is an \<^typ>\<open>int\<close> of nanoseconds since the Unix epoch (the location and the
  monotonic reading it also carries play no part in the program); Go's zero time is
  1 January of the year 1. A \<open>time.Duration\<close> is an \<^typ>\<open>int\<close> of nanoseconds; \<open>wrap64\<close> is
  written wherever the code computes one in a way that can leave 64 bits.
  A function that reads the clock takes the reading as an argument.
  A Go string is its bytes: a \<^typ>\<open>string\<close> of 8-bit characters, ordered bytewise.
\<close>

named_theorems go_time \<open>definitions of the clock vocabulary\<close>
named_theorems sort_facts \<open>facts about the stable sort\<close>

section \<open>Integers and the clock\<close>

type_synonym time = int
type_synonym duration = int
type_synonym bytes = "8 word list"

text \<open>Two's complement reading of the low 64 bits: Go's \<open>int\<close>, \<open>int64\<close> and \<open>time.Duration\<close>.\<close>

definition wrap64 :: "int \<Rightarrow> int" where
  "wrap64 x = (x + 2 ^ 63) mod 2 ^ 64 - 2 ^ 63"

definition in_int64 :: "int \<Rightarrow> bool" where
  "in_int64 x \<longleftrightarrow> - (2 ^ 63) \<le> x \<and> x < 2 ^ 63"

lemma wrap64_id [simp]: "in_int64 x \<Longrightarrow> wrap64 x = x"
  by (simp add: wrap64_def in_int64_def)

lemma wrap64_in_int64 [simp]: "in_int64 (wrap64 x)"
proof -
  have "0 \<le> (x + 2 ^ 63) mod 2 ^ 64" and "(x + 2 ^ 63) mod 2 ^ 64 < (2 ^ 64 :: int)"
    by simp_all
  then show ?thesis by (simp add: wrap64_def in_int64_def)
qed

text \<open>The written-out wrap-around is the signed reading of a 64-bit word.\<close>

lemma wrap64_word: "wrap64 x = sint (word_of_int x :: 64 word)"
proof -
  have "sint (word_of_int x :: 64 word) = signed_take_bit 63 x"
    by (simp add: sint_sbintrunc')
  also have "\<dots> = (x + 2 ^ 63) mod 2 ^ 64 - 2 ^ 63"
    by (simp add: signed_take_bit_eq_take_bit_shift take_bit_eq_mod)
  finally show ?thesis by (simp add: wrap64_def)
qed

text \<open>Go's integer division and remainder truncate towards zero.\<close>

definition go_div :: "int \<Rightarrow> int \<Rightarrow> int" where
  "go_div a b = sgn a * sgn b * (\<bar>a\<bar> div \<bar>b\<bar>)"

lemma go_div_nonneg [simp]: "0 \<le> a \<Longrightarrow> 0 < b \<Longrightarrow> go_div a b = a div b"
  by (cases "a = 0") (simp_all add: go_div_def)

definition second :: duration where [go_time]: "second = 1000000000"
definition minute :: duration where [go_time]: "minute = 60 * second"
definition hour :: duration where [go_time]: "hour = 60 * minute"

definition zero_time :: time where [go_time]: "zero_time = - 62135596800 * second"

definition is_zero :: "time \<Rightarrow> bool" where [go_time]: "is_zero t \<longleftrightarrow> t = zero_time"

text \<open>\<open>t.Unix()\<close> and \<open>time.Unix(s, 0)\<close>.\<close>

definition unix_sec :: "time \<Rightarrow> int" where [go_time]: "unix_sec t = t div second"
definition of_unix :: "int \<Rightarrow> time" where [go_time]: "of_unix s = s * second"

lemma unix_sec_of_unix [simp]: "unix_sec (of_unix s) = s"
  by (simp add: go_time)

lemma of_unix_le: "of_unix (unix_sec t) \<le> t"
  using mult_div_mod_eq [of second t] pos_mod_sign [of second t]
  by (simp add: go_time)

lemma of_unix_mono: "s \<le> s' \<Longrightarrow> of_unix s \<le> of_unix s'"
  by (simp add: go_time)

text \<open>\<open>t.Sub(u)\<close> saturates at the bounds of a duration.\<close>

definition time_sub :: "time \<Rightarrow> time \<Rightarrow> duration" where
  "time_sub t u = max (- (2 ^ 63)) (min (2 ^ 63 - 1) (t - u))"

lemma time_sub_id: "in_int64 (t - u) \<Longrightarrow> time_sub t u = t - u"
  by (simp add: time_sub_def in_int64_def max_def min_def)

lemma time_sub_in_int64: "in_int64 (time_sub t u)"
  by (auto simp: time_sub_def in_int64_def)

lemma time_sub_gt_iff: "in_int64 d \<Longrightarrow> d \<noteq> 2 ^ 63 - 1 \<Longrightarrow> d < time_sub t u \<longleftrightarrow> u + d < t"
  by (auto simp: time_sub_def in_int64_def max_def min_def)

text \<open>\<open>t.Truncate(d)\<close> rounds down to a multiple of \<open>d\<close> counted from the zero time.\<close>

definition time_truncate :: "time \<Rightarrow> duration \<Rightarrow> time" where
  "time_truncate t d = (if d \<le> 0 then t else t - (t - zero_time) mod d)"

lemma time_truncate_bounds:
  "0 < d \<Longrightarrow> time_truncate t d \<le> t" "0 < d \<Longrightarrow> t < time_truncate t d + d"
  using pos_mod_bound [of d "t - zero_time"] pos_mod_sign [of d "t - zero_time"]
  by (simp_all add: time_truncate_def)

section \<open>Bytes of the messages\<close>

text \<open>
  The theories are ASCII; the accented letters and signs of the program's French texts are
  written as their UTF-8 bytes.
\<close>

definition u_eacute :: string where "u_eacute = [CHR 0xC3, CHR 0xA9]"
definition u_egrave :: string where "u_egrave = [CHR 0xC3, CHR 0xA8]"
definition u_ecirc :: string where "u_ecirc = [CHR 0xC3, CHR 0xAA]"
definition u_Eacute :: string where "u_Eacute = [CHR 0xC3, CHR 0x89]"
definition u_agrave :: string where "u_agrave = [CHR 0xC3, CHR 0xA0]"
definition u_ocirc :: string where "u_ocirc = [CHR 0xC3, CHR 0xB4]"
definition u_ccedil :: string where "u_ccedil = [CHR 0xC3, CHR 0xA7]"
definition u_ucirc :: string where "u_ucirc = [CHR 0xC3, CHR 0xBB]"
definition u_middot :: string where "u_middot = [CHR 0xC2, CHR 0xB7]"
definition u_laquo :: string where "u_laquo = [CHR 0xC2, CHR 0xAB]"
definition u_raquo :: string where "u_raquo = [CHR 0xC2, CHR 0xBB]"
definition u_emdash :: string where "u_emdash = [CHR 0xE2, CHR 0x80, CHR 0x94]"
definition u_ellipsis :: string where "u_ellipsis = [CHR 0xE2, CHR 0x80, CHR 0xA6]"
definition u_upper_half :: string where "u_upper_half = [CHR 0xE2, CHR 0x96, CHR 0x80]"

lemmas utf8_defs = u_eacute_def u_egrave_def u_ecirc_def u_Eacute_def u_agrave_def u_ocirc_def
  u_ccedil_def u_ucirc_def u_middot_def u_laquo_def u_raquo_def u_emdash_def u_ellipsis_def
  u_upper_half_def

definition newline :: char where "newline = CHR 0x0A"

section \<open>sort.SliceStable\<close>

text \<open>
  \<open>sort.SliceStable(xs, less)\<close> sorts by a comparison and keeps equal elements in their order:
  an insertion sort gives the result that this contract fixes.
\<close>

fun insert_by :: "('a \<Rightarrow> 'a \<Rightarrow> bool) \<Rightarrow> 'a \<Rightarrow> 'a list \<Rightarrow> 'a list" where
  "insert_by lt x [] = [x]"
| "insert_by lt x (y # ys) = (if lt y x then y # insert_by lt x ys else x # y # ys)"

fun slice_stable :: "('a \<Rightarrow> 'a \<Rightarrow> bool) \<Rightarrow> 'a list \<Rightarrow> 'a list" where
  "slice_stable lt [] = []"
| "slice_stable lt (x # xs) = insert_by lt x (slice_stable lt xs)"

lemma mset_insert_by [simp]: "mset (insert_by lt x xs) = {#x#} + mset xs"
  by (induction xs) auto

lemma mset_slice_stable [simp, sort_facts]: "mset (slice_stable lt xs) = mset xs"
  by (induction xs) auto

lemma set_slice_stable [simp, sort_facts]: "set (slice_stable lt xs) = set xs"
  by (metis mset_slice_stable set_mset_mset)

lemma length_slice_stable [simp, sort_facts]: "length (slice_stable lt xs) = length xs"
  by (metis mset_slice_stable size_mset)

lemma set_insert_by [simp]: "set (insert_by lt x xs) = insert x (set xs)"
  by (induction xs) auto

text \<open>
  What \<open>sort\<close> asks of a comparison: a strict order whose incomparability is transitive.
  Every comparison of the program that is handed to \<open>sort\<close> is shown to be one.
\<close>

locale comparison =
  fixes lt :: "'a \<Rightarrow> 'a \<Rightarrow> bool"
  assumes lt_asym: "lt x y \<Longrightarrow> \<not> lt y x"
    and lt_neg_trans: "\<not> lt x y \<Longrightarrow> \<not> lt y z \<Longrightarrow> \<not> lt x z"
begin

definition in_order :: "'a list \<Rightarrow> bool" where
  "in_order xs \<longleftrightarrow> sorted_wrt (\<lambda>x y. \<not> lt y x) xs"

lemma in_order_insert: "in_order xs \<Longrightarrow> in_order (insert_by lt x xs)"
  unfolding in_order_def
  by (induction xs) (auto dest: lt_asym lt_neg_trans)

lemma in_order_slice_stable: "in_order (slice_stable lt xs)"
  by (induction xs) (simp_all add: in_order_insert, simp add: in_order_def)

lemma sorted_slice_stable: "sorted_wrt (\<lambda>x y. \<not> lt y x) (slice_stable lt xs)"
  using in_order_slice_stable by (simp add: in_order_def)

lemma filter_insert_skip: "\<not> P x \<Longrightarrow> filter P (insert_by lt x xs) = filter P xs"
  by (induction xs) auto

lemma filter_insert_keep:
  assumes "P x" and "\<And>y. y \<in> set xs \<Longrightarrow> P y \<Longrightarrow> \<not> lt y x"
  shows "filter P (insert_by lt x xs) = x # filter P xs"
  using assms by (induction xs) auto

text \<open>Stability: the elements equivalent to any \<open>a\<close> keep their order.\<close>

lemma slice_stable_stable:
  "filter (\<lambda>y. \<not> lt a y \<and> \<not> lt y a) (slice_stable lt xs) =
   filter (\<lambda>y. \<not> lt a y \<and> \<not> lt y a) xs"
proof (induction xs)
  case (Cons x xs)
  show ?case
  proof (cases "\<not> lt a x \<and> \<not> lt x a")
    case True
    have "filter (\<lambda>y. \<not> lt a y \<and> \<not> lt y a) (insert_by lt x (slice_stable lt xs)) =
      x # filter (\<lambda>y. \<not> lt a y \<and> \<not> lt y a) (slice_stable lt xs)"
      using True by (intro filter_insert_keep) (auto dest: lt_neg_trans)
    then show ?thesis using True Cons.IH by simp
  next
    case False
    then show ?thesis using Cons.IH by (auto simp: filter_insert_skip)
  qed
qed simp

lemma slice_stable_id: "in_order xs \<Longrightarrow> slice_stable lt xs = xs"
  unfolding in_order_def
proof (induction xs)
  case (Cons x xs)
  then show ?case by (cases xs) auto
qed simp

end

text \<open>
  \<open>sort.Slice\<close> promises less: some ordered permutation, equal elements in any order. Code
  that calls it is modelled over a parameter \<open>srt\<close> of which only this is assumed;
  \<^const>\<open>slice_stable\<close> is one such function.
\<close>

definition slice_sorts :: "(('a \<Rightarrow> 'a \<Rightarrow> bool) \<Rightarrow> 'a list \<Rightarrow> 'a list) \<Rightarrow> ('a \<Rightarrow> 'a \<Rightarrow> bool) \<Rightarrow> bool" where
  "slice_sorts srt lt \<longleftrightarrow>
     (\<forall>xs. mset (srt lt xs) = mset xs \<and> sorted_wrt (\<lambda>x y. \<not> lt y x) (srt lt xs))"

lemma slice_sorts_stable: "comparison lt \<Longrightarrow> slice_sorts slice_stable lt"
  by (simp add: slice_sorts_def comparison.sorted_slice_stable)

lemma slice_sorts_mset: "slice_sorts srt lt \<Longrightarrow> mset (srt lt xs) = mset xs"
  by (simp add: slice_sorts_def)

lemma slice_sorts_set: "slice_sorts srt lt \<Longrightarrow> set (srt lt xs) = set xs"
  by (metis slice_sorts_mset set_mset_mset)

lemma slice_sorts_length: "slice_sorts srt lt \<Longrightarrow> length (srt lt xs) = length xs"
  by (metis slice_sorts_mset size_mset)

lemma slice_sorts_sorted:
  "slice_sorts srt lt \<Longrightarrow> sorted_wrt (\<lambda>x y. \<not> lt y x) (srt lt xs)"
  by (simp add: slice_sorts_def)

section \<open>Errors as values\<close>

text \<open>
  An operation that can fail returns \<open>Inl\<close> of its error; \<open>if err != nil { return err }\<close> is
  the case distinction these equivalences invert.
\<close>

named_theorems err_iff \<open>inversion of error propagation\<close>

lemma propagate_Inr_iff [err_iff]:
  "(case r of Inl e \<Rightarrow> Inl (g e) | Inr x \<Rightarrow> f x) = Inr y \<longleftrightarrow> (\<exists>x. r = Inr x \<and> f x = Inr y)"
  by (cases r) auto

lemma propagate_option_Inr_iff [err_iff]:
  "(case r of None \<Rightarrow> Inl e | Some x \<Rightarrow> f x) = Inr y \<longleftrightarrow> (\<exists>x. r = Some x \<and> f x = Inr y)"
  by (cases r) auto

lemma propagate_if_Inr_iff [err_iff]:
  "(if b then Inl e else r) = Inr y \<longleftrightarrow> \<not> b \<and> r = Inr y"
  by simp

section \<open>Small list facts\<close>

lemma find_map_of: "distinct (map f xs) \<Longrightarrow> x \<in> set xs \<Longrightarrow> find (\<lambda>y. f y = f x) xs = Some x"
  by (induction xs) auto

lemma find_None_set: "find P xs = None \<longleftrightarrow> (\<forall>x\<in>set xs. \<not> P x)"
  by (induction xs) auto

lemma find_append_None: "find P xs = None \<Longrightarrow> find P (xs @ ys) = find P ys"
  by (induction xs) (auto split: if_splits)

lemma find_SomeD: "find P xs = Some x \<Longrightarrow> x \<in> set xs \<and> P x"
  by (induction xs) (auto split: if_splits)

lemma sorted_wrt_filterI: "sorted_wrt R xs \<Longrightarrow> sorted_wrt R (filter P xs)"
  by (rule sorted_wrt_filter)

end
