(* ===== verification/Amarre_Config.thy ===== *)
theory Amarre_Config
  imports Amarre_Strings
begin

text \<open>
  Package \<open>config\<close>: the configuration record, its validation (\<open>validate\<close>), loading (\<open>Load\<close>)
  and the application-level IP filter (\<open>IPAllowed\<close>).

  Addresses and prefixes are those of Go's \<open>net/netip\<close>: a 32-bit or a 128-bit word, the
  latter with a zone. The text parsers \<open>netip.ParsePrefix\<close> and \<open>netip.ParseAddr\<close>, the YAML
  decoder (a third-party package) and the file system are parameters; \<open>Unmap\<close>,
  \<open>PrefixFrom\<close> and \<open>Contains\<close> are modelled on words.
\<close>

unbundle bit_operations_syntax

section \<open>net/netip\<close>

datatype addr = NoAddr | V4 "32 word" | V6 "128 word" string

fun bit_len :: "addr \<Rightarrow> nat" where
  "bit_len NoAddr = 0"
| "bit_len (V4 _) = 32"
| "bit_len (V6 _ _) = 128"

fun has_zone :: "addr \<Rightarrow> bool" where
  "has_zone (V6 _ z) \<longleftrightarrow> z \<noteq> []"
| "has_zone _ \<longleftrightarrow> False"

fun without_zone :: "addr \<Rightarrow> addr" where
  "without_zone (V6 a _) = V6 a []"
| "without_zone a = a"

definition is_4in6 :: "128 word \<Rightarrow> bool" where
  "is_4in6 a \<longleftrightarrow> drop_bit 32 a = 0xFFFF"

fun unmap :: "addr \<Rightarrow> addr" where
  "unmap (V6 a z) = (if is_4in6 a then V4 (ucast a) else V6 a z)"
| "unmap a = a"

text \<open>A prefix is an address and a length; no length is Go's invalid prefix.\<close>

record prefix =
  pfx_ip :: addr
  pfx_bits :: "nat option"

definition prefix_from :: "addr \<Rightarrow> nat \<Rightarrow> prefix" where
  "prefix_from a n =
     \<lparr>pfx_ip = without_zone a,
      pfx_bits = (if a \<noteq> NoAddr \<and> n \<le> bit_len a then Some n else None)\<rparr>"

definition prefix_contains :: "prefix \<Rightarrow> addr \<Rightarrow> bool" where
  "prefix_contains p a =
     (case pfx_bits p of
        None \<Rightarrow> False
      | Some n \<Rightarrow>
          if has_zone a then False
          else (case (pfx_ip p, a) of
                  (V4 b, V4 c) \<Rightarrow> drop_bit (32 - n) (b XOR c) = 0
                | (V6 b _, V6 c _) \<Rightarrow> drop_bit (128 - n) (b XOR c) = 0
                | _ \<Rightarrow> False))"

lemma unmap_idem [simp]: "unmap (unmap a) = unmap a"
  by (cases a) auto

lemma drop_bit_xor_eq:
  fixes b c :: "'a::len word"
  shows "drop_bit k (b XOR c) = 0 \<longleftrightarrow> drop_bit k b = drop_bit k c"
proof -
  have "drop_bit k (b XOR c) = drop_bit k b XOR drop_bit k c"
    by (simp add: drop_bit_xor)
  moreover have "x XOR y = 0 \<longleftrightarrow> x = y" for x y :: "'a word"
    by (metis xor.assoc xor.left_neutral xor_self_eq)
  ultimately show ?thesis by simp
qed

lemma prefix_contains_full:
  "prefix_contains (prefix_from a (bit_len a)) b \<longleftrightarrow> a \<noteq> NoAddr \<and> \<not> has_zone b \<and> b = without_zone a"
proof -
  have "x XOR y = 0 \<longleftrightarrow> x = y" for x y :: "'a::len word"
    by (metis xor.assoc xor.left_neutral xor_self_eq)
  then show ?thesis
    by (cases a; cases b) (auto simp: prefix_contains_def prefix_from_def)
qed

section \<open>Configuration and its validation\<close>

record host_config =
  hc_name :: string
  hc_http_check :: string
  hc_http_expect :: int
  hc_addr :: string
  hc_user :: string
  hc_port :: int
  hc_expect :: duration
  hc_disabled :: bool

record config =
  cfg_listen :: string
  cfg_state_db :: string
  cfg_fleet_key :: string
  cfg_interval :: duration
  cfg_allowed_cidrs :: "string list"
  cfg_tls_cert :: string
  cfg_tls_key :: string
  cfg_hosts :: "host_config list"
  cfg_allowed :: "prefix list"

datatype config_error =
    CfgRead string
  | CfgYaml string
  | CfgNoFleetKey
  | CfgBadCIDR string
  | CfgHostUnnamed nat
  | CfgHostTwice string

definition parse_cidr ::
  "(string \<Rightarrow> prefix option) \<Rightarrow> (string \<Rightarrow> addr option) \<Rightarrow> string \<Rightarrow> prefix option" where
  "parse_cidr parse_prefix parse_addr s =
     (case parse_prefix s of
        Some p \<Rightarrow> Some p
      | None \<Rightarrow>
          (case parse_addr s of
             None \<Rightarrow> None
           | Some a \<Rightarrow> Some (prefix_from a (bit_len a))))"

fun validate_cidrs ::
  "(string \<Rightarrow> prefix option) \<Rightarrow> (string \<Rightarrow> addr option) \<Rightarrow> string list
     \<Rightarrow> prefix list \<Rightarrow> config_error + prefix list" where
  "validate_cidrs pp pa [] allowed = Inr allowed"
| "validate_cidrs pp pa (s # ss) allowed =
     (case parse_cidr pp pa s of
        None \<Rightarrow> Inl (CfgBadCIDR s)
      | Some p \<Rightarrow> validate_cidrs pp pa ss (allowed @ [p]))"

definition host_defaults :: "host_config \<Rightarrow> host_config" where
  "host_defaults h =
     h\<lparr>hc_addr := (if hc_addr h = '''' then hc_name h else hc_addr h),
       hc_user := (if hc_user h = '''' then ''root'' else hc_user h),
       hc_port := (if hc_port h = 0 then 22 else hc_port h),
       hc_expect := (if hc_expect h = 0 then 26 * hour else hc_expect h)\<rparr>"

fun validate_hosts ::
  "nat \<Rightarrow> string list \<Rightarrow> host_config list \<Rightarrow> config_error + host_config list" where
  "validate_hosts i seen [] = Inr []"
| "validate_hosts i seen (h # hs) =
     (if hc_name h = '''' then Inl (CfgHostUnnamed i)
      else if hc_name h \<in> set seen then Inl (CfgHostTwice (hc_name h))
      else (case validate_hosts (Suc i) (hc_name h # seen) hs of
              Inl e \<Rightarrow> Inl e
            | Inr hs' \<Rightarrow> Inr (host_defaults h # hs')))"

definition validate ::
  "(string \<Rightarrow> prefix option) \<Rightarrow> (string \<Rightarrow> addr option) \<Rightarrow> config \<Rightarrow> config_error + config" where
  "validate pp pa c =
     (if cfg_fleet_key c = '''' then Inl CfgNoFleetKey
      else (case validate_cidrs pp pa (cfg_allowed_cidrs c) (cfg_allowed c) of
              Inl e \<Rightarrow> Inl e
            | Inr al \<Rightarrow>
                (case validate_hosts 0 [] (cfg_hosts c) of
                   Inl e \<Rightarrow> Inl e
                 | Inr hs \<Rightarrow> Inr (c\<lparr>cfg_allowed := al, cfg_hosts := hs\<rparr>))))"

definition default_config :: config where
  "default_config =
     \<lparr>cfg_listen = ''127.0.0.1:8443'', cfg_state_db = ''amarre.db'', cfg_fleet_key = '''',
      cfg_interval = 15 * minute, cfg_allowed_cidrs = [], cfg_tls_cert = '''',
      cfg_tls_key = '''', cfg_hosts = [], cfg_allowed = []\<rparr>"

text \<open>\<open>read\<close> is the outcome of \<open>os.ReadFile\<close>, \<open>unyaml\<close> the decoder over the defaults.\<close>

definition load ::
  "string + string \<Rightarrow> (string \<Rightarrow> config \<Rightarrow> string + config)
     \<Rightarrow> (string \<Rightarrow> prefix option) \<Rightarrow> (string \<Rightarrow> addr option) \<Rightarrow> config_error + config" where
  "load read unyaml pp pa =
     (case read of
        Inl e \<Rightarrow> Inl (CfgRead e)
      | Inr raw \<Rightarrow>
          (case unyaml raw default_config of
             Inl e \<Rightarrow> Inl (CfgYaml e)
           | Inr c \<Rightarrow> validate pp pa c))"

definition ip_allowed :: "config \<Rightarrow> addr \<Rightarrow> bool" where
  "ip_allowed c a = (\<exists>p\<in>set (cfg_allowed c). prefix_contains p (unmap a))"

text \<open>The search every entry point of the collector makes for a host of that name.\<close>

definition find_host :: "config \<Rightarrow> string \<Rightarrow> host_config option" where
  "find_host c name = find (\<lambda>h. hc_name h = name) (cfg_hosts c)"

section \<open>Facts about validation\<close>

lemma find_host_Some: "find_host c name = Some h \<Longrightarrow> h \<in> set (cfg_hosts c) \<and> hc_name h = name"
  unfolding find_host_def by (rule find_SomeD)


lemma validate_cidrs_iff:
  "validate_cidrs pp pa ss al = Inr al' \<longleftrightarrow>
   (\<exists>ps. map (parse_cidr pp pa) ss = map Some ps \<and> al' = al @ ps)"
proof (induction ss arbitrary: al)
  case (Cons s ss)
  show ?case
  proof (cases "parse_cidr pp pa s")
    case None
    then show ?thesis by (auto simp: Cons_eq_map_conv)
  next
    case (Some p)
    then show ?thesis by (auto simp: Cons Cons_eq_map_conv)
  qed
qed auto

lemma validate_hosts_iff:
  "validate_hosts i seen hs = Inr hs' \<longleftrightarrow>
   (\<forall>h\<in>set hs. hc_name h \<noteq> '''') \<and> distinct (map hc_name hs) \<and>
   set (map hc_name hs) \<inter> set seen = {} \<and> hs' = map host_defaults hs"
  by (induction hs arbitrary: i seen hs') (auto simp: err_iff)

lemma validate_iff:
  "validate pp pa c = Inr c' \<longleftrightarrow>
   cfg_fleet_key c \<noteq> '''' \<and>
   (\<forall>h\<in>set (cfg_hosts c). hc_name h \<noteq> '''') \<and> distinct (map hc_name (cfg_hosts c)) \<and>
   (\<exists>ps. map (parse_cidr pp pa) (cfg_allowed_cidrs c) = map Some ps \<and>
     c' = c\<lparr>cfg_allowed := cfg_allowed c @ ps, cfg_hosts := map host_defaults (cfg_hosts c)\<rparr>)"
  by (auto simp: validate_def validate_cidrs_iff validate_hosts_iff err_iff)

lemma host_defaults_name [simp]: "hc_name (host_defaults h) = hc_name h"
  by (simp add: host_defaults_def)

lemma host_defaults_complete:
  "hc_name h \<noteq> '''' \<Longrightarrow> hc_addr (host_defaults h) \<noteq> '''' \<and> hc_user (host_defaults h) \<noteq> '''' \<and>
     hc_port (host_defaults h) \<noteq> 0 \<and> hc_expect (host_defaults h) \<noteq> 0"
  by (simp add: host_defaults_def go_time)

lemma host_defaults_idem: "host_defaults (host_defaults h) = host_defaults h"
  by (simp add: host_defaults_def go_time)

text \<open>
  What a loaded configuration guarantees to its clients: named, distinct, fully
  filled-in hosts.
\<close>

definition config_ok :: "config \<Rightarrow> bool" where
  "config_ok c \<longleftrightarrow>
     cfg_fleet_key c \<noteq> '''' \<and> distinct (map hc_name (cfg_hosts c)) \<and>
     (\<forall>h\<in>set (cfg_hosts c). hc_name h \<noteq> '''' \<and> hc_addr h \<noteq> '''' \<and> hc_user h \<noteq> '''' \<and>
        hc_port h \<noteq> 0 \<and> hc_expect h \<noteq> 0)"

lemma validate_config_ok: "validate pp pa c = Inr c' \<Longrightarrow> config_ok c'"
  by (auto simp: validate_iff config_ok_def host_defaults_complete comp_def)

section \<open>Properties\<close>

text \<open>
  C27. A loaded configuration. When loading succeeds, the fleet key is set, every host has a name
  of its own, an address, a user, a port and an expected delay; and the addresses let in are
  exactly those, unmapped, that some entry of the address list contains: an empty list lets
  nobody in. (The decoder leaves the unexported list of prefixes alone.)
\<close>

theorem loaded_config:
  assumes "load read unyaml pp pa = Inr c"
    and "\<And>raw c0. unyaml raw default_config = Inr c0 \<Longrightarrow> cfg_allowed c0 = []"
  shows "config_ok c \<and>
    (\<forall>a. ip_allowed c a \<longleftrightarrow>
      (\<exists>s\<in>set (cfg_allowed_cidrs c). \<exists>p. parse_cidr pp pa s = Some p \<and> prefix_contains p (unmap a)))"
proof -
  obtain raw c0 where c0: "unyaml raw default_config = Inr c0" "validate pp pa c0 = Inr c"
    using assms(1) by (auto simp: load_def split: sum.splits)
  from c0(2) obtain ps where ps: "map (parse_cidr pp pa) (cfg_allowed_cidrs c0) = map Some ps"
      "cfg_allowed c = cfg_allowed c0 @ ps" "cfg_allowed_cidrs c = cfg_allowed_cidrs c0"
    by (auto simp: validate_iff)
  have "Some ` set ps = parse_cidr pp pa ` set (cfg_allowed_cidrs c0)"
    using arg_cong [OF ps(1), of set] by simp
  then have "p \<in> set ps \<longleftrightarrow> (\<exists>s\<in>set (cfg_allowed_cidrs c0). parse_cidr pp pa s = Some p)" for p
    by (metis (no_types, opaque_lifting) imageE image_eqI option.inject)
  moreover have "set (cfg_allowed c) = set ps" using ps(2) assms(2) [OF c0(1)] by simp
  ultimately have "ip_allowed c a \<longleftrightarrow>
      (\<exists>s\<in>set (cfg_allowed_cidrs c). \<exists>p. parse_cidr pp pa s = Some p \<and> prefix_contains p (unmap a))" for a
    unfolding ip_allowed_def ps(3) by blast
  with validate_config_ok [OF c0(2)] show ?thesis by blast
qed

definition demo_yaml :: "string \<Rightarrow> config \<Rightarrow> string + config" where
  "demo_yaml raw c = Inr (c\<lparr>cfg_fleet_key := raw, cfg_allowed_cidrs := [''10.0.0.1'']\<rparr>)"

definition demo_parse :: "string \<Rightarrow> addr option" where
  "demo_parse s = (if s = ''10.0.0.1'' then Some (V4 0x0A000001) else None)"

theorem loaded_config_witness:
  "\<exists>c. load (Inr ''key'') demo_yaml (\<lambda>_. None) demo_parse = Inr c \<and>
     ip_allowed c (V4 0x0A000001) \<and> ip_allowed c (V6 0xFFFF0A000001 []) \<and> \<not> ip_allowed c (V4 0x0A000002)"
proof -
  let ?c = "default_config\<lparr>cfg_fleet_key := ''key'', cfg_allowed_cidrs := [''10.0.0.1''],
      cfg_allowed := [prefix_from (V4 0x0A000001) 32]\<rparr>"
  have load: "load (Inr ''key'') demo_yaml (\<lambda>_. None) demo_parse = Inr ?c"
    by (simp add: load_def demo_yaml_def demo_parse_def default_config_def validate_def parse_cidr_def)
  have yaml: "demo_yaml raw default_config = Inr c0 \<Longrightarrow> cfg_allowed c0 = []" for raw c0
    by (auto simp: demo_yaml_def default_config_def)
  have mapped: "unmap (V6 0xFFFF0A000001 []) = V4 0x0A000001"
    by (simp add: is_4in6_def drop_bit_eq_div)
  from loaded_config [OF load yaml, THEN conjunct2] load mapped show ?thesis
    using prefix_contains_full [of "V4 0x0A000001" "V4 0x0A000001"]
      prefix_contains_full [of "V4 0x0A000001" "V4 0x0A000002"]
    by (intro exI [of _ ?c]) (auto simp: parse_cidr_def demo_parse_def)
qed

text \<open>
  A mapped entry lets nobody in. An entry accepted in IPv4-mapped form (an address, or a
  prefix of 96 bits or more) contains no address the filter ever tests, because the filter
  unmaps the address first: such a line closes the console to the addresses it names.
\<close>

theorem mapped_entry_admits_nobody:
  assumes "parse_cidr pp pa s = Some p" and "pfx_ip p = V6 b z" and "is_4in6 b"
    and "pfx_bits p = Some n" and "96 \<le> n" and "n \<le> 128"
  shows "\<not> prefix_contains p (unmap a)"
proof (cases "unmap a")
  case (V6 c z')
  then have "\<not> is_4in6 c" by (cases a) (auto split: if_splits)
  have "drop_bit (128 - n) b \<noteq> drop_bit (128 - n) c"
  proof
    assume "drop_bit (128 - n) b = drop_bit (128 - n) c"
    then have "drop_bit (n - 96) (drop_bit (128 - n) b) = drop_bit (n - 96) (drop_bit (128 - n) c)"
      by simp
    then have "drop_bit 32 b = drop_bit 32 c" using assms(5,6) by (simp add: drop_bit_drop_bit)
    with assms(3) \<open>\<not> is_4in6 c\<close> show False by (simp add: is_4in6_def)
  qed
  then have "drop_bit (128 - n) (b XOR c) \<noteq> 0" by (simp only: drop_bit_xor_eq not_False_eq_True)
  with V6 assms(2,4) show ?thesis by (simp add: prefix_contains_def del: drop_bit_xor)
qed (use assms in \<open>simp_all add: prefix_contains_def\<close>)

theorem mapped_entry_admits_nobody_demo:
  "\<not> prefix_contains (prefix_from (V6 0xFFFF0A000001 []) 128) (unmap (V4 0x0A000001))"
proof (rule mapped_entry_admits_nobody [where pp = "\<lambda>_. None" and pa = "\<lambda>_. Some (V6 0xFFFF0A000001 [])"
    and s = "''''" and n = 128])
  show "is_4in6 0xFFFF0A000001" by (simp add: is_4in6_def drop_bit_eq_div)
qed (simp_all add: parse_cidr_def prefix_from_def)

end
