(* ===== verification/Amarre_Encoding.thy ===== *)
theory Amarre_Encoding
  imports Amarre_Strings
begin

text \<open>
  Go's \<open>encoding/base64\<close> (raw standard and raw URL alphabets) and \<open>encoding/base32\<close> (standard
  alphabet, no padding), which carry the salts, hashes, tokens and TOTP secrets. Both are the
  same radix code: the bits of the bytes, most significant first, cut in groups of 6 or 5,
  each group a letter of the alphabet. Decoding is proved to invert encoding.
\<close>

section \<open>Bits, groups, numbers\<close>

text \<open>The \<open>k\<close> low bits of a number, most significant first, and back.\<close>

fun to_bits :: "nat \<Rightarrow> nat \<Rightarrow> bool list" where
  "to_bits 0 n = []"
| "to_bits (Suc k) n = to_bits k (n div 2) @ [odd n]"

definition of_bits :: "bool list \<Rightarrow> nat" where
  "of_bits bs = foldl (\<lambda>n b. 2 * n + (if b then 1 else 0)) 0 bs"

lemma length_to_bits [simp]: "length (to_bits k n) = k"
  by (induction k arbitrary: n) auto

lemma of_bits_snoc [simp]: "of_bits (bs @ [b]) = 2 * of_bits bs + (if b then 1 else 0)"
  by (simp add: of_bits_def)

lemma of_bits_Nil [simp]: "of_bits [] = 0"
  by (simp add: of_bits_def)

lemma of_to_bits [simp]: "n < 2 ^ k \<Longrightarrow> of_bits (to_bits k n) = n"
  by (induction k arbitrary: n) auto

lemma to_of_bits [simp]: "length bs = k \<Longrightarrow> to_bits k (of_bits bs) = bs"
proof (induction bs arbitrary: k rule: rev_induct)
  case (snoc b bs)
  then show ?case by (cases k) auto
qed simp

lemma of_bits_less: "length bs = k \<Longrightarrow> of_bits bs < 2 ^ k"
proof (induction bs arbitrary: k rule: rev_induct)
  case (snoc b bs)
  then obtain j where "k = Suc j" and "length bs = j" by (cases k) auto
  moreover from this snoc.IH have "of_bits bs < 2 ^ j" by simp
  ultimately show ?case by simp
qed simp

text \<open>
  Encoding pads the last group with zero bits; decoding drops the bits that do not fill a
  group.
\<close>

function pad_groups :: "nat \<Rightarrow> bool list \<Rightarrow> bool list list" where
  "pad_groups k bs =
     (if k = 0 \<or> bs = [] then []
      else (take k bs @ replicate (k - length bs) False) # pad_groups k (drop k bs))"
  by pat_completeness auto
termination by (relation "measure (\<lambda>(k, bs). length bs)") auto

function full_groups :: "nat \<Rightarrow> bool list \<Rightarrow> bool list list" where
  "full_groups k bs =
     (if k = 0 \<or> length bs < k then [] else take k bs # full_groups k (drop k bs))"
  by pat_completeness auto
termination by (relation "measure (\<lambda>(k, bs). length bs)") auto

declare pad_groups.simps [simp del] full_groups.simps [simp del]

lemma pad_groups_length: "g \<in> set (pad_groups k bs) \<Longrightarrow> length g = k"
proof (induction k bs rule: pad_groups.induct)
  case (1 k bs)
  show ?case
  proof (cases "k = 0 \<or> bs = []")
    case False
    with 1 show ?thesis by (auto simp: pad_groups.simps [of k bs])
  qed (use 1 in \<open>simp add: pad_groups.simps [of k bs]\<close>)
qed

lemma concat_pad_groups:
  "0 < k \<Longrightarrow> \<exists>p<k. concat (pad_groups k bs) = bs @ replicate p False \<and>
     k * length (pad_groups k bs) = length bs + p"
proof (induction k bs rule: pad_groups.induct)
  case (1 k bs)
  show ?case
  proof (cases "bs = []")
    case True
    then show ?thesis using 1 by (simp add: pad_groups.simps [of k "[]"])
  next
    case False
    show ?thesis
    proof (cases "length bs < k")
      case True
      with 1 False have "pad_groups k bs = [bs @ replicate (k - length bs) False]"
        by (simp add: pad_groups.simps)
      then show ?thesis using True 1 False
        by (intro exI [of _ "k - length bs"]) auto
    next
      case not_less: False
      from 1 False obtain p where "p < k"
        and "concat (pad_groups k (drop k bs)) = drop k bs @ replicate p False"
        and "k * length (pad_groups k (drop k bs)) = length (drop k bs) + p"
        by auto
      moreover have "pad_groups k bs = take k bs # pad_groups k (drop k bs)"
        using 1 False not_less by (simp add: pad_groups.simps [of k bs])
      ultimately show ?thesis using not_less
        by (intro exI [of _ p]) (auto simp flip: append_assoc)
    qed
  qed
qed

lemma full_groups_concat:
  "0 < k \<Longrightarrow> (\<And>g. g \<in> set gs \<Longrightarrow> length g = k) \<Longrightarrow> length rest < k \<Longrightarrow>
   full_groups k (concat gs @ rest) = gs"
proof (induction gs)
  case Nil
  then show ?case by (simp add: full_groups.simps)
next
  case (Cons g gs)
  then show ?case by (subst full_groups.simps) simp
qed

section \<open>The radix code\<close>

definition radix_encode :: "nat \<Rightarrow> string \<Rightarrow> bytes \<Rightarrow> string" where
  "radix_encode k al bs =
     map (\<lambda>g. al ! of_bits g) (pad_groups k (concat (map (\<lambda>b. to_bits 8 (unat b)) bs)))"

definition letter_val :: "string \<Rightarrow> char \<Rightarrow> nat option" where
  "letter_val al c = find (\<lambda>i. al ! i = c) [0..<length al]"

fun letter_vals :: "string \<Rightarrow> string \<Rightarrow> nat list option" where
  "letter_vals al [] = Some []"
| "letter_vals al (c # cs) =
     (case letter_val al c of
        None \<Rightarrow> None
      | Some v \<Rightarrow> map_option (\<lambda>vs. v # vs) (letter_vals al cs))"

definition radix_bytes :: "nat \<Rightarrow> nat list \<Rightarrow> bytes" where
  "radix_bytes k vs = map (\<lambda>g. of_nat (of_bits g)) (full_groups 8 (concat (map (to_bits k) vs)))"

text \<open>Both decoders skip line breaks first.\<close>

definition strip_newlines :: "string \<Rightarrow> string" where
  "strip_newlines s = filter (\<lambda>c. c \<noteq> CHR 0x0A \<and> c \<noteq> CHR 0x0D) s"

lemma letter_val_nth: "distinct al \<Longrightarrow> i < length al \<Longrightarrow> letter_val al (al ! i) = Some i"
  unfolding letter_val_def
  by (auto simp: find_Some_iff nth_eq_iff_index_eq intro!: exI [of _ i])

lemma letter_vals_map:
  "distinct al \<Longrightarrow> (\<And>v. v \<in> set vs \<Longrightarrow> v < length al) \<Longrightarrow>
   letter_vals al (map (\<lambda>v. al ! v) vs) = Some vs"
  by (induction vs) (auto simp: letter_val_nth)

lemma bits_of_groups: "(\<And>g. g \<in> set gs \<Longrightarrow> length g = k) \<Longrightarrow>
    concat (map (to_bits k) (map of_bits gs)) = concat gs"
  by (induction gs) auto

lemma of_bits_byte [simp]: "of_nat (of_bits (to_bits 8 (unat (b :: 8 word)))) = b"
proof -
  have "unat b < 2 ^ 8" using unsigned_less [of b] by simp
  then show ?thesis by simp
qed

lemma length_byte_bits: "length (concat (map (\<lambda>b. to_bits 8 (unat (b :: 8 word))) bs)) = 8 * length bs"
  by (induction bs) auto

lemma radix_roundtrip:
  assumes k: "0 < k" "k \<le> 8" and al: "distinct al" "length al = 2 ^ k"
  shows "\<exists>vs. letter_vals al (radix_encode k al bs) = Some vs \<and> radix_bytes k vs = bs \<and>
     length vs = length (radix_encode k al bs) \<and>
     8 * length bs \<le> k * length vs \<and> k * length vs < 8 * length bs + k"
proof -
  let ?bits = "concat (map (\<lambda>b. to_bits 8 (unat b)) bs)"
  let ?gs = "pad_groups k ?bits"
  let ?vs = "map of_bits ?gs"
  obtain p where p: "p < k" "concat ?gs = ?bits @ replicate p False"
      "k * length ?gs = length ?bits + p"
    using concat_pad_groups [OF k(1), of ?bits] by blast
  have "radix_encode k al bs = map (\<lambda>v. al ! v) ?vs"
    by (simp add: radix_encode_def)
  moreover have "v < length al" if "v \<in> set ?vs" for v
    using that al by (auto simp: of_bits_less pad_groups_length)
  ultimately have vals: "letter_vals al (radix_encode k al bs) = Some ?vs"
    using al by (simp only: letter_vals_map)
  have "concat (map (to_bits k) ?vs) = ?bits @ replicate p False"
    using p by (simp only: bits_of_groups pad_groups_length)
  moreover have "full_groups 8 (?bits @ replicate p False) = map (\<lambda>b. to_bits 8 (unat b)) bs"
    by (rule full_groups_concat) (use p k in auto)
  ultimately have "radix_bytes k ?vs = bs"
    by (simp add: radix_bytes_def comp_def)
  then show ?thesis
    using vals p length_byte_bits [of bs] by (intro exI [of _ ?vs]) (auto simp: radix_encode_def)
qed

section \<open>base64 and base32\<close>

definition b64_std :: string where
  "b64_std = ''ABCDEFGHIJKLMNOPQRSTUVWXYZabcdefghijklmnopqrstuvwxyz0123456789+/''"

definition b64_url :: string where
  "b64_url = ''ABCDEFGHIJKLMNOPQRSTUVWXYZabcdefghijklmnopqrstuvwxyz0123456789-_''"

definition b32_std :: string where
  "b32_std = ''ABCDEFGHIJKLMNOPQRSTUVWXYZ234567''"

definition b64_encode :: "bytes \<Rightarrow> string" where
  "b64_encode bs = radix_encode 6 b64_std bs"

definition b64_url_encode :: "bytes \<Rightarrow> string" where
  "b64_url_encode bs = radix_encode 6 b64_url bs"

definition b32_encode :: "bytes \<Rightarrow> string" where
  "b32_encode bs = radix_encode 5 b32_std bs"

text \<open>
  \<open>RawStdEncoding.DecodeString\<close>: a letter outside the alphabet, or a last quantum of one
  letter, is an error. The base32 decoder without padding accepts a last quantum of any
  length but only stores the bytes of one of 2, 4, 5 or 7 letters.
\<close>

definition b64_decode :: "string \<Rightarrow> bytes option" where
  "b64_decode s =
     (case letter_vals b64_std (strip_newlines s) of
        None \<Rightarrow> None
      | Some vs \<Rightarrow> if length vs mod 4 = 1 then None else Some (radix_bytes 6 vs))"

definition b32_decode :: "string \<Rightarrow> bytes option" where
  "b32_decode s =
     (case letter_vals b32_std (strip_newlines s) of
        None \<Rightarrow> None
      | Some vs \<Rightarrow>
          let r = length vs mod 8 in
          Some (radix_bytes 5 (if r \<in> {1, 3, 6} then take (length vs - r) vs else vs)))"

lemma radix_encode_letters: "0 < k \<Longrightarrow> length al = 2 ^ k \<Longrightarrow> c \<in> set (radix_encode k al bs) \<Longrightarrow> c \<in> set al"
  by (auto simp: radix_encode_def of_bits_less pad_groups_length)

lemma strip_newlines_id: "CHR 0x0A \<notin> set s \<Longrightarrow> CHR 0x0D \<notin> set s \<Longrightarrow> strip_newlines s = s"
  by (auto simp: strip_newlines_def filter_id_conv)

lemma alphabet_facts:
  "distinct b64_std" "length b64_std = 2 ^ 6" "CHR 0x0A \<notin> set b64_std" "CHR 0x0D \<notin> set b64_std"
  "CHR ''$'' \<notin> set b64_std"
  "distinct b32_std" "length b32_std = 2 ^ 5" "CHR 0x0A \<notin> set b32_std" "CHR 0x0D \<notin> set b32_std"
  "CHR '' '' \<notin> set b32_std"
  by (simp_all add: b64_std_def b32_std_def)

lemma b64_encode_letters: "c \<in> set (b64_encode bs) \<Longrightarrow> c \<in> set b64_std"
  unfolding b64_encode_def by (rule radix_encode_letters [of 6]) (simp_all add: alphabet_facts)

lemma b32_encode_letters: "c \<in> set (b32_encode bs) \<Longrightarrow> c \<in> set b32_std"
  unfolding b32_encode_def by (rule radix_encode_letters [of 5]) (simp_all add: alphabet_facts)

text \<open>The lengths encoding produces never leave an impossible last quantum.\<close>

lemma quantum_64: "8 * n \<le> 6 * m \<Longrightarrow> 6 * m < 8 * n + 6 \<Longrightarrow> m mod 4 \<noteq> (1 :: nat)"
proof
  assume a: "8 * n \<le> 6 * m" "6 * m < 8 * n + 6" and r: "m mod 4 = 1"
  obtain q where "m = 4 * q + 1" using r by (metis mult_div_mod_eq)
  with a show False by presburger
qed

lemma quantum_32: "8 * n \<le> 5 * m \<Longrightarrow> 5 * m < 8 * n + 5 \<Longrightarrow> m mod 8 \<notin> {1, 3, 6 :: nat}"
proof
  assume a: "8 * n \<le> 5 * m" "5 * m < 8 * n + 5" and r: "m mod 8 \<in> {1, 3, 6}"
  obtain q where q: "m = 8 * q + m mod 8" by (metis mult_div_mod_eq)
  from r consider "m = 8 * q + 1" | "m = 8 * q + 3" | "m = 8 * q + 6" using q by auto
  then show False using a by cases presburger+
qed

lemma b64_roundtrip: "b64_decode (b64_encode bs) = Some bs"
proof -
  have "strip_newlines (b64_encode bs) = b64_encode bs"
    by (intro strip_newlines_id notI) (use b64_encode_letters alphabet_facts(3,4) in blast)+
  moreover obtain vs where vs: "letter_vals b64_std (b64_encode bs) = Some vs"
      "radix_bytes 6 vs = bs" "8 * length bs \<le> 6 * length vs" "6 * length vs < 8 * length bs + 6"
    using radix_roundtrip [of 6 b64_std bs, OF _ _ alphabet_facts(1,2)]
    by (auto simp: b64_encode_def)
  moreover have "length vs mod 4 \<noteq> 1"
    using vs(3,4) by (rule quantum_64)
  ultimately show ?thesis by (simp add: b64_decode_def)
qed

lemma b32_roundtrip: "b32_decode (b32_encode bs) = Some bs"
proof -
  have "strip_newlines (b32_encode bs) = b32_encode bs"
    by (intro strip_newlines_id notI) (use b32_encode_letters alphabet_facts(8,9) in blast)+
  moreover obtain vs where vs: "letter_vals b32_std (b32_encode bs) = Some vs"
      "radix_bytes 5 vs = bs" "8 * length bs \<le> 5 * length vs" "5 * length vs < 8 * length bs + 5"
    using radix_roundtrip [of 5 b32_std bs, OF _ _ alphabet_facts(6,7)]
    by (auto simp: b32_encode_def)
  moreover have "length vs mod 8 \<notin> {1, 3, 6}"
    using vs(3,4) by (rule quantum_32)
  ultimately show ?thesis by (simp add: b32_decode_def Let_def)
qed

end
