(* ===== verification/Amarre_Auth.thy ===== *)
theory Amarre_Auth
  imports Amarre_Encoding
begin

text \<open>
  Package \<open>auth\<close>: password hashing and verification (\<open>HashPassword\<close>, \<open>VerifyPassword\<close>), the
  TOTP second factor (\<open>totpAt\<close>, \<open>VerifyTOTP\<close>), random tokens (\<open>NewToken\<close>,
  \<open>NewTOTPSecret\<close>) and the login rate limiter (\<open>Limiter\<close>).

  Argon2id (a third-party package) and HMAC-SHA-1 are parameters \<open>idkey\<close> and \<open>hmac\<close>; what is
  relied on is the documented length of their results and when Argon2 panics (\<open>idkey_length\<close>,
  \<open>hmac_length\<close>). A derivation is \<open>None\<close> when it panics, and a caller passes the panic on as the
  outcome \<open>Panicked\<close>, which is no error the caller could handle. The random source is an
  argument: the bytes it returned, or nothing when it failed.
\<close>

unbundle bit_operations_syntax

section \<open>Passwords\<close>

type_synonym argon2 = "bytes \<Rightarrow> bytes \<Rightarrow> 32 word \<Rightarrow> 32 word \<Rightarrow> 8 word \<Rightarrow> 32 word \<Rightarrow> bytes option"

datatype auth_error = ErrRand | ErrBadHash | ErrBase32 | Panicked

definition string_bytes :: "string \<Rightarrow> bytes" where
  "string_bytes s = map (\<lambda>c. of_char c) s"

definition argon_version :: int where "argon_version = 19"
definition argon_time :: int where "argon_time = 3"
definition argon_memory :: int where "argon_memory = 64 * 1024"
definition argon_threads :: int where "argon_threads = 4"
definition argon_key_len :: int where "argon_key_len = 32"
definition salt_len :: nat where "salt_len = 16"

lemmas argon_defs = argon_version_def argon_time_def argon_memory_def argon_threads_def
  argon_key_len_def salt_len_def

definition hash_password :: "argon2 \<Rightarrow> bytes option \<Rightarrow> string \<Rightarrow> auth_error + string" where
  "hash_password idkey rnd password =
     (case rnd of
        None \<Rightarrow> Inl ErrRand
      | Some salt \<Rightarrow>
          (case idkey (string_bytes password) salt (word_of_int argon_time)
                  (word_of_int argon_memory) (word_of_int argon_threads)
                  (word_of_int argon_key_len) of
             None \<Rightarrow> Inl Panicked
           | Some key \<Rightarrow>
             Inr (''$argon2id$v='' @ show_int argon_version @ ''$m='' @ show_int argon_memory @
                  '',t='' @ show_int argon_time @ '',p='' @ show_int argon_threads @ ''$'' @
                  b64_encode salt @ ''$'' @ b64_encode key)))"

text \<open>
  \<open>fmt.Sscanf\<close>: literal text must match; \<open>%d\<close> skips spaces (not line breaks), takes a sign
  and at least one digit, and fails outside 64 bits. Input after the last verb is ignored.
\<close>

definition scan_lit :: "string \<Rightarrow> string \<Rightarrow> string option" where
  "scan_lit p s = (if has_prefix s p then Some (drop (length p) s) else None)"

definition scan_spaces :: "string list" where
  "scan_spaces = filter (\<lambda>w. w \<noteq> [CHR 0x0A]) space_runes"

definition scan_d :: "string \<Rightarrow> (int \<times> string) option" where
  "scan_d s =
     (let s1 = strip_front scan_spaces s;
          (neg, s2) = (case s1 of
             c # cs \<Rightarrow> if c = CHR ''-'' then (True, cs) else if c = CHR ''+'' then (False, cs)
                        else (False, s1)
           | [] \<Rightarrow> (False, s1));
          ds = takeWhile (\<lambda>c. digit_val c \<noteq> None) s2;
          rest = dropWhile (\<lambda>c. digit_val c \<noteq> None) s2
      in case (if ds = [] then None else read_digits 0 ds) of
           None \<Rightarrow> None
         | Some n \<Rightarrow>
             let v = (if neg then - int n else int n)
             in if in_int64 v then Some (v, rest) else None)"

definition sscanf_version :: "string \<Rightarrow> int option" where
  "sscanf_version s = Option.bind (scan_lit ''v='' s) (\<lambda>r. map_option fst (scan_d r))"

definition sscanf_params :: "string \<Rightarrow> (int \<times> int \<times> int) option" where
  "sscanf_params s =
     Option.bind (scan_lit ''m='' s) (\<lambda>r1. Option.bind (scan_d r1) (\<lambda>(m, r2).
     Option.bind (scan_lit '',t='' r2) (\<lambda>r3. Option.bind (scan_d r3) (\<lambda>(t, r4).
     Option.bind (scan_lit '',p='' r4) (\<lambda>r5. Option.bind (scan_d r5) (\<lambda>(p, r6).
     Some (m, t, p)))))))"

definition verify_password :: "argon2 \<Rightarrow> string \<Rightarrow> string \<Rightarrow> auth_error + bool" where
  "verify_password idkey password encoded =
     (case split_on (CHR ''$'') encoded of
        [p0, p1, p2, p3, p4, p5] \<Rightarrow>
          if p1 \<noteq> ''argon2id'' then Inl ErrBadHash
          else (case sscanf_version p2 of
              None \<Rightarrow> Inl ErrBadHash
            | Some version \<Rightarrow>
          (case sscanf_params p3 of
              None \<Rightarrow> Inl ErrBadHash
            | Some (mem, tim, par) \<Rightarrow>
          (case b64_decode p4 of
              None \<Rightarrow> Inl ErrBadHash
            | Some salt \<Rightarrow>
          (case b64_decode p5 of
              None \<Rightarrow> Inl ErrBadHash
            | Some want \<Rightarrow>
          (case idkey (string_bytes password) salt (word_of_int tim) (word_of_int mem)
                  (word_of_int par) (of_nat (length want)) of
              None \<Rightarrow> Inl Panicked
            | Some got \<Rightarrow> Inr (got = want))))))
      | _ \<Rightarrow> Inl ErrBadHash)"

text \<open>
  What Argon2 documents: it panics without a round or without a thread, and with both derives a
  key of the length that is asked for. An empty key is left open.
\<close>

definition idkey_length :: "argon2 \<Rightarrow> bool" where
  "idkey_length idkey \<longleftrightarrow>
     (\<forall>pw salt t m p l. (t = 0 \<or> p = 0 \<longrightarrow> idkey pw salt t m p l = None) \<and>
        (t \<noteq> 0 \<and> p \<noteq> 0 \<and> l \<noteq> 0 \<longrightarrow> (\<exists>key. idkey pw salt t m p l = Some key \<and> length key = unat l)))"

definition argon_key :: "argon2 \<Rightarrow> string \<Rightarrow> bytes \<Rightarrow> bytes option" where
  "argon_key idkey password salt = idkey (string_bytes password) salt 3 65536 4 32"

lemma printed_params:
  "show_int 19 = ''19''" "show_int 65536 = ''65536''" "show_int 3 = ''3''" "show_int 4 = ''4''"
  by (simp_all add: show_int_def show_nat.simps digit_char_def)

lemma strip_scan_digit: "digit_val c \<noteq> None \<Longrightarrow> strip_front scan_spaces (c # s) = c # s"
proof (rule strip_front_id, rule notI)
  fix w
  assume "digit_val c \<noteq> None" and "w \<in> set scan_spaces" and "w \<noteq> []" and "has_prefix (c # s) w"
  moreover have "\<forall>w\<in>set scan_spaces. digit_val (hd w) = None"
    by (simp add: scan_spaces_def space_runes_def digit_val_def)
  ultimately show False by (cases w) (auto simp: has_prefix_def)
qed

lemma scanned_params:
  "sscanf_version ''v=19'' = Some 19" "sscanf_params ''m=65536,t=3,p=4'' = Some (65536, 3, 4)"
  by (simp_all add: sscanf_version_def sscanf_params_def scan_lit_def has_prefix_def scan_d_def
      strip_scan_digit digit_val_def in_int64_def)

lemma idkey_derives:
  assumes "idkey_length idkey"
  shows "\<exists>key. argon_key idkey pw salt = Some key \<and> length key = 32"
  using assms unfolding idkey_length_def argon_key_def
  by (elim allE [where x = "string_bytes pw"] allE [where x = salt] allE [where x = 3] allE [where x = 65536]
      allE [where x = 4] allE [where x = 32]) simp

text \<open>The program's own parameters never make a derivation panic.\<close>

lemma hash_password_safe: "idkey_length idkey \<Longrightarrow> hash_password idkey rnd pw \<noteq> Inl Panicked"
  using idkey_derives [of idkey pw "the rnd"]
  by (auto simp: hash_password_def argon_key_def argon_defs split: option.splits)

lemma hash_password_parts:
  assumes "hash_password idkey (Some salt) pw = Inr h"
  shows "\<exists>key. argon_key idkey pw salt = Some key \<and>
    split_on (CHR ''$'') h = ['''', ''argon2id'', ''v=19'', ''m=65536,t=3,p=4'', b64_encode salt, b64_encode key]"
proof -
  obtain key where key: "argon_key idkey pw salt = Some key"
    using assms by (auto simp: hash_password_def argon_key_def argon_defs split: option.splits)
  let ?parts = "['''', ''argon2id'', ''v=19'', ''m=65536,t=3,p=4'', b64_encode salt, b64_encode key]"
  from assms key have "h = join_with [CHR ''$''] ?parts"
    by (auto simp: hash_password_def printed_params argon_key_def argon_defs)
  moreover have "CHR ''$'' \<notin> set p" if "p \<in> set ?parts" for p
    using that b64_encode_letters alphabet_facts(5) by auto
  ultimately have "split_on (CHR ''$'') h = ?parts" by (simp only: split_join list.distinct not_False_eq_True)
  with key show ?thesis by blast
qed

lemma verify_password_hash:
  assumes "hash_password idkey (Some salt) pw = Inr h" and "idkey_length idkey"
  shows "verify_password idkey pw' h = Inr (argon_key idkey pw' salt = argon_key idkey pw salt)"
proof -
  from hash_password_parts [OF assms(1)] obtain key where key: "argon_key idkey pw salt = Some key"
    and parts: "split_on (CHR ''$'') h = ['''', ''argon2id'', ''v=19'', ''m=65536,t=3,p=4'', b64_encode salt, b64_encode key]"
    by blast
  from idkey_derives [OF assms(2), of pw salt] key have len: "length key = 32" by simp
  from idkey_derives [OF assms(2), of pw' salt] obtain key' where "argon_key idkey pw' salt = Some key'" by blast
  then show ?thesis
    by (simp add: verify_password_def parts scanned_params b64_roundtrip key len) (simp add: argon_key_def)
qed

text \<open>
  A stored text that is well formed and asks Argon2 for no round, for no thread (in the widths
  Argon2 takes them) or for an empty key: the only ones a verification panics on, and none that
  the program writes.
\<close>

definition degenerate :: "string \<Rightarrow> bool" where
  "degenerate h \<longleftrightarrow>
     (\<exists>p0 p2 p3 p4 p5 m t p want. split_on (CHR ''$'') h = [p0, ''argon2id'', p2, p3, p4, p5] \<and>
        sscanf_params p3 = Some (m, t, p) \<and> b64_decode p5 = Some want \<and>
        ((word_of_int t :: 32 word) = 0 \<or> (word_of_int p :: 8 word) = 0 \<or>
         (of_nat (length want) :: 32 word) = 0))"

lemma verify_panics:
  assumes "verify_password idkey pw h = Inl Panicked" and "idkey_length idkey"
  shows "degenerate h"
proof -
  from assms(1) obtain p0 p2 p3 p4 p5 m t p salt want where parsed:
    "split_on (CHR ''$'') h = [p0, ''argon2id'', p2, p3, p4, p5]" "sscanf_params p3 = Some (m, t, p)"
    "b64_decode p5 = Some want"
    and none: "idkey (string_bytes pw) salt (word_of_int t) (word_of_int m) (word_of_int p) (of_nat (length want)) = None"
    by (auto simp: verify_password_def split: list.splits if_splits option.splits prod.splits)
  from assms(2) none have "(word_of_int t :: 32 word) = 0 \<or> (word_of_int p :: 8 word) = 0 \<or>
      (of_nat (length want) :: 32 word) = 0"
    unfolding idkey_length_def by (metis option.distinct(1))
  with parsed show ?thesis unfolding degenerate_def by blast
qed

lemma own_hash_sound:
  assumes "hash_password idkey (Some salt) pw = Inr h" and "idkey_length idkey"
  shows "\<not> degenerate h"
proof -
  from hash_password_parts [OF assms(1)] obtain key where key: "argon_key idkey pw salt = Some key"
    and parts: "split_on (CHR ''$'') h = ['''', ''argon2id'', ''v=19'', ''m=65536,t=3,p=4'', b64_encode salt, b64_encode key]"
    by blast
  from idkey_derives [OF assms(2), of pw salt] key have "length key = 32" by simp
  then show ?thesis by (auto simp: degenerate_def parts scanned_params b64_roundtrip)
qed

section \<open>Random secrets and tokens\<close>

definition new_totp_secret :: "bytes option \<Rightarrow> auth_error + string" where
  "new_totp_secret rnd = (case rnd of None \<Rightarrow> Inl ErrRand | Some b \<Rightarrow> Inr (b32_encode b))"

text \<open>The random bytes fill the buffer they are read into.\<close>

definition fill :: "nat \<Rightarrow> bytes \<Rightarrow> bytes" where
  "fill n b = take n (b @ replicate n 0)"

definition new_token :: "bytes option \<Rightarrow> auth_error + string" where
  "new_token rnd = (case rnd of None \<Rightarrow> Inl ErrRand | Some b \<Rightarrow> Inr (b64_url_encode (fill 32 b)))"

lemma new_token_nonempty: "new_token rnd = Inr tok \<Longrightarrow> tok \<noteq> ''''"
proof -
  assume "new_token rnd = Inr tok"
  then obtain b where tok: "tok = radix_encode 6 b64_url (fill 32 b)"
    by (auto simp: new_token_def b64_url_encode_def split: option.splits)
  have "distinct b64_url" "length b64_url = 2 ^ 6" by (simp_all add: b64_url_def)
  then have "8 * length (fill 32 b) \<le> 6 * length tok"
    using radix_roundtrip [of 6 b64_url "fill 32 b"] tok by fastforce
  then show "tok \<noteq> ''''" by (auto simp: fill_def)
qed

section \<open>TOTP\<close>

type_synonym mac = "bytes \<Rightarrow> bytes \<Rightarrow> bytes"

definition totp_period :: int where "totp_period = 30"

definition be64 :: "64 word \<Rightarrow> bytes" where
  "be64 w = map (\<lambda>i. ucast (drop_bit (56 - 8 * i) w)) [0..<8]"

definition be32 :: "bytes \<Rightarrow> 32 word" where
  "be32 bs = foldl (\<lambda>acc b. push_bit 8 acc OR ucast b) 0 bs"

text \<open>\<open>%06d\<close>\<close>

definition pad6 :: "nat \<Rightarrow> string" where
  "pad6 n = replicate (6 - length (show_nat n)) (CHR ''0'') @ show_nat n"

definition totp_key :: "string \<Rightarrow> bytes option" where
  "totp_key secret = b32_decode (to_upper (filter (\<lambda>c. c \<noteq> CHR '' '') secret))"

definition totp_code :: "bytes \<Rightarrow> string" where
  "totp_code digest =
     (let off = unat (last digest AND 0x0F);
          v = be32 (take 4 (drop off digest)) AND 0x7FFFFFFF
      in pad6 (unat (v mod 1000000)))"

definition totp_at :: "mac \<Rightarrow> string \<Rightarrow> 64 word \<Rightarrow> auth_error + string" where
  "totp_at hmac secret counter =
     (case totp_key secret of
        None \<Rightarrow> Inl ErrBase32
      | Some key \<Rightarrow> Inr (totp_code (hmac key (be64 counter))))"

fun totp_try :: "mac \<Rightarrow> string \<Rightarrow> string \<Rightarrow> 64 word \<Rightarrow> int list \<Rightarrow> bool" where
  "totp_try hmac secret code counter [] = False"
| "totp_try hmac secret code counter (d # ds) =
     (case totp_at hmac secret (counter + word_of_int d) of
        Inl _ \<Rightarrow> False
      | Inr want \<Rightarrow> if want = code then True else totp_try hmac secret code counter ds)"

definition totp_counter :: "time \<Rightarrow> 64 word" where
  "totp_counter now = word_of_int (unix_sec now) div word_of_int totp_period"

definition verify_totp :: "mac \<Rightarrow> string \<Rightarrow> string \<Rightarrow> time \<Rightarrow> bool" where
  "verify_totp hmac secret code now =
     (if secret = '''' \<or> length code \<noteq> 6 then False
      else totp_try hmac secret code (totp_counter now) [-1, 0, 1])"

definition provisioning_uri :: "string \<Rightarrow> string \<Rightarrow> string \<Rightarrow> string" where
  "provisioning_uri issuer account secret =
     ''otpauth://totp/'' @ issuer @ '':'' @ account @ ''?secret='' @ secret @ ''&issuer='' @
     issuer @ ''&algorithm=SHA1&digits=6&period='' @ show_int totp_period"

text \<open>What HMAC-SHA-1 documents: a 20-byte digest, so that the truncation stays in range.\<close>

definition hmac_length :: "mac \<Rightarrow> bool" where
  "hmac_length hmac \<longleftrightarrow> (\<forall>k m. length (hmac k m) = 20)"

lemma totp_offset_in_range:
  "length digest = 20 \<Longrightarrow> unat (last digest AND (0x0F :: 8 word)) + 4 \<le> length digest"
proof -
  have "unat (last digest AND 0x0F :: 8 word) \<le> unat (0x0F :: 8 word)"
    by (rule word_and_le1 [THEN word_le_nat_alt [THEN iffD1]])
  then show "length digest = 20 \<Longrightarrow> ?thesis" by simp
qed

lemma totp_code_length: "length (totp_code digest) = 6"
proof -
  let ?v = "unat ((be32 (take 4 (drop (unat (last digest AND 0x0F)) digest)) AND 0x7FFFFFFF) mod 1000000)"
  have "?v < 10 ^ 6" by (simp add: unat_mod)
  then have "length (show_nat ?v) \<le> 6" by (rule show_nat_length_le) simp
  then show ?thesis by (simp add: totp_code_def pad6_def Let_def)
qed

lemma totp_at_key: "totp_key secret = Some key \<Longrightarrow>
    totp_at hmac secret c = Inr (totp_code (hmac key (be64 c)))"
  by (simp add: totp_at_def)

lemma totp_try_iff:
  "totp_try hmac secret code c ds \<longleftrightarrow>
   (\<exists>d\<in>set ds. totp_at hmac secret (c + word_of_int d) = Inr code)"
  by (induction ds) (auto simp: totp_at_def split: option.splits)

lemma verify_totp_iff:
  "verify_totp hmac secret code now \<longleftrightarrow>
   secret \<noteq> '''' \<and> length code = 6 \<and>
   (\<exists>d\<in>{-1, 0, 1}. totp_at hmac secret (totp_counter now + word_of_int d) = Inr code)"
  by (simp add: verify_totp_def totp_try_iff del: totp_try.simps)

text \<open>A secret made by \<open>NewTOTPSecret\<close> is a base32 text the verifier decodes to its bytes.\<close>

lemma to_upper_id: "(\<And>c. c \<in> set s \<Longrightarrow> c \<in> set b32_std) \<Longrightarrow> to_upper s = s"
proof (induction s)
  case (Cons c s)
  then have "c \<in> set b32_std" by simp
  then have "upper_char c = c" and "c \<noteq> CHR 0xC4" and "c \<noteq> CHR 0xC5"
    by (auto simp: b32_std_def upper_char_def)
  then show ?case using Cons by (simp add: has_prefix_def)
qed simp

lemma totp_key_new_secret: "totp_key (b32_encode b) = Some b"
proof -
  have "CHR '' '' \<notin> set (b32_encode b)"
    using b32_encode_letters alphabet_facts(10) by blast
  then have "filter (\<lambda>c. c \<noteq> CHR '' '') (b32_encode b) = b32_encode b"
    by (auto simp: filter_id_conv)
  then show ?thesis
    by (simp add: totp_key_def to_upper_id b32_encode_letters b32_roundtrip)
qed

text \<open>The codes of a secret made by \<open>NewTOTPSecret\<close> from \<open>b\<close>.\<close>

lemma own_code_iff:
  assumes "new_totp_secret (Some b) = Inr secret" and "b \<noteq> []"
  shows "verify_totp hmac secret code now \<longleftrightarrow>
    (\<exists>d\<in>{-1, 0, 1}. code = totp_code (hmac b (be64 (totp_counter now + word_of_int d))))"
proof -
  have secret: "secret = b32_encode b" using assms(1) by (simp add: new_totp_secret_def)
  have "secret \<noteq> ''''"
  proof
    assume "secret = ''''"
    with totp_key_new_secret [of b] have "totp_key '''' = Some b" by (simp add: secret)
    moreover have "totp_key '''' = Some []"
      using totp_key_new_secret [of "[]"] by (simp add: b32_encode_def radix_encode_def pad_groups.simps)
    ultimately show False using assms(2) by simp
  qed
  then show ?thesis
    using totp_at_key [OF totp_key_new_secret [of b]] totp_code_length
    by (auto simp: verify_totp_iff secret)
qed

section \<open>Properties\<close>

text \<open>
  C28. Passwords. A password checked against the text stored for another is accepted exactly
  when Argon2 derives the same key from both under the stored salt; in particular the password
  itself is, and neither the format nor the parsing of the stored text gets in the way.
\<close>

theorem password_verifies:
  assumes "hash_password idkey (Some salt) pw = Inr h" and "idkey_length idkey"
  shows "verify_password idkey pw h = Inr True \<and>
    verify_password idkey pw' h = Inr (argon_key idkey pw' salt = argon_key idkey pw salt)"
  using verify_password_hash [OF assms] by simp

definition toy_idkey :: argon2 where
  "toy_idkey pw salt t m p l =
     (if t = 0 \<or> p = 0 then None else Some (replicate (unat l) (if pw = [] then 0 else hd pw)))"

theorem password_verifies_witness:
  "\<exists>h. hash_password toy_idkey (Some [1, 2, 3]) ''secret'' = Inr h \<and>
     verify_password toy_idkey ''secret'' h = Inr True \<and> verify_password toy_idkey ''guess'' h = Inr False"
proof -
  obtain h where h: "hash_password toy_idkey (Some [1, 2, 3]) ''secret'' = Inr h"
    by (simp add: hash_password_def toy_idkey_def argon_defs)
  have "idkey_length toy_idkey" by (simp add: idkey_length_def toy_idkey_def)
  from password_verifies [OF h this, of "''guess''"] h show ?thesis
    by (simp add: argon_key_def toy_idkey_def string_bytes_def)
qed

text \<open>
  C29. One-time codes. For a secret made by the program, a code is accepted at an instant
  exactly when it is the six-digit truncation of the authentication code of the period the
  instant lies in, of the one before or of the one after.
\<close>

theorem totp_window:
  assumes "new_totp_secret (Some b) = Inr secret" and "b \<noteq> []"
  shows "verify_totp hmac secret code now \<longleftrightarrow>
    (\<exists>d\<in>{-1, 0, 1}. code = totp_code (hmac b (be64 (totp_counter now + word_of_int d))))"
  by (rule own_code_iff [OF assms])

theorem totp_window_witness:
  "verify_totp (\<lambda>k m. replicate 19 0 @ [last m]) (b32_encode [1]) (totp_code (replicate 19 0 @ [2])) (45 * second)"
proof -
  let ?mac = "\<lambda>k m. replicate 19 0 @ [last m]"
  have secret: "new_totp_secret (Some [1]) = Inr (b32_encode [1])" by (simp add: new_totp_secret_def)
  have "[0..<8] = [0, 1, 2, 3, 4, 5, 6, 7]" by (simp add: upt_rec)
  then have "last (be64 2) = 2" by (simp add: be64_def)
  moreover have "totp_counter (45 * second) + word_of_int 1 = 2"
    by (simp add: totp_counter_def totp_period_def go_time)
  ultimately have "\<exists>d\<in>{-1, 0, 1}. totp_code (replicate 19 0 @ [2]) =
      totp_code (?mac [1] (be64 (totp_counter (45 * second) + word_of_int d)))"
    by (intro bexI [of _ 1]) simp_all
  with totp_window [OF secret, of ?mac] show ?thesis by blast
qed

end
