(* ===== verification/Amarre_Limiter.thy ===== *)
theory Amarre_Limiter
  imports Amarre_Base
begin

text \<open>
  The login rate limiter of package \<open>auth\<close> (\<open>Limiter\<close>, \<open>NewLimiter\<close>, \<open>Allow\<close>, \<open>Reset\<close>): per
  key, the times of the attempts granted in a sliding window.

  The interface the login handler relies on is the locale \<open>rate_limiter\<close>; the model of the
  code is its interpretation \<open>lim\<close>. The strongest fact is the window bound: whatever the
  sequence of attempts, no window ever holds more grants than the maximum.
\<close>

record limiter =
  lim_attempts :: "string \<rightharpoonup> time list"
  lim_max :: int
  lim_window :: duration

definition new_limiter :: "int \<Rightarrow> duration \<Rightarrow> limiter" where
  "new_limiter m w = \<lparr>lim_attempts = Map.empty, lim_max = m, lim_window = w\<rparr>"

definition attempts_of :: "limiter \<Rightarrow> string \<Rightarrow> time list" where
  "attempts_of l k = (case lim_attempts l k of None \<Rightarrow> [] | Some ts \<Rightarrow> ts)"

definition kept_attempts :: "time \<Rightarrow> string \<Rightarrow> limiter \<Rightarrow> time list" where
  "kept_attempts now k l = filter (\<lambda>t. now - lim_window l < t) (attempts_of l k)"

definition allow :: "time \<Rightarrow> string \<Rightarrow> limiter \<Rightarrow> bool \<times> limiter" where
  "allow now k l =
     (let kept = kept_attempts now k l in
      if int (length kept) \<ge> lim_max l
      then (False, l\<lparr>lim_attempts := (lim_attempts l)(k \<mapsto> kept)\<rparr>)
      else (True, l\<lparr>lim_attempts := (lim_attempts l)(k \<mapsto> kept @ [now])\<rparr>))"

definition lim_reset :: "string \<Rightarrow> limiter \<Rightarrow> limiter" where
  "lim_reset k l = l\<lparr>lim_attempts := (lim_attempts l)(k := None)\<rparr>"

section \<open>The interface\<close>

locale rate_limiter =
  fixes attempt :: "time \<Rightarrow> string \<Rightarrow> 'l \<Rightarrow> bool \<times> 'l"
    and clear :: "string \<Rightarrow> 'l \<Rightarrow> 'l"
    and recent :: "'l \<Rightarrow> string \<Rightarrow> time \<Rightarrow> nat"
    and cap :: "'l \<Rightarrow> int"
  assumes granted_iff: "fst (attempt now k l) \<longleftrightarrow> int (recent l k now) < cap l"
    and recent_granted: "fst (attempt now k l) \<Longrightarrow> now \<le> now' \<Longrightarrow>
          recent (snd (attempt now k l)) k now' \<le> Suc (recent l k now')"
    and recent_refused: "\<not> fst (attempt now k l) \<Longrightarrow> now \<le> now' \<Longrightarrow>
          recent (snd (attempt now k l)) k now' = recent l k now'"
    and recent_frame: "k' \<noteq> k \<Longrightarrow> recent (snd (attempt now k l)) k' now' = recent l k' now'"
    and recent_clear: "recent (clear k l) k now = 0"
    and clear_frame: "k' \<noteq> k \<Longrightarrow> recent (clear k l) k' now = recent l k' now"
    and cap_attempt: "cap (snd (attempt now k l)) = cap l"
    and cap_clear: "cap (clear k l) = cap l"
begin

lemmas limiter_laws = granted_iff recent_refused recent_frame recent_clear clear_frame
  cap_attempt cap_clear

lemma full_is_refused: "cap l \<le> int (recent l k now) \<Longrightarrow> \<not> fst (attempt now k l)"
  by (simp add: granted_iff)

lemma cleared_is_granted: "0 < cap l \<Longrightarrow> fst (attempt now k (clear k l))"
  by (simp add: granted_iff recent_clear cap_clear)

lemma other_key_unaffected:
  "k' \<noteq> k \<Longrightarrow> fst (attempt now' k' (snd (attempt now k l))) = fst (attempt now' k' l)"
  by (simp add: granted_iff recent_frame cap_attempt)

end

definition recent_attempts :: "limiter \<Rightarrow> string \<Rightarrow> time \<Rightarrow> nat" where
  "recent_attempts l k now = length (kept_attempts now k l)"

lemma attempts_of_allow_same:
  "attempts_of (snd (allow now k l)) k =
   (if fst (allow now k l) then kept_attempts now k l @ [now] else kept_attempts now k l)"
  by (simp add: allow_def attempts_of_def Let_def)

lemma attempts_of_allow_other [simp]:
  "k' \<noteq> k \<Longrightarrow> attempts_of (snd (allow now k l)) k' = attempts_of l k'"
  by (simp add: allow_def attempts_of_def Let_def)

lemma allow_frame [simp]:
  "lim_max (snd (allow now k l)) = lim_max l" "lim_window (snd (allow now k l)) = lim_window l"
  by (simp_all add: allow_def Let_def)

lemma reset_frame [simp]:
  "lim_max (lim_reset k l) = lim_max l" "lim_window (lim_reset k l) = lim_window l"
  "attempts_of (lim_reset k l) k = []"
  "k' \<noteq> k \<Longrightarrow> attempts_of (lim_reset k l) k' = attempts_of l k'"
  by (simp_all add: lim_reset_def attempts_of_def)

lemma allow_granted_iff: "fst (allow now k l) \<longleftrightarrow> int (recent_attempts l k now) < lim_max l"
  by (simp add: allow_def recent_attempts_def Let_def)

lemma filter_kept: "now \<le> now' \<Longrightarrow>
    filter (\<lambda>t. now - w < t \<and> now' - w < t) ts = filter (\<lambda>t. now' - (w::int) < t) ts"
  by (induction ts) auto

interpretation lim: rate_limiter allow lim_reset recent_attempts lim_max
proof
  fix now now' :: time and k k' :: string and l :: limiter
  show "fst (allow now k l) \<longleftrightarrow> int (recent_attempts l k now) < lim_max l"
    by (rule allow_granted_iff)
  show "fst (allow now k l) \<Longrightarrow> now \<le> now' \<Longrightarrow>
      recent_attempts (snd (allow now k l)) k now' \<le> Suc (recent_attempts l k now')"
    by (simp add: recent_attempts_def kept_attempts_def attempts_of_allow_same filter_kept)
  show "\<not> fst (allow now k l) \<Longrightarrow> now \<le> now' \<Longrightarrow>
      recent_attempts (snd (allow now k l)) k now' = recent_attempts l k now'"
    by (simp add: recent_attempts_def kept_attempts_def attempts_of_allow_same filter_kept)
qed (simp_all add: recent_attempts_def kept_attempts_def)

section \<open>Runs of attempts\<close>

datatype lim_event = Attempt time string | Clear string

fun lim_step :: "limiter \<Rightarrow> lim_event \<Rightarrow> limiter" where
  "lim_step l (Attempt now k) = snd (allow now k l)"
| "lim_step l (Clear k) = lim_reset k l"

text \<open>The times at which a run of events grants an attempt for key \<open>k\<close>.\<close>

fun granted_times :: "string \<Rightarrow> limiter \<Rightarrow> lim_event list \<Rightarrow> time list" where
  "granted_times k l [] = []"
| "granted_times k l (e # es) =
     (case e of
        Attempt now k' \<Rightarrow> if k' = k \<and> fst (allow now k' l) then [now] else []
      | Clear _ \<Rightarrow> []) @ granted_times k (lim_step l e) es"

fun event_times :: "lim_event list \<Rightarrow> time list" where
  "event_times [] = []"
| "event_times (Attempt now _ # es) = now # event_times es"
| "event_times (Clear _ # es) = event_times es"

definition in_window :: "time \<Rightarrow> duration \<Rightarrow> time \<Rightarrow> bool" where
  "in_window t w x \<longleftrightarrow> t - w < x \<and> x \<le> t"

text \<open>
  \<open>past\<close> is everything granted so far. The limiter's own list may have forgotten old grants,
  but from \<open>now\<close> on it agrees with \<open>past\<close> on every window.
\<close>

definition tracks :: "limiter \<Rightarrow> string \<Rightarrow> time \<Rightarrow> time list \<Rightarrow> bool" where
  "tracks l k now past \<longleftrightarrow>
     (\<forall>x\<in>set past. x \<le> now) \<and>
     (\<forall>now'\<ge>now. filter (\<lambda>t. now' - lim_window l < t) (attempts_of l k) =
                  filter (\<lambda>t. now' - lim_window l < t) past) \<and>
     (\<forall>t. int (length (filter (in_window t (lim_window l)) past)) \<le> lim_max l)"

lemma length_filter_imp: "(\<And>x. x \<in> set xs \<Longrightarrow> P x \<Longrightarrow> Q x) \<Longrightarrow>
    length (filter P xs) \<le> length (filter Q xs)"
  by (induction xs) (auto simp: le_SucI)

lemma tracks_allow:
  assumes "tracks l k now past" and "now \<le> now'"
  shows "tracks (snd (allow now' k l)) k now' (if fst (allow now' k l) then past @ [now'] else past)"
proof -
  let ?w = "lim_window l"
  have agree: "kept_attempts now' k l = filter (\<lambda>t. now' - ?w < t) past"
    using assms by (simp add: tracks_def kept_attempts_def)
  have later: "filter (\<lambda>t. u - ?w < t) (kept_attempts now' k l) = filter (\<lambda>t. u - ?w < t) past"
    if "now' \<le> u" for u using that by (simp add: agree filter_kept)
  have window: "int (length (filter (in_window t ?w) (past @ [now']))) \<le> lim_max l"
    if g: "fst (allow now' k l)" for t
  proof (cases "in_window t ?w now'")
    case True
    then have "length (filter (in_window t ?w) past) \<le> length (kept_attempts now' k l)"
      unfolding agree by (intro length_filter_imp) (auto simp: in_window_def)
    with g True show ?thesis by (simp add: allow_granted_iff recent_attempts_def)
  next
    case False
    with assms show ?thesis by (simp add: tracks_def)
  qed
  show ?thesis
    using assms later window by (auto simp: tracks_def attempts_of_allow_same)
qed

lemma tracks_other: "tracks l k now past \<Longrightarrow> now \<le> now' \<Longrightarrow> k' \<noteq> k \<Longrightarrow>
    tracks (snd (allow now' k' l)) k now' past"
  by (force simp: tracks_def)

lemma tracks_run:
  "tracks l k now past \<Longrightarrow> sorted (now # event_times es) \<Longrightarrow> Clear k \<notin> set es \<Longrightarrow>
   int (length (filter (in_window t (lim_window l)) (past @ granted_times k l es))) \<le> lim_max l"
proof (induction es arbitrary: l now past)
  case Nil
  then show ?case by (simp add: tracks_def)
next
  case (Cons e es)
  show ?case
  proof (cases e)
    case (Attempt now' k')
    show ?thesis
    proof (cases "k' = k")
      case True
      with Cons.prems Attempt have
        "tracks (snd (allow now' k l)) k now' (if fst (allow now' k l) then past @ [now'] else past)"
        by (intro tracks_allow) auto
      from Cons.IH [OF this] Cons.prems Attempt True show ?thesis by (simp split: if_splits)
    next
      case False
      with Cons.prems Attempt have "tracks (snd (allow now' k' l)) k now' past"
        by (intro tracks_other) auto
      from Cons.IH [OF this] Cons.prems Attempt False show ?thesis by simp
    qed
  next
    case (Clear k')
    with Cons.prems have "tracks (lim_reset k' l) k now past"
      by (auto simp: tracks_def)
    from Cons.IH [OF this] Cons.prems Clear show ?thesis by simp
  qed
qed

lemma new_limiter_bound:
  assumes "sorted (event_times es)" and "Clear k \<notin> set es" and "0 \<le> m"
  shows "int (length (filter (in_window t w) (granted_times k (new_limiter m w) es))) \<le> m"
proof -
  let ?now = "(case event_times es of [] \<Rightarrow> 0 | x # _ \<Rightarrow> x)"
  have "tracks (new_limiter m w) k ?now []"
    using assms(3) by (simp add: tracks_def new_limiter_def attempts_of_def)
  moreover have "sorted (?now # event_times es)"
    using assms(1) by (cases "event_times es") auto
  ultimately have "int (length (filter (in_window t (lim_window (new_limiter m w)))
      ([] @ granted_times k (new_limiter m w) es))) \<le> lim_max (new_limiter m w)"
    using assms(2) by (rule tracks_run)
  then show ?thesis by (simp add: new_limiter_def)
qed

section \<open>Properties\<close>

text \<open>
  Rate limit. Whatever the sequence of attempts on any keys, in the order of their times
  and with no reset of key \<open>k\<close> (a reset only follows a successful login), no half-open window
  of the configured length contains more than the configured maximum of granted attempts
  for \<open>k\<close>.
\<close>

theorem limiter_window_bound:
  assumes "sorted (event_times es)" and "Clear k \<notin> set es" and "0 \<le> m"
  shows "int (length (filter (in_window t w) (granted_times k (new_limiter m w) es))) \<le> m"
  using assms by (rule new_limiter_bound)

theorem limiter_window_bound_demo:
  "granted_times ''ip'' (new_limiter 2 100)
     [Attempt 1 ''ip'', Attempt 2 ''ip'', Attempt 3 ''ip'', Attempt 150 ''ip''] = [1, 2, 150] \<and>
   int (length (filter (in_window 50 100) (granted_times ''ip'' (new_limiter 2 100)
     [Attempt 1 ''ip'', Attempt 2 ''ip'', Attempt 3 ''ip'', Attempt 150 ''ip'']))) \<le> 2"
proof
  show "granted_times ''ip'' (new_limiter 2 100)
     [Attempt 1 ''ip'', Attempt 2 ''ip'', Attempt 3 ''ip'', Attempt 150 ''ip''] = [1, 2, 150]"
    by (simp add: allow_def new_limiter_def attempts_of_def kept_attempts_def)
  show "int (length (filter (in_window 50 100) (granted_times ''ip'' (new_limiter 2 100)
     [Attempt 1 ''ip'', Attempt 2 ''ip'', Attempt 3 ''ip'', Attempt 150 ''ip'']))) \<le> 2"
    by (rule limiter_window_bound) simp_all
qed

end
