(* ===== verification/Amarre_Store.thy ===== *)
theory Amarre_Store
  imports Amarre_Strings
begin

text \<open>
  Package \<open>store\<close>: the console's SQLite database. A table is the list of its rows in rowid
  order, and each operation is its SQL statement read on those lists: primary keys and
  \<open>UNIQUE\<close> columns refuse a duplicate, \<open>ON CONFLICT DO UPDATE\<close> replaces in place, an
  \<open>INTEGER PRIMARY KEY\<close> is one more than the largest in use.

  The engine is a third-party package. That it may fail is part of the model: \<open>db_fails\<close> says
  which statements it refuses, and a refused statement changes nothing. \<open>PRAGMA foreign_keys\<close>
  holds for one connection of the pool, so whether the next statement runs on a connection that
  enforces foreign keys is a field too, \<open>db_fk\<close>; only the insertion of a session asks it.
  \<open>ORDER BY\<close> leaves the order of equal keys open; where keys can be equal (the audit log, in
  whole seconds) the sort is a parameter.
\<close>

section \<open>Tables\<close>

record user_row =
  us_id :: int
  us_name :: string
  us_hash :: string
  us_totp :: "string option"
  us_created :: int

record session_row =
  se_token :: string
  se_user :: int
  se_created :: int
  se_expires :: int
  se_ip :: string
  se_csrf :: "string option"

record check_row =
  cr_id :: int
  cr_host :: string
  cr_collected :: int
  cr_reachable :: bool
  cr_err :: "string option"
  cr_snap_id :: "string option"
  cr_snap_at :: "int option"
  cr_size :: "int option"
  cr_repo_size :: "int option"
  cr_repo_raw :: "int option"

record meta_row =
  me_host :: string
  me_kind :: string
  me_payload :: string
  me_fetched :: int

record health_row =
  hr_host :: string
  hr_at :: int
  hr_state :: string
  hr_crit :: int
  hr_warn :: int
  hr_summary :: "string option"

record audit_row =
  au_id :: int
  au_at :: int
  au_actor :: string
  au_ip :: string
  au_action :: string
  au_target :: "string option"
  au_outcome :: string

datatype stmt =
    SInsertUser | SSelectUser | SSelectTotp | SCountUsers
  | SInsertSession | SSelectCsrf | SUpdateCsrf | SSelectSession | SDeleteSession | SPurgeSessions
  | SInsertCheck | SLatestChecks | SHistory
  | SInsertAudit | SSelectActions | SSelectAuditFor | SSelectRecent
  | SPutMeta | SDeleteMeta | SGetMeta
  | SPutHealth | SPurgeHealth | SHealthSeries | SHealthCoverage | SHourly

record db =
  db_users :: "user_row list"
  db_sessions :: "session_row list"
  db_checks :: "check_row list"
  db_meta :: "meta_row list"
  db_health :: "health_row list"
  db_audit :: "audit_row list"
  db_fk :: bool
  db_fails :: "stmt \<Rightarrow> bool"

datatype store_error = ErrEngine | ErrConstraint | ErrNoRows | ErrNoUser | ErrNoMeta

definition empty_db :: db where
  "empty_db = \<lparr>db_users = [], db_sessions = [], db_checks = [], db_meta = [], db_health = [],
     db_audit = [], db_fk = True, db_fails = (\<lambda>_. False)\<rparr>"

definition next_id :: "int list \<Rightarrow> int" where
  "next_id ids = (if ids = [] then 1 else fold max ids 0 + 1)"

definition str_of :: "string option \<Rightarrow> string" where
  "str_of x = (case x of None \<Rightarrow> '''' | Some s \<Rightarrow> s)"

definition int_of :: "int option \<Rightarrow> int" where
  "int_of x = (case x of None \<Rightarrow> 0 | Some n \<Rightarrow> n)"

definition limit_rows :: "int \<Rightarrow> 'a list \<Rightarrow> 'a list" where
  "limit_rows n xs = (if n < 0 then xs else take (nat n) xs)"

text \<open>\<open>INSERT ... ON CONFLICT(key) DO UPDATE\<close>: update the row that has the key, else append.\<close>

definition upsert :: "('r \<Rightarrow> bool) \<Rightarrow> ('r \<Rightarrow> 'r) \<Rightarrow> 'r \<Rightarrow> 'r list \<Rightarrow> 'r list" where
  "upsert hit upd new rows =
     (if \<exists>r\<in>set rows. hit r then map (\<lambda>r. if hit r then upd r else r) rows else rows @ [new])"

section \<open>Users\<close>

record user =
  usr_id :: int
  usr_name :: string
  usr_hash :: string
  usr_totp :: string

definition user_of :: "user_row \<Rightarrow> user" where
  "user_of r = \<lparr>usr_id = us_id r, usr_name = us_name r, usr_hash = us_hash r,
     usr_totp = str_of (us_totp r)\<rparr>"

definition create_user :: "time \<Rightarrow> string \<Rightarrow> string \<Rightarrow> string \<Rightarrow> db \<Rightarrow> store_error + db" where
  "create_user now username hash totp d =
     (if db_fails d SInsertUser then Inl ErrEngine
      else if username \<in> set (map us_name (db_users d)) then Inl ErrConstraint
      else Inr (d\<lparr>db_users := db_users d @
        [\<lparr>us_id = next_id (map us_id (db_users d)), us_name = username, us_hash = hash,
          us_totp = Some totp, us_created = unix_sec now\<rparr>]\<rparr>))"

definition user_by_name :: "string \<Rightarrow> db \<Rightarrow> store_error + user" where
  "user_by_name username d =
     (if db_fails d SSelectUser then Inl ErrEngine
      else (case find (\<lambda>r. us_name r = username) (db_users d) of
              None \<Rightarrow> Inl ErrNoUser
            | Some r \<Rightarrow> Inr (user_of r)))"

definition totp_secret :: "string \<Rightarrow> db \<Rightarrow> store_error + string" where
  "totp_secret username d =
     (if db_fails d SSelectTotp then Inl ErrEngine
      else (case find (\<lambda>r. us_name r = username) (db_users d) of
              None \<Rightarrow> Inl ErrNoUser
            | Some r \<Rightarrow> Inr (str_of (us_totp r))))"

definition count_users :: "db \<Rightarrow> store_error + int" where
  "count_users d = (if db_fails d SCountUsers then Inl ErrEngine else Inr (int (length (db_users d))))"

section \<open>Sessions\<close>

definition create_session ::
  "time \<Rightarrow> string \<Rightarrow> int \<Rightarrow> string \<Rightarrow> string \<Rightarrow> duration \<Rightarrow> db \<Rightarrow> store_error + db" where
  "create_session now token uid ip csrf ttl d =
     (if db_fails d SInsertSession then Inl ErrEngine
      else if token \<in> set (map se_token (db_sessions d)) then Inl ErrConstraint
      else if db_fk d \<and> uid \<notin> set (map us_id (db_users d)) then Inl ErrConstraint
      else Inr (d\<lparr>db_sessions := db_sessions d @
        [\<lparr>se_token = token, se_user = uid, se_created = unix_sec now,
          se_expires = unix_sec (now + ttl), se_ip = ip, se_csrf = Some csrf\<rparr>]\<rparr>))"

definition session_csrf :: "string \<Rightarrow> db \<Rightarrow> store_error + string" where
  "session_csrf token d =
     (if db_fails d SSelectCsrf then Inl ErrEngine
      else (case find (\<lambda>r. se_token r = token) (db_sessions d) of
              None \<Rightarrow> Inl ErrNoRows
            | Some r \<Rightarrow> Inr (str_of (se_csrf r))))"

definition set_session_csrf :: "string \<Rightarrow> string \<Rightarrow> db \<Rightarrow> store_error + db" where
  "set_session_csrf token csrf d =
     (if db_fails d SUpdateCsrf then Inl ErrEngine
      else Inr (d\<lparr>db_sessions :=
        map (\<lambda>r. if se_token r = token then r\<lparr>se_csrf := Some csrf\<rparr> else r) (db_sessions d)\<rparr>))"

text \<open>The join of the sessions that match with their users; the first row, if any.\<close>

definition session_matches :: "time \<Rightarrow> string \<Rightarrow> string \<Rightarrow> session_row \<Rightarrow> bool" where
  "session_matches now token ip r \<longleftrightarrow>
     se_token r = token \<and> unix_sec now < se_expires r \<and> se_ip r = ip"

definition session_rows :: "time \<Rightarrow> string \<Rightarrow> string \<Rightarrow> db \<Rightarrow> user_row list" where
  "session_rows now token ip d =
     concat (map (\<lambda>s. filter (\<lambda>u. us_id u = se_user s) (db_users d))
       (filter (session_matches now token ip) (db_sessions d)))"

definition session_user :: "time \<Rightarrow> string \<Rightarrow> string \<Rightarrow> db \<Rightarrow> store_error + user" where
  "session_user now token ip d =
     (if db_fails d SSelectSession then Inl ErrEngine
      else (case session_rows now token ip d of
              [] \<Rightarrow> Inl ErrNoUser
            | u # _ \<Rightarrow> Inr (user_of u)))"

definition delete_session :: "string \<Rightarrow> db \<Rightarrow> store_error + db" where
  "delete_session token d =
     (if db_fails d SDeleteSession then Inl ErrEngine
      else Inr (d\<lparr>db_sessions := filter (\<lambda>r. se_token r \<noteq> token) (db_sessions d)\<rparr>))"

definition purge_expired_sessions :: "time \<Rightarrow> db \<Rightarrow> store_error + db" where
  "purge_expired_sessions now d =
     (if db_fails d SPurgeSessions then Inl ErrEngine
      else Inr (d\<lparr>db_sessions := filter (\<lambda>r. unix_sec now < se_expires r) (db_sessions d)\<rparr>))"

section \<open>Checks\<close>

record check =
  ck_host :: string
  ck_collected :: time
  ck_reachable :: bool
  ck_err :: string
  ck_snap_id :: string
  ck_snap_at :: time
  ck_size :: int
  ck_repo_size :: int
  ck_repo_raw :: int

definition check_row_of :: "int \<Rightarrow> check \<Rightarrow> check_row" where
  "check_row_of i c =
     \<lparr>cr_id = i, cr_host = ck_host c, cr_collected = unix_sec (ck_collected c),
      cr_reachable = ck_reachable c, cr_err = Some (ck_err c), cr_snap_id = Some (ck_snap_id c),
      cr_snap_at = (if is_zero (ck_snap_at c) then None else Some (unix_sec (ck_snap_at c))),
      cr_size = Some (ck_size c), cr_repo_size = Some (ck_repo_size c),
      cr_repo_raw = Some (ck_repo_raw c)\<rparr>"

definition record_check :: "check \<Rightarrow> db \<Rightarrow> store_error + db" where
  "record_check c d =
     (if db_fails d SInsertCheck then Inl ErrEngine
      else Inr (d\<lparr>db_checks := db_checks d @
                   [check_row_of (next_id (map cr_id (db_checks d))) c]\<rparr>))"

definition check_of :: "check_row \<Rightarrow> check" where
  "check_of r =
     \<lparr>ck_host = cr_host r, ck_collected = of_unix (cr_collected r),
      ck_reachable = cr_reachable r, ck_err = str_of (cr_err r),
      ck_snap_id = str_of (cr_snap_id r),
      ck_snap_at = (if int_of (cr_snap_at r) > 0 then of_unix (int_of (cr_snap_at r)) else zero_time),
      ck_size = int_of (cr_size r), ck_repo_size = int_of (cr_repo_size r),
      ck_repo_raw = int_of (cr_repo_raw r)\<rparr>"

text \<open>\<open>id IN (SELECT MAX(id) FROM checks GROUP BY host)\<close>: no row of the host has a larger id.\<close>

definition is_latest :: "check_row list \<Rightarrow> check_row \<Rightarrow> bool" where
  "is_latest rows r \<longleftrightarrow> (\<forall>r'\<in>set rows. cr_host r' = cr_host r \<longrightarrow> cr_id r' \<le> cr_id r)"

definition latest_checks :: "db \<Rightarrow> store_error + check list" where
  "latest_checks d =
     (if db_fails d SLatestChecks then Inl ErrEngine
      else Inr (map check_of (slice_stable (\<lambda>a b. cr_host a < cr_host b)
                  (filter (is_latest (db_checks d)) (db_checks d)))))"

text \<open>\<open>History\<close> fills in four columns only; the rest of the record keeps its zero values.\<close>

definition history_of :: "string \<Rightarrow> check_row \<Rightarrow> check" where
  "history_of host r =
     \<lparr>ck_host = host, ck_collected = of_unix (cr_collected r), ck_reachable = cr_reachable r,
      ck_err = '''', ck_snap_id = '''', ck_snap_at = zero_time, ck_size = int_of (cr_size r),
      ck_repo_size = int_of (cr_repo_size r), ck_repo_raw = 0\<rparr>"

definition history :: "string \<Rightarrow> int \<Rightarrow> db \<Rightarrow> store_error + check list" where
  "history host n d =
     (if db_fails d SHistory then Inl ErrEngine
      else Inr (rev (map (history_of host) (limit_rows n
        (slice_stable (\<lambda>a b. cr_id b < cr_id a)
           (filter (\<lambda>r. cr_host r = host) (db_checks d)))))))"

section \<open>Audit log\<close>

record audit_entry =
  ae_at :: time
  ae_actor :: string
  ae_ip :: string
  ae_action :: string
  ae_target :: string
  ae_outcome :: string

text \<open>Errors of the insertion are ignored by the code.\<close>

definition audit :: "time \<Rightarrow> string \<Rightarrow> string \<Rightarrow> string \<Rightarrow> string \<Rightarrow> string \<Rightarrow> db \<Rightarrow> db" where
  "audit now actor ip action target outcome d =
     (if db_fails d SInsertAudit then d
      else d\<lparr>db_audit := db_audit d @
        [\<lparr>au_id = next_id (map au_id (db_audit d)), au_at = unix_sec now, au_actor = actor,
          au_ip = ip, au_action = action, au_target = Some target, au_outcome = outcome\<rparr>]\<rparr>)"

definition entry_of :: "audit_row \<Rightarrow> audit_entry" where
  "entry_of r = \<lparr>ae_at = of_unix (au_at r), ae_actor = au_actor r, ae_ip = au_ip r,
     ae_action = au_action r, ae_target = str_of (au_target r), ae_outcome = au_outcome r\<rparr>"

definition newer :: "audit_row \<Rightarrow> audit_row \<Rightarrow> bool" where
  "newer a b \<longleftrightarrow> au_at b < au_at a"

type_synonym audit_order =
  "(audit_row \<Rightarrow> audit_row \<Rightarrow> bool) \<Rightarrow> audit_row list \<Rightarrow> audit_row list"

definition actions_for :: "audit_order \<Rightarrow> string \<Rightarrow> int \<Rightarrow> db \<Rightarrow> store_error + audit_entry list" where
  "actions_for srt host n d =
     (if db_fails d SSelectActions then Inl ErrEngine
      else Inr (map entry_of (limit_rows n (srt newer
        (filter (\<lambda>r. au_target r = Some host \<and>
                     au_action r \<in> {''check'', ''backup'', ''unlock''}) (db_audit d))))))"

text \<open>
  SQLite's \<open>LIKE\<close>: \<open>%\<close> is any text, \<open>_\<close> any one character (its UTF-8 continuation bytes
  with it), letters of ASCII match in either case.
\<close>

definition is_continuation :: "char \<Rightarrow> bool" where
  "is_continuation c \<longleftrightarrow> (of_char c :: nat) div 64 = 2"

fun sql_like :: "string \<Rightarrow> string \<Rightarrow> bool" where
  "sql_like [] s \<longleftrightarrow> s = []"
| "sql_like (p # ps) [] \<longleftrightarrow> p = CHR ''%'' \<and> sql_like ps []"
| "sql_like (p # ps) (c # s) \<longleftrightarrow>
     (if p = CHR ''%'' then sql_like ps (c # s) \<or> sql_like (p # ps) s
      else if p = CHR ''_'' then sql_like ps (dropWhile is_continuation s)
      else lower_char p = lower_char c \<and> sql_like ps s)"

definition audit_for :: "audit_order \<Rightarrow> string \<Rightarrow> int \<Rightarrow> db \<Rightarrow> store_error + audit_entry list" where
  "audit_for srt host n d =
     (if db_fails d SSelectAuditFor then Inl ErrEngine
      else Inr (map entry_of (limit_rows n (srt newer
        (filter (\<lambda>r. au_target r = Some host \<or>
                     (case au_target r of None \<Rightarrow> False | Some t \<Rightarrow> sql_like (host @ '':%'') t))
           (db_audit d))))))"

definition recent_audit :: "audit_order \<Rightarrow> int \<Rightarrow> db \<Rightarrow> store_error + audit_entry list" where
  "recent_audit srt n d =
     (if db_fails d SSelectRecent then Inl ErrEngine
      else Inr (map entry_of (limit_rows n (srt newer (db_audit d)))))"

section \<open>Host metadata\<close>

definition put_meta :: "time \<Rightarrow> string \<Rightarrow> string \<Rightarrow> string \<Rightarrow> db \<Rightarrow> store_error + db" where
  "put_meta now host kind payload d =
     (if db_fails d SPutMeta then Inl ErrEngine
      else Inr (d\<lparr>db_meta :=
        upsert (\<lambda>r. me_host r = host \<and> me_kind r = kind)
          (\<lambda>r. r\<lparr>me_payload := payload, me_fetched := unix_sec now\<rparr>)
          \<lparr>me_host = host, me_kind = kind, me_payload = payload, me_fetched = unix_sec now\<rparr>
          (db_meta d)\<rparr>))"

definition delete_meta :: "string \<Rightarrow> string \<Rightarrow> db \<Rightarrow> store_error + db" where
  "delete_meta host kind d =
     (if db_fails d SDeleteMeta then Inl ErrEngine
      else Inr (d\<lparr>db_meta := filter (\<lambda>r. \<not> (me_host r = host \<and> me_kind r = kind)) (db_meta d)\<rparr>))"

definition get_meta :: "string \<Rightarrow> string \<Rightarrow> db \<Rightarrow> store_error + string \<times> time" where
  "get_meta host kind d =
     (if db_fails d SGetMeta then Inl ErrEngine
      else (case find (\<lambda>r. me_host r = host \<and> me_kind r = kind) (db_meta d) of
              None \<Rightarrow> Inl ErrNoMeta
            | Some r \<Rightarrow> Inr (me_payload r, of_unix (me_fetched r))))"

section \<open>State history\<close>

definition record_health ::
  "string \<Rightarrow> time \<Rightarrow> string \<Rightarrow> int \<Rightarrow> int \<Rightarrow> string \<Rightarrow> db \<Rightarrow> store_error + db" where
  "record_health host at state crit warn summary d =
     (if db_fails d SPutHealth then Inl ErrEngine
      else Inr (d\<lparr>db_health :=
        upsert (\<lambda>r. hr_host r = host \<and> hr_at r = unix_sec at)
          (\<lambda>r. r\<lparr>hr_state := state, hr_crit := crit, hr_warn := warn, hr_summary := Some summary\<rparr>)
          \<lparr>hr_host = host, hr_at = unix_sec at, hr_state = state, hr_crit = crit,
            hr_warn = warn, hr_summary = Some summary\<rparr>
          (db_health d)\<rparr>))"

definition purge_health_history :: "time \<Rightarrow> duration \<Rightarrow> db \<Rightarrow> store_error + db" where
  "purge_health_history now keep d =
     (if db_fails d SPurgeHealth then Inl ErrEngine
      else Inr (d\<lparr>db_health := filter (\<lambda>r. \<not> hr_at r < unix_sec (now - keep)) (db_health d)\<rparr>))"

record health_point =
  hp_at :: time
  hp_state :: string
  hp_crit :: int
  hp_warn :: int
  hp_summary :: string

definition point_of :: "health_row \<Rightarrow> health_point" where
  "point_of r = \<lparr>hp_at = of_unix (hr_at r), hp_state = hr_state r, hp_crit = hr_crit r,
     hp_warn = hr_warn r, hp_summary = str_of (hr_summary r)\<rparr>"

definition health_series :: "string \<Rightarrow> time \<Rightarrow> db \<Rightarrow> store_error + health_point list" where
  "health_series host since d =
     (if db_fails d SHealthSeries then Inl ErrEngine
      else Inr (map point_of (slice_stable (\<lambda>a b. hr_at a < hr_at b)
        (filter (\<lambda>r. hr_host r = host \<and> unix_sec since \<le> hr_at r) (db_health d)))))"

definition health_coverage :: "db \<Rightarrow> store_error + time \<times> time \<times> int" where
  "health_coverage d =
     (if db_fails d SHealthCoverage then Inl ErrEngine
      else Inr (case map hr_at (db_health d) of
          [] \<Rightarrow> (zero_time, zero_time, 0)
        | t # ts \<Rightarrow> (of_unix (fold min ts t), of_unix (fold max ts t), int (length (t # ts)))))"

text \<open>
  The state hour by hour. Rows of equal rank leave the choice of the summary to the engine,
  whose sort is a parameter; the summary is looked for in the whole hour, the other columns in
  the part of it inside the window.
\<close>

record hourly_state =
  hs_hour :: time
  hs_state :: string
  hs_crit :: int
  hs_warn :: int
  hs_summary :: string
  hs_samples :: int

type_synonym health_order = "(health_row \<Rightarrow> health_row \<Rightarrow> bool) \<Rightarrow> health_row list \<Rightarrow> health_row list"

definition hour_of :: "int \<Rightarrow> int" where
  "hour_of at = go_div at 3600 * 3600"

definition state_rank :: "string \<Rightarrow> int" where
  "state_rank s = (if s = ''crit'' then 3 else if s = ''warn'' then 2 else if s = ''ok'' then 1 else 0)"

definition summary_rank :: "string \<Rightarrow> int" where
  "summary_rank s = (if s = ''crit'' then 3 else if s = ''warn'' then 2 else 1)"

definition rank_state :: "int \<Rightarrow> string" where
  "rank_state n = (if n = 3 then ''crit'' else if n = 2 then ''warn'' else if n = 1 then ''ok'' else ''unknown'')"

definition hour_summary :: "health_order \<Rightarrow> string \<Rightarrow> int \<Rightarrow> db \<Rightarrow> string" where
  "hour_summary sorted_by host h d =
     (case sorted_by (\<lambda>a b. summary_rank (hr_state b) < summary_rank (hr_state a))
             (filter (\<lambda>r. hr_host r = host \<and> hour_of (hr_at r) = h) (db_health d)) of
        [] \<Rightarrow> ''''
      | r # _ \<Rightarrow> str_of (hr_summary r))"

definition hourly_history ::
  "health_order \<Rightarrow> string \<Rightarrow> time \<Rightarrow> db \<Rightarrow> store_error + (int \<rightharpoonup> hourly_state)" where
  "hourly_history sorted_by host since d =
     (if db_fails d SHourly then Inl ErrEngine
      else Inr (\<lambda>h.
        (case filter (\<lambda>r. hr_host r = host \<and> unix_sec since \<le> hr_at r \<and> hour_of (hr_at r) = h) (db_health d) of
           [] \<Rightarrow> None
         | r # rs \<Rightarrow> Some
             \<lparr>hs_hour = of_unix h,
              hs_state = rank_state (fold max (map (state_rank \<circ> hr_state) rs) (state_rank (hr_state r))),
              hs_crit = fold max (map hr_crit rs) (hr_crit r),
              hs_warn = fold max (map hr_warn rs) (hr_warn r),
              hs_summary = hour_summary sorted_by host h d,
              hs_samples = int (length (r # rs))\<rparr>)))"

end
