(* ===== verification/Amarre_Store_Facts.thy ===== *)
theory Amarre_Store_Facts
  imports Amarre_Store
begin

text \<open>
  What the store guarantees: the well-formedness of the tables (\<open>store_inv\<close>), kept by every
  statement (\<open>store_step\<close>, \<open>store_reachable\<close>); the host metadata as a key-value store
  (locale \<open>kv_store\<close>, interpreted on \<open>put_meta\<close>, \<open>get_meta\<close>, \<open>delete_meta\<close>); the last check of
  each host; and who a session token resolves to. Foreign keys are enforced per connection, so the
  ownership of sessions is stated over runs (\<open>store_run\<close>).
\<close>

section \<open>Well-formed tables\<close>

definition ascending :: "int list \<Rightarrow> bool" where
  "ascending ids \<longleftrightarrow> sorted_wrt (<) ids \<and> (\<forall>i\<in>set ids. 0 < i)"

definition meta_key :: "meta_row \<Rightarrow> string \<times> string" where
  "meta_key r = (me_host r, me_kind r)"

definition health_key :: "health_row \<Rightarrow> string \<times> int" where
  "health_key r = (hr_host r, hr_at r)"

definition store_inv :: "db \<Rightarrow> bool" where
  "store_inv d \<longleftrightarrow>
     ascending (map us_id (db_users d)) \<and> distinct (map us_name (db_users d)) \<and>
     distinct (map se_token (db_sessions d)) \<and>
     ascending (map cr_id (db_checks d)) \<and>
     distinct (map meta_key (db_meta d)) \<and> distinct (map health_key (db_health d)) \<and>
     ascending (map au_id (db_audit d))"

lemma fold_max_start: "(m :: int) \<le> fold max ids m"
  by (induction ids arbitrary: m) (auto intro: order_trans [OF max.cobounded2])

lemma fold_max_ge: "(i :: int) \<in> set ids \<Longrightarrow> i \<le> fold max ids m"
  by (induction ids arbitrary: m) (auto intro: order_trans [OF max.cobounded1 fold_max_start])

lemma next_id_greater: "i \<in> set ids \<Longrightarrow> i < next_id ids"
  using fold_max_ge [of i ids 0] by (auto simp: next_id_def)

lemma next_id_positive: "0 < next_id ids"
  using fold_max_start [of 0 ids] by (simp add: next_id_def)

lemma ascending_append: "ascending ids \<Longrightarrow> ascending (ids @ [next_id ids])"
  by (auto simp: ascending_def sorted_wrt_append next_id_greater next_id_positive)

lemma ascending_distinct: "ascending ids \<Longrightarrow> distinct ids"
  by (induction ids) (auto simp: ascending_def)

lemma distinct_map_filterI: "distinct (map f xs) \<Longrightarrow> distinct (map f (filter P xs))"
  by (induction xs) auto

lemma map_keep: "(\<And>r. f (g r) = f r) \<Longrightarrow> map (f \<circ> g) xs = map f xs"
  by simp

lemma upsert_distinct:
  "distinct (map key rows) \<Longrightarrow> (\<And>r. hit r \<longleftrightarrow> key r = key new) \<Longrightarrow> (\<And>r. key (upd r) = key r) \<Longrightarrow>
   distinct (map key (upsert hit upd new rows))"
  by (auto simp: upsert_def map_keep)

lemma upsert_find_same:
  assumes "hit new" and "\<And>r. hit r \<Longrightarrow> hit (upd r)"
  shows "find hit (upsert hit upd new rows) =
    Some (case find hit rows of None \<Rightarrow> new | Some r \<Rightarrow> upd r)"
proof -
  have upd: "find hit (map (\<lambda>r. if hit r then upd r else r) rows) = map_option upd (find hit rows)"
    using assms(2) by (induction rows) auto
  have new: "find hit rows = None \<Longrightarrow> find hit (rows @ [new]) = Some new"
    using assms(1) by (induction rows) (auto split: if_splits)
  show ?thesis
  proof (cases "find hit rows")
    case None
    then have "\<not> (\<exists>r\<in>set rows. hit r)" by (simp add: find_None_set)
    then show ?thesis using new None by (simp add: upsert_def)
  next
    case (Some r)
    then have "\<exists>r\<in>set rows. hit r" by (blast dest: find_SomeD)
    then show ?thesis using upd Some by (simp add: upsert_def)
  qed
qed

lemma upsert_find_other:
  assumes "\<And>r. Q r \<Longrightarrow> \<not> hit r" and "\<And>r. hit r \<Longrightarrow> \<not> Q (upd r)" and "\<not> Q new"
  shows "find Q (upsert hit upd new rows) = find Q rows"
proof -
  have "find Q (map (\<lambda>r. if hit r then upd r else r) rows) = find Q rows"
    using assms(1,2) by (induction rows) auto
  moreover have "find Q (rows @ [new]) = find Q rows"
    using assms(3) by (induction rows) auto
  ultimately show ?thesis by (simp add: upsert_def)
qed

lemma store_inv_empty: "store_inv empty_db"
  by (simp add: store_inv_def empty_db_def ascending_def)

text \<open>One preservation lemma per statement that writes.\<close>

lemma create_user_inv: "create_user now n h t d = Inr d' \<Longrightarrow> store_inv d \<Longrightarrow> store_inv d'"
  by (auto simp: create_user_def store_inv_def err_iff ascending_append)

lemma create_session_inv: "create_session now tok uid ip c ttl d = Inr d' \<Longrightarrow> store_inv d \<Longrightarrow> store_inv d'"
  by (auto simp: create_session_def store_inv_def err_iff)

lemma set_session_csrf_inv: "set_session_csrf tok c d = Inr d' \<Longrightarrow> store_inv d \<Longrightarrow> store_inv d'"
  by (auto simp: set_session_csrf_def store_inv_def err_iff map_keep)

lemma delete_session_inv: "delete_session tok d = Inr d' \<Longrightarrow> store_inv d \<Longrightarrow> store_inv d'"
  by (auto simp: delete_session_def store_inv_def err_iff distinct_map_filterI)

lemma purge_sessions_inv: "purge_expired_sessions now d = Inr d' \<Longrightarrow> store_inv d \<Longrightarrow> store_inv d'"
  by (auto simp: purge_expired_sessions_def store_inv_def err_iff distinct_map_filterI)

lemma record_check_inv: "record_check c d = Inr d' \<Longrightarrow> store_inv d \<Longrightarrow> store_inv d'"
  by (auto simp: record_check_def check_row_of_def store_inv_def err_iff ascending_append)

lemma audit_inv: "store_inv d \<Longrightarrow> store_inv (audit now a ip act t out d)"
  by (simp add: audit_def store_inv_def ascending_append)

lemma put_meta_inv: "put_meta now h k p d = Inr d' \<Longrightarrow> store_inv d \<Longrightarrow> store_inv d'"
  by (auto simp: put_meta_def store_inv_def err_iff meta_key_def intro!: upsert_distinct)

lemma delete_meta_inv: "delete_meta h k d = Inr d' \<Longrightarrow> store_inv d \<Longrightarrow> store_inv d'"
  by (auto simp: delete_meta_def store_inv_def err_iff distinct_map_filterI)

lemma record_health_inv: "record_health h t st c w sm d = Inr d' \<Longrightarrow> store_inv d \<Longrightarrow> store_inv d'"
  by (auto simp: record_health_def store_inv_def err_iff health_key_def intro!: upsert_distinct)

lemma purge_health_inv: "purge_health_history now keep d = Inr d' \<Longrightarrow> store_inv d \<Longrightarrow> store_inv d'"
  by (auto simp: purge_health_history_def store_inv_def err_iff distinct_map_filterI)

lemmas store_op_inv = create_user_inv create_session_inv set_session_csrf_inv delete_session_inv
  purge_sessions_inv record_check_inv put_meta_inv delete_meta_inv record_health_inv
  purge_health_inv

section \<open>Reachable databases\<close>

text \<open>
  Any sequence of statements, any of them refused at any time, each on whichever connection of
  the pool is free: the moods of the engine and the enforcement of foreign keys change freely
  between two statements.
\<close>

inductive store_step :: "db \<Rightarrow> db \<Rightarrow> bool" where
  st_user: "create_user now n h t d = Inr d' \<Longrightarrow> store_step d d'"
| st_session: "create_session now tok uid ip c ttl d = Inr d' \<Longrightarrow> store_step d d'"
| st_csrf: "set_session_csrf tok c d = Inr d' \<Longrightarrow> store_step d d'"
| st_logout: "delete_session tok d = Inr d' \<Longrightarrow> store_step d d'"
| st_purge: "purge_expired_sessions now d = Inr d' \<Longrightarrow> store_step d d'"
| st_check: "record_check c d = Inr d' \<Longrightarrow> store_step d d'"
| st_audit: "store_step d (audit now a ip act t out d)"
| st_put: "put_meta now h k p d = Inr d' \<Longrightarrow> store_step d d'"
| st_delete: "delete_meta h k d = Inr d' \<Longrightarrow> store_step d d'"
| st_health: "record_health h at st cr w sm d = Inr d' \<Longrightarrow> store_step d d'"
| st_purge_health: "purge_health_history now keep d = Inr d' \<Longrightarrow> store_step d d'"
| st_engine: "store_step d (d\<lparr>db_fails := f, db_fk := fk\<rparr>)"

inductive store_reachable :: "db \<Rightarrow> bool" where
  reach_empty: "store_reachable (empty_db\<lparr>db_fk := fk\<rparr>)"
| reach_step: "store_reachable d \<Longrightarrow> store_step d d' \<Longrightarrow> store_reachable d'"

lemma store_step_inv: "store_step d d' \<Longrightarrow> store_inv d \<Longrightarrow> store_inv d'"
proof (induction rule: store_step.induct)
  case (st_engine d f fk)
  then show ?case by (simp add: store_inv_def)
qed (blast intro: store_op_inv audit_inv)+

lemma reachable_inv: "store_reachable d \<Longrightarrow> store_inv d"
proof (induction rule: store_reachable.induct)
  case (reach_empty fk)
  then show ?case by (simp add: store_inv_def empty_db_def ascending_def)
qed (rule store_step_inv)

text \<open>
  The databases a run of statements goes through, the last one first.
\<close>

inductive store_run :: "db list \<Rightarrow> bool" where
  run_empty: "store_run [empty_db\<lparr>db_fk := fk\<rparr>]"
| run_step: "store_run (d # ds) \<Longrightarrow> store_step d d' \<Longrightarrow> store_run (d' # d # ds)"

lemma store_run_reachable: "store_run (d # ds) \<Longrightarrow> store_reachable d"
proof (induction "d # ds" arbitrary: d ds rule: store_run.induct)
  case (run_empty fk)
  then show ?case by (rule reach_empty)
next
  case (run_step d ds d')
  then show ?case by (blast intro: reach_step)
qed

definition account_ids :: "db \<Rightarrow> int set" where
  "account_ids d = us_id ` set (db_users d)"

lemma step_accounts: "store_step d d' \<Longrightarrow> account_ids d \<subseteq> account_ids d'"
  by (induction rule: store_step.induct)
    (auto simp: account_ids_def create_user_def create_session_def set_session_csrf_def delete_session_def
      purge_expired_sessions_def record_check_def audit_def put_meta_def delete_meta_def record_health_def
      purge_health_history_def err_iff)

text \<open>A session that was not there before names an account, or was inserted unchecked.\<close>

lemma step_sessions:
  "store_step d d' \<Longrightarrow> x \<in> se_user ` set (db_sessions d') \<Longrightarrow>
     x \<in> se_user ` set (db_sessions d) \<or> x \<in> account_ids d \<or> \<not> db_fk d"
  by (induction rule: store_step.induct)
    (auto simp: account_ids_def create_user_def create_session_def set_session_csrf_def delete_session_def
      purge_expired_sessions_def record_check_def audit_def put_meta_def delete_meta_def record_health_def
      purge_health_history_def err_iff image_iff split: if_splits)

lemma run_sessions:
  "store_run (d # ds) \<Longrightarrow> x \<in> se_user ` set (db_sessions d) \<Longrightarrow>
     x \<in> account_ids d \<or> (\<exists>e\<in>set ds. \<not> db_fk e \<and> x \<notin> account_ids e)"
proof (induction "d # ds" arbitrary: d ds rule: store_run.induct)
  case (run_empty fk)
  then show ?case by (simp add: empty_db_def)
next
  case (run_step d ds d')
  then show ?case
    using step_sessions [OF run_step(3,4)] step_accounts [OF run_step(3)] by fastforce
qed

section \<open>Metadata as a key-value store\<close>

locale kv_store =
  fixes put :: "time \<Rightarrow> string \<Rightarrow> string \<Rightarrow> string \<Rightarrow> 's \<Rightarrow> 'e + 's"
    and del :: "string \<Rightarrow> string \<Rightarrow> 's \<Rightarrow> 'e + 's"
    and get :: "string \<Rightarrow> string \<Rightarrow> 's \<Rightarrow> 'e + string \<times> time"
    and up :: "'s \<Rightarrow> bool" and missing :: 'e
  assumes get_put: "up s \<Longrightarrow> put t h k v s = Inr s' \<Longrightarrow>
      get h k s' = Inr (v, of_unix (unix_sec t))"
    and get_put_other: "put t h k v s = Inr s' \<Longrightarrow> (h', k') \<noteq> (h, k) \<Longrightarrow> get h' k' s' = get h' k' s"
    and get_del: "up s \<Longrightarrow> del h k s = Inr s' \<Longrightarrow> get h k s' = Inl missing"
    and get_del_other: "del h k s = Inr s' \<Longrightarrow> (h', k') \<noteq> (h, k) \<Longrightarrow> get h' k' s' = get h' k' s"
    and up_put: "put t h k v s = Inr s' \<Longrightarrow> up s' = up s"
    and up_del: "del h k s = Inr s' \<Longrightarrow> up s' = up s"
begin

lemmas kv_laws = get_put get_put_other get_del get_del_other up_put up_del

lemma put_put: "up s \<Longrightarrow> put t h k v s = Inr s1 \<Longrightarrow> put t' h k v' s1 = Inr s2 \<Longrightarrow>
    get h k s2 = Inr (v', of_unix (unix_sec t'))"
  using up_put get_put by blast

lemma put_del: "up s \<Longrightarrow> put t h k v s = Inr s1 \<Longrightarrow> del h k s1 = Inr s2 \<Longrightarrow>
    get h k s2 = Inl missing"
  using up_put get_del by blast

end

lemma find_filter_not: "find P (filter (\<lambda>x. \<not> P x) xs) = None"
  by (induction xs) auto

lemma find_filter: "(\<And>x. P x \<Longrightarrow> Q x) \<Longrightarrow> find P (filter Q xs) = find P xs"
  by (induction xs) auto

lemma get_put_meta_same:
  assumes "\<not> db_fails d SGetMeta" and "put_meta t h k v d = Inr d'"
  shows "get_meta h k d' = Inr (v, of_unix (unix_sec t))"
  using assms by (auto simp: put_meta_def get_meta_def err_iff upsert_find_same split: option.splits)

lemma get_put_meta_other:
  assumes "put_meta t h k v d = Inr d'" and "(h', k') \<noteq> (h, k)"
  shows "get_meta h' k' d' = get_meta h' k' d"
proof -
  have "find (\<lambda>r. me_host r = h' \<and> me_kind r = k') (db_meta d') =
      find (\<lambda>r. me_host r = h' \<and> me_kind r = k') (db_meta d)"
    using assms by (auto simp: put_meta_def err_iff intro!: upsert_find_other)
  with assms(1) show ?thesis by (auto simp: put_meta_def get_meta_def err_iff)
qed

interpretation meta: kv_store put_meta delete_meta get_meta "\<lambda>d. \<not> db_fails d SGetMeta" ErrNoMeta
proof
  fix h k h' k' v :: string and t :: time and d d' :: db
  show "\<not> db_fails d SGetMeta \<Longrightarrow> delete_meta h k d = Inr d' \<Longrightarrow> get_meta h k d' = Inl ErrNoMeta"
    by (auto simp: delete_meta_def get_meta_def err_iff simp del: de_Morgan_conj
        simp: find_filter_not)
  show "delete_meta h k d = Inr d' \<Longrightarrow> (h', k') \<noteq> (h, k) \<Longrightarrow> get_meta h' k' d' = get_meta h' k' d"
  proof -
    assume del: "delete_meta h k d = Inr d'" and "(h', k') \<noteq> (h, k)"
    then have "find (\<lambda>r. me_host r = h' \<and> me_kind r = k')
        (filter (\<lambda>r. \<not> (me_host r = h \<and> me_kind r = k)) (db_meta d)) =
        find (\<lambda>r. me_host r = h' \<and> me_kind r = k') (db_meta d)"
      by (intro find_filter) auto
    with del show "get_meta h' k' d' = get_meta h' k' d"
      by (auto simp: delete_meta_def get_meta_def err_iff simp del: de_Morgan_conj)
  qed
  show "put_meta t h k v d = Inr d' \<Longrightarrow> (\<not> db_fails d' SGetMeta) = (\<not> db_fails d SGetMeta)"
    by (auto simp: put_meta_def err_iff)
  show "delete_meta h k d = Inr d' \<Longrightarrow> (\<not> db_fails d' SGetMeta) = (\<not> db_fails d SGetMeta)"
    by (auto simp: delete_meta_def err_iff)
qed (fact get_put_meta_same get_put_meta_other)+

section \<open>The last check of each host\<close>

text \<open>The row a host was given last, in insertion order.\<close>

definition last_row :: "string \<Rightarrow> check_row list \<Rightarrow> check_row option" where
  "last_row h rows = find (\<lambda>r. cr_host r = h) (rev rows)"

lemma last_row_append [simp]:
  "last_row h (rows @ [r]) = (if cr_host r = h then Some r else last_row h rows)"
  by (simp add: last_row_def)

lemma last_row_host: "last_row h rows = Some r \<Longrightarrow> cr_host r = h \<and> r \<in> set rows"
  by (auto simp: last_row_def dest: find_SomeD)

lemma latest_iff_last:
  "sorted_wrt (<) (map cr_id rows) \<Longrightarrow> r \<in> set rows \<Longrightarrow>
   is_latest rows r \<longleftrightarrow> last_row (cr_host r) rows = Some r"
proof (induction rows rule: rev_induct)
  case (snoc x rows)
  from snoc.prems have sorted: "sorted_wrt (<) (map cr_id rows)"
    and above: "\<forall>r'\<in>set rows. cr_id r' < cr_id x"
    by (auto simp: sorted_wrt_append)
  show ?case
  proof (cases "r = x")
    case True
    with above show ?thesis by (auto simp: is_latest_def intro: less_imp_le)
  next
    case False
    with snoc.prems have r: "r \<in> set rows" by simp
    have "is_latest (rows @ [x]) r \<longleftrightarrow> is_latest rows r \<and> cr_host x \<noteq> cr_host r"
      using above r by (auto simp: is_latest_def)
    with snoc.IH [OF sorted r] False show ?thesis by auto
  qed
qed simp

interpretation by_host: comparison "\<lambda>a b. cr_host a < cr_host (b :: check_row)"
  by unfold_locales auto

lemma find_unique:
  assumes "x \<in> set xs" and "P x" and unique: "\<And>y. y \<in> set xs \<Longrightarrow> P y \<Longrightarrow> y = x"
  shows "find P xs = Some x"
proof (cases "find P xs")
  case None
  with assms(1,2) show ?thesis by (simp add: find_None_set)
next
  case (Some y)
  then have "y = x" using find_SomeD unique by metis
  with Some show ?thesis by simp
qed

lemma latest_checks_find:
  assumes "store_inv d" and "latest_checks d = Inr cs"
  shows "find (\<lambda>c. ck_host c = h) cs = map_option check_of (last_row h (db_checks d))"
proof -
  let ?rows = "db_checks d"
  let ?out = "slice_stable (\<lambda>a b. cr_host a < cr_host b) (filter (is_latest ?rows) ?rows)"
  have sorted: "sorted_wrt (<) (map cr_id ?rows)"
    using assms(1) by (simp add: store_inv_def ascending_def)
  have set: "set ?out = {r \<in> set ?rows. last_row (cr_host r) ?rows = Some r}"
    by (simp only: set_slice_stable set_filter latest_iff_last [OF sorted] cong: conj_cong)
  have "find (\<lambda>r. cr_host r = h) ?out = last_row h ?rows"
  proof (cases "last_row h ?rows")
    case None
    then have "\<forall>r\<in>set ?out. cr_host r \<noteq> h"
      unfolding set by (auto simp: last_row_def find_None_set)
    with None show ?thesis by (simp add: find_None_set)
  next
    case (Some r)
    then have r: "r \<in> set ?out" "cr_host r = h"
      unfolding set using last_row_host [OF Some] by auto
    have "y = r" if "y \<in> set ?out" "cr_host y = h" for y
      using that Some unfolding set by auto
    with r have "find (\<lambda>r. cr_host r = h) ?out = Some r" by (rule find_unique)
    with Some show ?thesis by simp
  qed
  moreover have "find (\<lambda>c. ck_host c = h) (map check_of xs) =
      map_option check_of (find (\<lambda>r. cr_host r = h) xs)" for xs
    by (induction xs) (auto simp: check_of_def)
  ultimately show ?thesis
    using assms(2) by (auto simp: latest_checks_def err_iff)
qed

lemma latest_checks_hosts:
  assumes "store_inv d" and "latest_checks d = Inr cs"
  shows "ck_host ` set cs = cr_host ` set (db_checks d)"
proof -
  have *: "h \<in> ck_host ` set cs \<longleftrightarrow> last_row h (db_checks d) \<noteq> None" for h
    using latest_checks_find [OF assms, of h] find_None_set [of "\<lambda>c. ck_host c = h" cs]
    by (cases "last_row h (db_checks d)") auto
  have "h \<in> cr_host ` set (db_checks d) \<longleftrightarrow> last_row h (db_checks d) \<noteq> None" for h
    by (auto simp: last_row_def find_None_set)
  with * show ?thesis by blast
qed

text \<open>What a check looks like once it has been through the database: times in whole seconds.\<close>

definition stored_check :: "check \<Rightarrow> check" where
  "stored_check c =
     c\<lparr>ck_collected := of_unix (unix_sec (ck_collected c)),
       ck_snap_at := (if unix_sec (ck_snap_at c) > 0 then of_unix (unix_sec (ck_snap_at c)) else zero_time)\<rparr>"

lemma zero_time_unix: "unix_sec zero_time < 0"
  by (simp add: go_time)

lemma check_of_row: "check_of (check_row_of i c) = stored_check c"
  using zero_time_unix
  by (cases c) (simp add: check_row_of_def check_of_def stored_check_def str_of_def int_of_def is_zero_def)

lemma record_check_rows:
  "record_check c d = Inr d' \<Longrightarrow>
   \<exists>r. db_checks d' = db_checks d @ [r] \<and> cr_host r = ck_host c \<and> check_of r = stored_check c"
  by (intro exI [of _ "check_row_of (next_id (map cr_id (db_checks d))) c"])
    (auto simp: record_check_def err_iff check_of_row, simp add: check_row_of_def)

lemma record_check_last:
  assumes "record_check c d = Inr d'"
  shows "map_option check_of (last_row h (db_checks d')) =
    (if h = ck_host c then Some (stored_check c) else map_option check_of (last_row h (db_checks d)))"
  using record_check_rows [OF assms] by auto

section \<open>Sessions\<close>

text \<open>The user a token stands for, as a relation on the tables.\<close>

definition session_grants :: "time \<Rightarrow> string \<Rightarrow> string \<Rightarrow> db \<Rightarrow> user_row \<Rightarrow> bool" where
  "session_grants now token ip d u \<longleftrightarrow>
     u \<in> set (db_users d) \<and>
     (\<exists>s\<in>set (db_sessions d). se_token s = token \<and> se_user s = us_id u \<and>
        unix_sec now < se_expires s \<and> se_ip s = ip)"

lemma set_session_rows: "set (session_rows now token ip d) = {u. session_grants now token ip d u}"
  by (auto simp: session_rows_def session_grants_def session_matches_def)

lemma session_user_Inr:
  assumes "session_user now token ip d = Inr u"
  shows "\<exists>r. session_grants now token ip d r \<and> u = user_of r"
proof -
  from assms obtain r rs where "session_rows now token ip d = r # rs" and "u = user_of r"
    by (auto simp: session_user_def split: if_splits list.splits)
  then have "r \<in> set (session_rows now token ip d)" by simp
  with \<open>u = user_of r\<close> show ?thesis by (auto simp: set_session_rows)
qed

lemma session_grants_unique:
  assumes "store_inv d" and "session_grants now token ip d r" and "session_grants now token ip d r'"
  shows "r' = r"
proof -
  obtain s s' where "s \<in> set (db_sessions d)" "s' \<in> set (db_sessions d)" "se_token s = se_token s'"
    and ids: "se_user s = us_id r" "se_user s' = us_id r'"
    using assms(2,3) by (auto simp: session_grants_def)
  moreover have tokens: "distinct (map se_token (db_sessions d))"
    and users: "distinct (map us_id (db_users d))"
    using assms(1) by (auto simp: store_inv_def ascending_distinct)
  ultimately have "s = s'" by (auto simp: distinct_map dest: inj_onD)
  with ids have "us_id r = us_id r'" by simp
  with users assms(2,3) show ?thesis
    by (auto simp: session_grants_def distinct_map dest: inj_onD)
qed

lemma session_user_complete:
  assumes "store_inv d" and "\<not> db_fails d SSelectSession" and "session_grants now token ip d r"
  shows "session_user now token ip d = Inr (user_of r)"
proof -
  have "r \<in> set (session_rows now token ip d)"
    using assms(3) by (simp add: set_session_rows)
  then obtain x xs where xs: "session_rows now token ip d = x # xs"
    by (cases "session_rows now token ip d") auto
  then have "x \<in> set (session_rows now token ip d)" by simp
  then have "x = r"
    using session_grants_unique [OF assms(1,3)] by (auto simp: set_session_rows)
  with xs assms(2) show ?thesis by (simp add: session_user_def)
qed

lemma session_user_None:
  "\<not> db_fails d SSelectSession \<Longrightarrow> (\<And>r. \<not> session_grants now token ip d r) \<Longrightarrow>
   session_user now token ip d = Inl ErrNoUser"
  using set_session_rows [of now token ip d] by (simp add: session_user_def)

section \<open>Properties\<close>

text \<open>
  C26. The tables stay well formed. Whatever statements ran, in whatever order, with whatever
  refusals and on whatever connections: row identifiers are positive and ascend, and account
  names, session tokens, metadata keys and history keys are unique. A session belongs to an
  account, unless a statement before it ran on a connection that does not enforce foreign keys
  (the pragma of the schema reaches one connection of the pool only) while its account did not
  exist.
\<close>

theorem tables_well_formed:
  assumes "store_run (d # ds)"
  shows "store_inv d \<and>
    (\<forall>s\<in>set (db_sessions d). se_user s \<in> us_id ` set (db_users d) \<or>
       (\<exists>e\<in>set ds. \<not> db_fk e \<and> se_user s \<notin> us_id ` set (db_users e)))"
  using reachable_inv [OF store_run_reachable [OF assms]] run_sessions [OF assms]
  by (auto simp: account_ids_def)

lemma empty_reachable: "store_reachable empty_db"
proof -
  have "empty_db\<lparr>db_fk := True\<rparr> = empty_db" by (simp add: empty_db_def)
  with reach_empty [of True] show ?thesis by simp
qed

text \<open>Two accounts and a session, every statement under enforcement.\<close>

theorem tables_well_formed_witness:
  "\<exists>d ds. store_run (d # ds) \<and> map us_id (db_users d) = [1, 2] \<and> map se_user (db_sessions d) = [2] \<and>
     (\<forall>e\<in>set (d # ds). db_fk e) \<and> store_inv d"
proof -
  have run0: "store_run [empty_db]" using run_empty [of True] by (simp add: empty_db_def)
  obtain d1 where d1: "create_user 0 ''root'' ''h'' '''' empty_db = Inr d1" "map us_id (db_users d1) = [1]"
      "map us_name (db_users d1) = [''root'']" "db_fails d1 = (\<lambda>_. False)" "db_fk d1" "db_sessions d1 = []"
    by (simp add: create_user_def empty_db_def next_id_def)
  obtain d2 where d2: "create_user 0 ''ops'' ''h'' '''' d1 = Inr d2" "map us_id (db_users d2) = [1, 2]"
      "db_fails d2 = (\<lambda>_. False)" "db_fk d2" "db_sessions d2 = []"
    using d1(2-) by (simp add: create_user_def next_id_def)
  obtain d3 where d3: "create_session 0 ''t'' 2 ''ip'' ''c'' 0 d2 = Inr d3" "map us_id (db_users d3) = [1, 2]"
      "map se_user (db_sessions d3) = [2]" "db_fk d3"
    using d2(2-) by (simp add: create_session_def)
  have "store_run [d1, empty_db]" by (rule run_step [OF run0 st_user [OF d1(1)]])
  then have "store_run [d2, d1, empty_db]" by (rule run_step [OF _ st_user [OF d2(1)]])
  then have run: "store_run [d3, d2, d1, empty_db]" by (rule run_step [OF _ st_session [OF d3(1)]])
  moreover have "db_fk empty_db" by (simp add: empty_db_def)
  ultimately show ?thesis
    using tables_well_formed [OF run] d1(5) d2(4) d3 by (intro exI [of _ d3] exI [of _ "[d2, d1, empty_db]"]) simp
qed

text \<open>
  Metadata round trip. What is put under a host and a kind is what is read back, dated to
  the second, whatever was there before; every other host and kind reads as before.
\<close>

lemma metadata_roundtrip:
  assumes "\<not> db_fails d SGetMeta" and "put_meta t h k v d = Inr d'"
  shows "get_meta h k d' = Inr (v, of_unix (unix_sec t)) \<and>
    (\<forall>h' k'. (h', k') \<noteq> (h, k) \<longrightarrow> get_meta h' k' d' = get_meta h' k' d)"
  using meta.get_put [OF assms] meta.get_put_other [OF assms(2)] by blast

lemma metadata_roundtrip_demo:
  "\<exists>d'. put_meta 0 ''web'' ''policy'' ''[]'' empty_db = Inr d' \<and>
     get_meta ''web'' ''policy'' d' = Inr (''[]'', 0)"
proof -
  have "\<not> db_fails empty_db SGetMeta" by (simp add: empty_db_def)
  moreover obtain d' where "put_meta 0 ''web'' ''policy'' ''[]'' empty_db = Inr d'"
    by (simp add: put_meta_def empty_db_def)
  ultimately show ?thesis
    using metadata_roundtrip [of empty_db 0 "''web''" "''policy''" "''[]''" d']
    by (simp add: go_time)
qed

end
