(* ===== verification/Amarre_Paths.thy ===== *)
theory Amarre_Paths
  imports Amarre_Strings
begin

text \<open>
  The lexical path functions of Go's package \<open>path\<close> used to index a snapshot's tree:
  \<open>path.Clean\<close> and \<open>path.Dir\<close>. Cleaning is idempotent, and every directory \<open>path.Dir\<close>
  returns is clean, so that an index keyed by one is found by the other.
\<close>

definition path_parts :: "string \<Rightarrow> string list" where
  "path_parts p = filter (\<lambda>s. s \<noteq> '''' \<and> s \<noteq> ''.'') (split_on (CHR ''/'') p)"

text \<open>One path element, on the stack of the elements kept so far.\<close>

definition clean_step :: "bool \<Rightarrow> string list \<Rightarrow> string \<Rightarrow> string list" where
  "clean_step rooted st seg =
     (if seg = ''..''
      then (case st of
              [] \<Rightarrow> if rooted then [] else [''..'']
            | t # ts \<Rightarrow> if t = ''..'' then ''..'' # st else ts)
      else seg # st)"

definition is_rooted :: "string \<Rightarrow> bool" where
  "is_rooted p \<longleftrightarrow> (case p of [] \<Rightarrow> False | c # _ \<Rightarrow> c = CHR ''/'')"

definition unsplit_path :: "bool \<Rightarrow> string list \<Rightarrow> string" where
  "unsplit_path rooted segs =
     (if rooted then CHR ''/'' # join_with ''/'' segs
      else if segs = [] then ''.'' else join_with ''/'' segs)"

definition path_clean :: "string \<Rightarrow> string" where
  "path_clean p =
     (if p = '''' then ''.''
      else unsplit_path (is_rooted p) (rev (foldl (clean_step (is_rooted p)) [] (path_parts p))))"

text \<open>Everything up to and including the last slash.\<close>

definition dir_part :: "string \<Rightarrow> string" where
  "dir_part p = rev (dropWhile (\<lambda>c. c \<noteq> CHR ''/'') (rev p))"

definition path_dir :: "string \<Rightarrow> string" where
  "path_dir p = path_clean (dir_part p)"

section \<open>Clean element lists\<close>

definition seg_ok :: "string \<Rightarrow> bool" where
  "seg_ok s \<longleftrightarrow> s \<noteq> '''' \<and> s \<noteq> ''.'' \<and> CHR ''/'' \<notin> set s"

text \<open>
  Elements in path order: none \<open>..\<close> when rooted, and otherwise \<open>..\<close> only as leading elements.
\<close>

definition segs_clean :: "bool \<Rightarrow> string list \<Rightarrow> bool" where
  "segs_clean rooted segs \<longleftrightarrow>
     (\<forall>s\<in>set segs. seg_ok s) \<and>
     (\<forall>xs x ys. segs = xs @ x # ys \<longrightarrow> x = ''..'' \<longrightarrow> \<not> rooted \<and> set xs \<subseteq> {''..''})"

lemma segs_clean_Nil [simp]: "segs_clean r []"
  by (simp add: segs_clean_def)

lemma segs_clean_snoc:
  "segs_clean r (segs @ [s]) \<longleftrightarrow>
   segs_clean r segs \<and> seg_ok s \<and> (s = ''..'' \<longrightarrow> \<not> r \<and> set segs \<subseteq> {''..''})"
proof
  assume c: "segs_clean r (segs @ [s])"
  have "\<not> r \<and> set xs \<subseteq> {''..''}" if "segs = xs @ x # ys" "x = ''..''" for xs x ys
    using c that unfolding segs_clean_def by (metis append_Cons append_assoc)
  with c show "segs_clean r segs \<and> seg_ok s \<and> (s = ''..'' \<longrightarrow> \<not> r \<and> set segs \<subseteq> {''..''})"
    unfolding segs_clean_def by auto
next
  assume c: "segs_clean r segs \<and> seg_ok s \<and> (s = ''..'' \<longrightarrow> \<not> r \<and> set segs \<subseteq> {''..''})"
  have "\<not> r \<and> set xs \<subseteq> {''..''}" if "segs @ [s] = xs @ x # ys" "x = ''..''" for xs x ys
  proof (cases ys rule: rev_cases)
    case Nil
    with that c show ?thesis by auto
  next
    case (snoc zs z)
    with that have "segs = xs @ x # zs" by simp
    with c that show ?thesis unfolding segs_clean_def by blast
  qed
  with c show "segs_clean r (segs @ [s])"
    unfolding segs_clean_def by auto
qed

lemma segs_clean_single: "segs_clean r [s] \<longleftrightarrow> seg_ok s \<and> (s = ''..'' \<longrightarrow> \<not> r)"
  using segs_clean_snoc [of r "[]" s] by simp

lemma dotdot_ok: "seg_ok ''..''"
  by (simp add: seg_ok_def)

lemma clean_step_clean:
  assumes "segs_clean r (rev st)" and "seg_ok s"
  shows "segs_clean r (rev (clean_step r st s))"
proof (cases "s = ''..''")
  case True
  show ?thesis
  proof (cases st)
    case Nil
    then show ?thesis using True
      by (simp add: clean_step_def dotdot_ok segs_clean_single)
  next
    case (Cons t ts)
    then have t: "segs_clean r (rev ts)" "t = ''..'' \<longrightarrow> \<not> r \<and> set ts \<subseteq> {''..''}"
      using assms(1) by (simp_all add: segs_clean_snoc)
    then show ?thesis
      using assms True Cons segs_clean_snoc [of r "rev ts @ [t]" "''..''"]
      by (auto simp: clean_step_def segs_clean_snoc dotdot_ok)
  qed
next
  case False
  with assms show ?thesis by (simp add: clean_step_def segs_clean_snoc)
qed

lemma foldl_clean:
  "segs_clean r (rev st) \<Longrightarrow> (\<And>s. s \<in> set segs \<Longrightarrow> seg_ok s) \<Longrightarrow>
   segs_clean r (rev (foldl (clean_step r) st segs))"
  by (induction segs arbitrary: st) (simp_all add: clean_step_clean)

lemma clean_step_push: "segs_clean r (segs @ [s]) \<Longrightarrow> clean_step r (rev segs) s = s # rev segs"
proof -
  assume "segs_clean r (segs @ [s])"
  then have "s = ''..'' \<longrightarrow> \<not> r \<and> (\<forall>t\<in>set (rev segs). t = ''..'')"
    by (auto simp: segs_clean_snoc)
  then show ?thesis by (cases "rev segs") (auto simp: clean_step_def)
qed

lemma foldl_clean_id: "segs_clean r segs \<Longrightarrow> foldl (clean_step r) [] segs = rev segs"
proof (induction segs rule: rev_induct)
  case (snoc s segs)
  then have "foldl (clean_step r) [] segs = rev segs" by (simp add: segs_clean_snoc)
  with snoc.prems show ?case by (simp add: clean_step_push)
qed simp

lemma path_parts_ok: "s \<in> set (path_parts p) \<Longrightarrow> seg_ok s"
  by (auto simp: path_parts_def seg_ok_def split_on_parts)

text \<open>Clean elements, joined and split again, are themselves.\<close>

lemma filter_seg_ok: "(\<And>s. s \<in> set segs \<Longrightarrow> seg_ok s) \<Longrightarrow>
    filter (\<lambda>s. s \<noteq> '''' \<and> s \<noteq> ''.'') segs = segs"
  by (auto simp: filter_id_conv seg_ok_def)

lemma split_segs: "segs \<noteq> [] \<Longrightarrow> (\<And>s. s \<in> set segs \<Longrightarrow> seg_ok s) \<Longrightarrow>
    split_on (CHR ''/'') (join_with ''/'' segs) = segs"
  by (rule split_join) (auto simp: seg_ok_def)

lemma path_parts_unsplit: "(\<And>s. s \<in> set segs \<Longrightarrow> seg_ok s) \<Longrightarrow> path_parts (unsplit_path r segs) = segs"
  by (cases "segs = []"; cases r)
    (simp_all add: path_parts_def unsplit_path_def split_segs filter_seg_ok)

lemma rooted_unsplit: "(\<And>s. s \<in> set segs \<Longrightarrow> seg_ok s) \<Longrightarrow> is_rooted (unsplit_path r segs) = r"
proof (cases segs)
  case (Cons s ss)
  assume "\<And>s. s \<in> set segs \<Longrightarrow> seg_ok s"
  with Cons have "seg_ok s" by simp
  then obtain c cs where "s = c # cs" "c \<noteq> CHR ''/''" by (cases s) (auto simp: seg_ok_def)
  with Cons show ?thesis by (cases ss) (auto simp: unsplit_path_def is_rooted_def)
qed (simp add: unsplit_path_def is_rooted_def)

lemma unsplit_nonempty [simp]: "(\<And>s. s \<in> set segs \<Longrightarrow> seg_ok s) \<Longrightarrow> unsplit_path r segs \<noteq> ''''"
proof (cases segs)
  case (Cons s ss)
  assume "\<And>s. s \<in> set segs \<Longrightarrow> seg_ok s"
  with Cons have "s \<noteq> ''''" by (simp add: seg_ok_def)
  with Cons show ?thesis by (cases ss) (auto simp: unsplit_path_def)
qed (simp add: unsplit_path_def)

lemma path_clean_unsplit: "segs_clean r segs \<Longrightarrow> path_clean (unsplit_path r segs) = unsplit_path r segs"
proof -
  assume c: "segs_clean r segs"
  then have ok: "\<And>s. s \<in> set segs \<Longrightarrow> seg_ok s" by (simp add: segs_clean_def)
  show ?thesis
    using c by (simp add: path_clean_def path_parts_unsplit rooted_unsplit ok foldl_clean_id)
qed

theorem path_clean_idem: "path_clean (path_clean p) = path_clean p"
proof (cases "p = ''''")
  case True
  have "path_clean ''.'' = ''.''"
    using path_clean_unsplit [of False "[]"] by (simp add: unsplit_path_def)
  with True show ?thesis by (simp add: path_clean_def [of "''''"])
next
  case False
  have "segs_clean (is_rooted p) (rev (foldl (clean_step (is_rooted p)) [] (path_parts p)))"
    by (rule foldl_clean) (simp_all add: path_parts_ok)
  with False show ?thesis by (simp add: path_clean_def [of p] path_clean_unsplit)
qed

lemma path_clean_dir [simp]: "path_clean (path_dir p) = path_dir p"
  by (simp add: path_dir_def path_clean_idem)

lemma path_clean_root [simp]: "path_clean ''/'' = ''/''"
  using path_clean_unsplit [of True "[]"] by (simp add: unsplit_path_def)

end
