(* ===== verification/Amarre_Fleet.thy ===== *)
theory Amarre_Fleet
  imports Amarre_Paths
begin

text \<open>
  Package \<open>fleet\<close>, the protocol with a host's shim: how the outcome of a remote command becomes
  a result or an error (the second half of \<open>run\<close>), and the reading of each command's output:
  \<open>Status\<close>, \<open>Snapshots\<close>, \<open>Stats\<close>, \<open>Policy\<close>, \<open>Excludes\<close>, \<open>List\<close>, \<open>FetchTree\<close> and
  \<open>Children\<close>.

  An operation takes \<open>run\<close>, the outcome of a command (the SSH session is a third-party
  package), and the JSON decoder of its type, which gives the decoded value or the decoder's
  message. For \<open>Stats\<close>, whose fallback depends on what Go's decoder accepts, JSON values are a
  datatype, the text parser a parameter, and the decoding into the two structs is modelled.
\<close>

section \<open>Errors\<close>

datatype fleet_error =
    Refused
  | PolicyMissing
  | RepoMissing string
  | LockFailed string
  | WrongPassword
  | ExitCode int string
  | RunFailed string string
  | RemoteFailed string
  | Unreachable string
  | BadStatus string
  | NoSnapshot
  | BadSnapshots string
  | BadStats string
  | NoStats
  | BadHealth string
  | BadTree string

definition error_text :: "fleet_error \<Rightarrow> string" where
  "error_text e = (case e of
      Refused \<Rightarrow> ''refus'' @ u_eacute @ '' par la policy locale de l'' @ [CHR 0x27] @ ''h'' @ u_ocirc @ ''te''
    | PolicyMissing \<Rightarrow> ''policy absente sur l'' @ [CHR 0x27] @ ''h'' @ u_ocirc @ ''te''
    | RepoMissing d \<Rightarrow> ''d'' @ u_eacute @ ''p'' @ u_ocirc @ ''t introuvable '' @ u_emdash @
        '' ne pas r'' @ u_eacute @ ''initialiser sans v'' @ u_eacute @ ''rifier. '' @ d
    | LockFailed d \<Rightarrow> ''verrouillage impossible. '' @ d
    | WrongPassword \<Rightarrow> ''mot de passe de d'' @ u_eacute @ ''p'' @ u_ocirc @ ''t incorrect sur l'' @
        [CHR 0x27] @ ''h'' @ u_ocirc @ ''te''
    | ExitCode n d \<Rightarrow> ''code '' @ show_int n @ '' : '' @ d
    | RunFailed e d \<Rightarrow> e @ '' '' @ u_emdash @ '' '' @ d
    | RemoteFailed e \<Rightarrow> ''ex'' @ u_eacute @ ''cution distante : '' @ e
    | Unreachable e \<Rightarrow> e
    | BadStatus e \<Rightarrow> ''r'' @ u_eacute @ ''ponse illisible de l'' @ [CHR 0x27] @ ''h'' @ u_ocirc @ ''te : '' @ e
    | NoSnapshot \<Rightarrow> ''aucun snapshot dans le d'' @ u_eacute @ ''p'' @ u_ocirc @ ''t''
    | BadSnapshots e \<Rightarrow> ''liste de snapshots illisible : '' @ e
    | BadStats e \<Rightarrow> ''statistiques illisibles : '' @ e
    | NoStats \<Rightarrow> ''statistiques du d'' @ u_eacute @ ''p'' @ u_ocirc @ ''t absentes''
    | BadHealth e \<Rightarrow> ''relev'' @ u_eacute @ '' de sant'' @ u_eacute @ '' illisible : '' @ e
    | BadTree e \<Rightarrow> ''arborescence illisible : '' @ e)"

section \<open>The outcome of a remote command\<close>

text \<open>
  What \<open>sess.Output\<close> returned: success, a remote exit status, or another failure, with the
  text of the error.
\<close>

datatype run_status = RunOK | RunExit int string | RunOther string

definition last_line :: "string \<Rightarrow> string" where
  "last_line b =
     (case find (\<lambda>l. l \<noteq> '''') (map trim_space (rev (split_on newline b))) of
        None \<Rightarrow> '''' | Some l \<Rightarrow> l)"

definition run_detail :: "string \<Rightarrow> string \<Rightarrow> string" where
  "run_detail stdout stderr =
     (let d = trim_space stderr in if d = '''' then trim_space (last_line stdout) else d)"

definition run_generic :: "string \<Rightarrow> string \<Rightarrow> fleet_error" where
  "run_generic text d = (if d \<noteq> '''' then RunFailed text d else RemoteFailed text)"

definition run_result :: "run_status \<Rightarrow> string \<Rightarrow> string \<Rightarrow> fleet_error + string" where
  "run_result st stdout stderr =
     (case st of
        RunOK \<Rightarrow> Inr stdout
      | RunOther text \<Rightarrow> Inl (run_generic text (run_detail stdout stderr))
      | RunExit code text \<Rightarrow>
          let d = run_detail stdout stderr in
          Inl (if code = 77 then Refused
               else if code = 78 then PolicyMissing
               else if code = 10 then RepoMissing d
               else if code = 11 then LockFailed d
               else if code = 12 then WrongPassword
               else if d \<noteq> '''' then ExitCode code d
               else run_generic text d))"

section \<open>Snapshots and status\<close>

record restic_snapshot =
  rs_id :: string
  rs_short_id :: string
  rs_time :: time
  rs_hostname :: string
  rs_paths :: "string list"
  rs_total_bytes :: int
  rs_total_files :: int
  rs_data_added :: int
  rs_data_packed :: int
  rs_files_new :: int
  rs_files_changed :: int
  rs_backup_start :: time
  rs_backup_end :: time

record status =
  st_snapshot_id :: string
  st_time :: time
  st_size_bytes :: int
  st_hostname :: string
  st_paths :: "string list"

definition short_id :: "restic_snapshot \<Rightarrow> string" where
  "short_id s = (if rs_short_id s = '''' \<and> length (rs_id s) \<ge> 8 then take 8 (rs_id s) else rs_short_id s)"

definition fleet_status ::
  "(string \<Rightarrow> fleet_error + string) \<Rightarrow> (string \<Rightarrow> string + restic_snapshot list)
     \<Rightarrow> fleet_error + status" where
  "fleet_status run unjson =
     (case run ''status'' of
        Inl e \<Rightarrow> Inl e
      | Inr out \<Rightarrow>
          (case unjson out of
             Inl m \<Rightarrow> Inl (BadStatus m)
           | Inr snaps \<Rightarrow>
               if snaps = [] then Inl NoSnapshot
               else (let s = last snaps in
                 Inr \<lparr>st_snapshot_id = short_id s, st_time = rs_time s,
                      st_size_bytes = rs_total_bytes s, st_hostname = rs_hostname s,
                      st_paths = rs_paths s\<rparr>)))"

record snapshot =
  sn_id :: string
  sn_time :: time
  sn_paths :: "string list"
  sn_size :: int
  sn_added :: int
  sn_packed :: int
  sn_files :: int
  sn_duration :: duration

definition snapshot_of :: "restic_snapshot \<Rightarrow> snapshot" where
  "snapshot_of s =
     \<lparr>sn_id = short_id s, sn_time = rs_time s, sn_paths = rs_paths s,
      sn_size = rs_total_bytes s, sn_added = rs_data_added s, sn_packed = rs_data_packed s,
      sn_files = rs_total_files s,
      sn_duration = (if \<not> is_zero (rs_backup_end s) \<and> \<not> is_zero (rs_backup_start s)
                     then time_sub (rs_backup_end s) (rs_backup_start s) else 0)\<rparr>"

definition fleet_snapshots ::
  "(string \<Rightarrow> fleet_error + string) \<Rightarrow> (string \<Rightarrow> string + restic_snapshot list)
     \<Rightarrow> fleet_error + snapshot list" where
  "fleet_snapshots run unjson =
     (case run ''snapshots'' of
        Inl e \<Rightarrow> Inl e
      | Inr out \<Rightarrow>
          (case unjson out of
             Inl m \<Rightarrow> Inl (BadSnapshots m)
           | Inr raw \<Rightarrow> Inr (map snapshot_of (rev raw))))"

text \<open>\<open>Check\<close>, \<open>Backup\<close> and \<open>Unlock\<close> only keep whether the command succeeded.\<close>

definition fleet_command :: "(string \<Rightarrow> fleet_error + string) \<Rightarrow> string \<Rightarrow> fleet_error option" where
  "fleet_command run verb = (case run verb of Inl e \<Rightarrow> Some e | Inr _ \<Rightarrow> None)"

section \<open>Policy and exclusions\<close>

record policy_entry =
  pe_key :: string
  pe_value :: string
  pe_allowed :: bool

definition policy_line :: "string \<Rightarrow> policy_entry option" where
  "policy_line raw =
     (let line = trim_space raw in
      if line = '''' \<or> has_prefix line ''#'' then None
      else (case cut_at (CHR ''='') line of
              None \<Rightarrow> None
            | Some (k, v0) \<Rightarrow>
                let v = trim_char (CHR 0x22) (trim_space v0) in
                Some \<lparr>pe_key = trim_space k, pe_value = v, pe_allowed = (v = ''yes'')\<rparr>))"

definition parse_policy :: "string \<Rightarrow> policy_entry list" where
  "parse_policy out = List.map_filter policy_line (split_on newline out)"

definition fleet_policy :: "(string \<Rightarrow> fleet_error + string) \<Rightarrow> fleet_error + policy_entry list" where
  "fleet_policy run = (case run ''policy'' of Inl e \<Rightarrow> Inl e | Inr out \<Rightarrow> Inr (parse_policy out))"

definition parse_excludes :: "string \<Rightarrow> string list" where
  "parse_excludes out =
     filter (\<lambda>l. \<not> (l = '''' \<or> has_prefix l ''#'')) (map trim_space (split_on newline out))"

definition fleet_excludes :: "(string \<Rightarrow> fleet_error + string) \<Rightarrow> fleet_error + string list" where
  "fleet_excludes run = (case run ''excludes'' of Inl e \<Rightarrow> Inl e | Inr out \<Rightarrow> Inr (parse_excludes out))"

section \<open>Statistics\<close>

text \<open>
  JSON values. A number is an integer literal or another literal; Go's decoder puts only the
  former into an integer field and either into a float field, whose value the program only
  carries and is not modelled.
\<close>

datatype json =
    JNull | JBool bool | JInt int | JReal string | JStr string
  | JArr "json list" | JObj "(string \<times> json) list"

record repo_stats =
  rp_total_size :: int
  rp_uncompressed_size :: int
  rp_snapshots_count :: int
  rp_blob_count :: int
  rp_source_size :: int

definition zero_stats :: repo_stats where
  "zero_stats = \<lparr>rp_total_size = 0, rp_uncompressed_size = 0, rp_snapshots_count = 0,
     rp_blob_count = 0, rp_source_size = 0\<rparr>"

text \<open>
  \<open>json.Unmarshal\<close> into a struct: \<open>null\<close> changes nothing, an object sets the fields whose names
  its keys match (letter case aside), later keys over earlier ones, unknown keys ignored; a
  value of the wrong type makes the whole call return an error. A decoder returns the new
  value and whether all went well.
\<close>

definition key_is :: "string \<Rightarrow> string \<Rightarrow> bool" where
  "key_is field k \<longleftrightarrow> to_lower k = field"

definition decode_int :: "json \<Rightarrow> int \<Rightarrow> int \<times> bool" where
  "decode_int j old =
     (case j of JNull \<Rightarrow> (old, True) | JInt n \<Rightarrow> if in_int64 n then (n, True) else (old, False)
      | _ \<Rightarrow> (old, False))"

definition float_ok :: "json \<Rightarrow> bool" where
  "float_ok j \<longleftrightarrow> (case j of JNull \<Rightarrow> True | JInt _ \<Rightarrow> True | JReal _ \<Rightarrow> True | _ \<Rightarrow> False)"

definition stats_field :: "string \<times> json \<Rightarrow> repo_stats \<times> bool \<Rightarrow> repo_stats \<times> bool" where
  "stats_field kv sb =
     (case (kv, sb) of ((k, j), (s, ok)) \<Rightarrow>
        if key_is ''total_size'' k
        then (let r = decode_int j (rp_total_size s) in (s\<lparr>rp_total_size := fst r\<rparr>, ok \<and> snd r))
        else if key_is ''total_uncompressed_size'' k
        then (let r = decode_int j (rp_uncompressed_size s)
              in (s\<lparr>rp_uncompressed_size := fst r\<rparr>, ok \<and> snd r))
        else if key_is ''compression_ratio'' k then (s, ok \<and> float_ok j)
        else if key_is ''snapshots_count'' k
        then (let r = decode_int j (rp_snapshots_count s)
              in (s\<lparr>rp_snapshots_count := fst r\<rparr>, ok \<and> snd r))
        else if key_is ''total_blob_count'' k
        then (let r = decode_int j (rp_blob_count s) in (s\<lparr>rp_blob_count := fst r\<rparr>, ok \<and> snd r))
        else (s, ok))"

definition decode_stats :: "json \<Rightarrow> repo_stats \<Rightarrow> repo_stats \<times> bool" where
  "decode_stats j s =
     (case j of
        JNull \<Rightarrow> (s, True)
      | JObj kvs \<Rightarrow> fold stats_field kvs (s, True)
      | _ \<Rightarrow> (s, False))"

text \<open>\<open>Restore\<close>, of which only the total size is used; a pointer field is \<open>nil\<close> on \<open>null\<close>.\<close>

record stats_envelope =
  en_raw :: "repo_stats option"
  en_restore :: "int option"

definition restore_field :: "string \<times> json \<Rightarrow> int \<times> bool \<Rightarrow> int \<times> bool" where
  "restore_field kv nb =
     (case (kv, nb) of ((k, j), (n, ok)) \<Rightarrow>
        if key_is ''total_size'' k then (let r = decode_int j n in (fst r, ok \<and> snd r))
        else if key_is ''total_file_count'' k then (n, ok \<and> snd (decode_int j 0))
        else (n, ok))"

definition decode_restore :: "json \<Rightarrow> int \<Rightarrow> int \<times> bool" where
  "decode_restore j n =
     (case j of JNull \<Rightarrow> (n, True) | JObj kvs \<Rightarrow> fold restore_field kvs (n, True) | _ \<Rightarrow> (n, False))"

definition envelope_field :: "string \<times> json \<Rightarrow> stats_envelope \<times> bool \<Rightarrow> stats_envelope \<times> bool" where
  "envelope_field kv eb =
     (case (kv, eb) of ((k, j), (e, ok)) \<Rightarrow>
        if key_is ''raw'' k
        then (if j = JNull then (e\<lparr>en_raw := None\<rparr>, ok)
              else (let r = decode_stats j (case en_raw e of None \<Rightarrow> zero_stats | Some s \<Rightarrow> s)
                    in (e\<lparr>en_raw := Some (fst r)\<rparr>, ok \<and> snd r)))
        else if key_is ''restore'' k
        then (if j = JNull then (e\<lparr>en_restore := None\<rparr>, ok)
              else (let r = decode_restore j (case en_restore e of None \<Rightarrow> 0 | Some n \<Rightarrow> n)
                    in (e\<lparr>en_restore := Some (fst r)\<rparr>, ok \<and> snd r)))
        else (e, ok))"

definition decode_envelope :: "json \<Rightarrow> stats_envelope \<times> bool" where
  "decode_envelope j =
     (let e0 = \<lparr>en_raw = None, en_restore = None\<rparr> in
      case j of JNull \<Rightarrow> (e0, True) | JObj kvs \<Rightarrow> fold envelope_field kvs (e0, True) | _ \<Rightarrow> (e0, False))"

text \<open>\<open>parse\<close> is the JSON reader: a value, or nothing for text that is not JSON.\<close>

definition fleet_stats ::
  "(string \<Rightarrow> fleet_error + string) \<Rightarrow> (string \<Rightarrow> json option) \<Rightarrow> fleet_error + repo_stats" where
  "fleet_stats run parse =
     (case run ''stats'' of
        Inl e \<Rightarrow> Inl e
      | Inr out \<Rightarrow>
          (case parse out of
             None \<Rightarrow> Inl (BadStats ''invalid JSON'')
           | Some j \<Rightarrow>
               (case decode_envelope j of
                  (env, ok) \<Rightarrow>
                    if \<not> ok
                    then (case decode_stats j zero_stats of
                            (st, ok2) \<Rightarrow> if ok2 then Inr st else Inl (BadStats ''type mismatch''))
                    else (case en_raw env of
                            None \<Rightarrow> Inl NoStats
                          | Some st \<Rightarrow>
                              Inr (case en_restore env of
                                     None \<Rightarrow> st
                                   | Some n \<Rightarrow> st\<lparr>rp_source_size := n\<rparr>)))))"

section \<open>Listings and trees\<close>

record node =
  nd_name :: string
  nd_type :: string
  nd_path :: string
  nd_size :: int
  nd_permissions :: string
  nd_mtime :: time
  nd_struct_type :: string

definition is_dir :: "node \<Rightarrow> bool" where
  "is_dir n \<longleftrightarrow> nd_type n = ''dir''"

text \<open>The comparison both \<open>sort.Slice\<close> calls use: directories first, then by name.\<close>

definition node_less :: "node \<Rightarrow> node \<Rightarrow> bool" where
  "node_less a b = (if is_dir a \<noteq> is_dir b then is_dir a else nd_name a < nd_name b)"

text \<open>
  \<open>bufio.Scanner\<close> over lines with a largest token: the lines before the first too long one,
  and whether there is one. A final empty line is no line; a carriage return before the line
  break is dropped.
\<close>

definition drop_cr :: "string \<Rightarrow> string" where
  "drop_cr l = (if l \<noteq> [] \<and> last l = CHR 0x0D then butlast l else l)"

definition raw_lines :: "string \<Rightarrow> string list" where
  "raw_lines out =
     (let ls = split_on newline out in if last ls = '''' then butlast ls else ls)"

definition scan_lines :: "nat \<Rightarrow> string \<Rightarrow> string list \<times> bool" where
  "scan_lines limit out =
     (let ls = raw_lines out
      in (map drop_cr (takeWhile (\<lambda>l. length l < limit) ls), \<exists>l\<in>set ls. \<not> length l < limit))"

definition node_line :: "(string \<Rightarrow> node option) \<Rightarrow> string \<Rightarrow> node option" where
  "node_line unjson l =
     (let line = trim_space l in
      if line = '''' then None
      else (case unjson line of
              None \<Rightarrow> None
            | Some n \<Rightarrow> if nd_struct_type n \<noteq> ''node'' then None else Some n))"

definition list_limit :: nat where "list_limit = 4 * 1024 * 1024"
definition tree_limit :: nat where "tree_limit = 8 * 1024 * 1024"

type_synonym node_order = "(node \<Rightarrow> node \<Rightarrow> bool) \<Rightarrow> node list \<Rightarrow> node list"

text \<open>\<open>List\<close> returns the nodes it read together with the scanner's error, if any.\<close>

definition fleet_list ::
  "node_order \<Rightarrow> (string \<Rightarrow> fleet_error + string) \<Rightarrow> (string \<Rightarrow> node option)
     \<Rightarrow> string \<Rightarrow> string \<Rightarrow> fleet_error + node list \<times> bool" where
  "fleet_list srt run unjson snap path =
     (let snap' = (if snap = '''' then ''latest'' else snap);
          path' = (if path = '''' then ''/'' else path)
      in case run (''ls '' @ snap' @ '' '' @ path') of
           Inl e \<Rightarrow> Inl e
         | Inr out \<Rightarrow>
             (case scan_lines list_limit out of
                (ls, too_long) \<Rightarrow>
                  Inr (srt node_less (List.map_filter (node_line unjson) ls), too_long)))"

record tree =
  tr_snapshot :: string
  tr_built :: time
  tr_dirs :: "string \<rightharpoonup> node list"
  tr_count :: int

definition dir_nodes :: "tree \<Rightarrow> string \<Rightarrow> node list" where
  "dir_nodes t d = (case tr_dirs t d of None \<Rightarrow> [] | Some ns \<Rightarrow> ns)"

definition add_node :: "tree \<Rightarrow> node \<Rightarrow> tree" where
  "add_node t n =
     (let parent = path_dir (nd_path n)
      in t\<lparr>tr_dirs := (tr_dirs t)(parent \<mapsto> dir_nodes t parent @ [n]), tr_count := tr_count t + 1\<rparr>)"

definition sort_dirs :: "node_order \<Rightarrow> tree \<Rightarrow> tree" where
  "sort_dirs srt t = t\<lparr>tr_dirs := (\<lambda>d. map_option (srt node_less) (tr_dirs t d))\<rparr>"

definition fetch_tree ::
  "node_order \<Rightarrow> (string \<Rightarrow> fleet_error + string) \<Rightarrow> (string \<Rightarrow> node option)
     \<Rightarrow> time \<Rightarrow> string \<Rightarrow> fleet_error + tree" where
  "fetch_tree srt run unjson now snap =
     (let snap' = (if snap = '''' then ''latest'' else snap)
      in case run (''tree '' @ snap') of
           Inl e \<Rightarrow> Inl e
         | Inr out \<Rightarrow>
             (case scan_lines tree_limit out of
                (ls, too_long) \<Rightarrow>
                  if too_long then Inl (BadTree ''bufio.Scanner: token too long'')
                  else Inr (sort_dirs srt
                    (foldl add_node
                       \<lparr>tr_snapshot = snap', tr_built = now, tr_dirs = Map.empty, tr_count = 0\<rparr>
                       (List.map_filter (node_line unjson) ls)))))"

definition children :: "tree \<Rightarrow> string \<Rightarrow> node list" where
  "children t d = dir_nodes t (if d \<noteq> ''/'' then path_clean d else d)"

end
