(* ===== verification/Amarre_Fleet_Facts.thy ===== *)
theory Amarre_Fleet_Facts
  imports Amarre_Fleet
begin

text \<open>
  What the reading of a host's answers guarantees: the order and completeness of listings and
  trees, the errors of remote commands, the policy file read back, and the two statistics
  formats.
\<close>

section \<open>Trimming visible text\<close>

definition visible :: "char \<Rightarrow> bool" where
  "visible c \<longleftrightarrow> 33 \<le> (of_char c :: nat) \<and> (of_char c :: nat) \<le> 126"

lemma space_runes_ends: "\<forall>w\<in>set space_runes. \<not> visible (hd w) \<and> \<not> visible (last w)"
  by (simp add: space_runes_def visible_def)

lemma strip_visible:
  assumes "\<forall>w\<in>set ws. \<not> visible (hd w)" and "s = [] \<or> visible (hd s)"
  shows "strip_front ws s = s"
proof (rule strip_front_id, rule notI)
  fix w
  assume "w \<in> set ws" and "w \<noteq> []" and "has_prefix s w"
  then obtain c v where w: "w = c # v" and "prefix (c # v) s"
    by (auto simp: has_prefix_iff neq_Nil_conv)
  then have "s \<noteq> []" and "hd s = c" by (auto elim: prefixE)
  with \<open>w \<in> set ws\<close> w assms show False by fastforce
qed

lemma trim_space_visible:
  assumes "s = [] \<or> visible (hd s) \<and> visible (last s)"
  shows "trim_space s = s"
proof -
  have "\<forall>w\<in>set (map rev space_runes). \<not> visible (hd w)"
    using space_runes_ends by (auto simp: hd_rev)
  moreover have "rev s = [] \<or> visible (hd (rev s))" using assms by (auto simp: hd_rev)
  ultimately have "strip_front (map rev space_runes) (rev s) = rev s" by (rule strip_visible)
  moreover have "strip_front space_runes s = s"
    using space_runes_ends assms by (intro strip_visible) auto
  ultimately show ?thesis by (simp add: trim_space_def trim_left_def trim_right_def)
qed

section \<open>Listings\<close>

interpretation nodes: comparison node_less
  by unfold_locales (auto simp: node_less_def split: if_splits)

definition listed_nodes :: "(string \<Rightarrow> node option) \<Rightarrow> nat \<Rightarrow> string \<Rightarrow> node list" where
  "listed_nodes unjson limit out = List.map_filter (node_line unjson) (fst (scan_lines limit out))"

lemma dirs_first:
  "sorted_wrt (\<lambda>x y. \<not> node_less y x) ns \<Longrightarrow> i < j \<Longrightarrow> j < length ns \<Longrightarrow>
   is_dir (ns ! j) \<longrightarrow> is_dir (ns ! i)"
  by (auto simp: sorted_wrt_iff_nth_less node_less_def split: if_splits)

lemma names_ascend:
  "sorted_wrt (\<lambda>x y. \<not> node_less y x) ns \<Longrightarrow> i < j \<Longrightarrow> j < length ns \<Longrightarrow>
   is_dir (ns ! i) = is_dir (ns ! j) \<Longrightarrow> nd_name (ns ! i) \<le> nd_name (ns ! j)"
  by (force simp: sorted_wrt_iff_nth_less node_less_def split: if_splits)

section \<open>Trees\<close>

lemma dir_nodes_add:
  "dir_nodes (add_node t n) d = (if d = path_dir (nd_path n) then dir_nodes t d @ [n] else dir_nodes t d)"
  by (simp add: add_node_def dir_nodes_def Let_def)

lemma dir_nodes_foldl:
  "dir_nodes (foldl add_node t ns) d = dir_nodes t d @ filter (\<lambda>n. path_dir (nd_path n) = d) ns"
  by (induction ns arbitrary: t) (auto simp: dir_nodes_add)

lemma count_foldl: "tr_count (foldl add_node t ns) = tr_count t + int (length ns)"
  by (induction ns arbitrary: t) (auto simp: add_node_def Let_def)

lemma dir_nodes_sort:
  "slice_sorts srt node_less \<Longrightarrow> dir_nodes (sort_dirs srt t) d = srt node_less (dir_nodes t d)"
  using slice_sorts_length [of srt node_less "[]"]
  by (auto simp: dir_nodes_def sort_dirs_def split: option.splits)

definition empty_tree :: "string \<Rightarrow> time \<Rightarrow> tree" where
  "empty_tree snap now =
     \<lparr>tr_snapshot = (if snap = '''' then ''latest'' else snap), tr_built = now,
      tr_dirs = Map.empty, tr_count = 0\<rparr>"

definition tree_command :: "string \<Rightarrow> string" where
  "tree_command snap = ''tree '' @ (if snap = '''' then ''latest'' else snap)"

lemma fetch_tree_Inr:
  assumes "fetch_tree srt run unjson now snap = Inr t"
  shows "\<exists>out. run (tree_command snap) = Inr out \<and> \<not> snd (scan_lines tree_limit out) \<and>
    t = sort_dirs srt (foldl add_node (empty_tree snap now) (listed_nodes unjson tree_limit out))"
proof (cases "run (tree_command snap)")
  case (Inl e)
  with assms show ?thesis by (simp add: fetch_tree_def tree_command_def)
next
  case (Inr out)
  obtain ls long where "scan_lines tree_limit out = (ls, long)" by fastforce
  with Inr assms show ?thesis
    by (auto simp: fetch_tree_def tree_command_def empty_tree_def listed_nodes_def split: if_splits)
qed

section \<open>Policy text\<close>

definition policy_text :: "policy_entry list \<Rightarrow> string" where
  "policy_text es =
     concat (map (\<lambda>e. pe_key e @ ''='' @ [CHR 0x22] @ pe_value e @ [CHR 0x22] @ [newline]) es)"

definition printable_entry :: "policy_entry \<Rightarrow> bool" where
  "printable_entry e \<longleftrightarrow>
     pe_key e \<noteq> [] \<and> (\<forall>c\<in>set (pe_key e). visible c \<and> c \<noteq> CHR ''='' \<and> c \<noteq> CHR ''#'') \<and>
     (\<forall>c\<in>set (pe_value e). visible c \<and> c \<noteq> CHR 0x22) \<and>
     pe_allowed e = (pe_value e = ''yes'')"

lemma visible_quote [simp]: "visible (CHR 0x22)"
  by (simp add: visible_def)

lemma newline_not_visible: "\<not> visible newline"
  by (simp add: visible_def newline_def)

lemma trim_char_quoted: "c \<notin> set v \<Longrightarrow> trim_char c (c # v @ [c]) = v"
proof -
  assume c: "c \<notin> set v"
  have front: "dropWhile (\<lambda>x. x = c) (c # v @ [c]) = (if v = [] then [] else v @ [c])"
    using c by (cases v) auto
  have "dropWhile (\<lambda>x. x = c) (rev (v @ [c])) = rev v"
    using c by (cases v rule: rev_cases) auto
  with front show ?thesis by (simp add: trim_char_def)
qed

lemma policy_line_text:
  assumes "printable_entry e"
  shows "policy_line (pe_key e @ CHR ''='' # CHR 0x22 # pe_value e @ [CHR 0x22]) = Some e"
proof -
  let ?q = "CHR 0x22 # pe_value e @ [CHR 0x22]"
  obtain c cs where key: "pe_key e = c # cs" using assms
    by (cases "pe_key e") (auto simp: printable_entry_def)
  have vis: "visible c" "c \<noteq> CHR ''#''" "CHR ''='' \<notin> set (pe_key e)" "CHR 0x22 \<notin> set (pe_value e)"
    using assms key by (auto simp: printable_entry_def)
  have "trim_space (pe_key e @ CHR ''='' # ?q) = pe_key e @ CHR ''='' # ?q"
    by (rule trim_space_visible) (simp add: key vis)
  moreover have "trim_space ?q = ?q" by (rule trim_space_visible) simp
  moreover have "trim_space (pe_key e) = pe_key e"
    by (rule trim_space_visible) (use assms key in \<open>auto simp: printable_entry_def\<close>)
  moreover have "cut_at (CHR ''='') (pe_key e @ CHR ''='' # ?q) = Some (pe_key e, ?q)"
    using vis by (simp add: cut_at_Some)
  moreover have "\<not> has_prefix (pe_key e @ CHR ''='' # ?q) ''#''"
    using key vis by (simp add: has_prefix_def)
  ultimately show ?thesis
    using assms vis key
    by (cases e) (simp add: policy_line_def trim_char_quoted printable_entry_def Let_def)
qed

lemma policy_line_empty: "policy_line [] = None"
  by (simp add: policy_line_def trim_space_visible Let_def)

lemma split_policy_text:
  "(\<And>e. e \<in> set es \<Longrightarrow> printable_entry e) \<Longrightarrow>
   split_on newline (policy_text es) =
   map (\<lambda>e. pe_key e @ CHR ''='' # CHR 0x22 # pe_value e @ [CHR 0x22]) es @ [[]]"
proof (induction es)
  case Nil
  then show ?case by (simp add: policy_text_def)
next
  case (Cons e es)
  let ?l = "pe_key e @ CHR ''='' # CHR 0x22 # pe_value e @ [CHR 0x22]"
  have "printable_entry e" using Cons.prems by simp
  then have "newline \<notin> set ?l"
    using newline_not_visible by (auto simp: printable_entry_def newline_def)
  then have "split_on newline (?l @ newline # policy_text es) = ?l # split_on newline (policy_text es)"
    by (rule split_on_append)
  moreover have "policy_text (e # es) = ?l @ newline # policy_text es"
    by (simp add: policy_text_def)
  ultimately show ?case using Cons by simp
qed

section \<open>Properties\<close>

text \<open>
  Policy read back. The policy file a host prints for itself, one quoted value per line,
  is read back entry by entry, with an operation allowed exactly when its value is yes.
\<close>

theorem policy_roundtrip:
  assumes "\<And>e. e \<in> set es \<Longrightarrow> printable_entry e"
  shows "fleet_policy (\<lambda>_. Inr (policy_text es)) = Inr es"
proof -
  have "List.map_filter policy_line (map (\<lambda>e. pe_key e @ CHR ''='' # CHR 0x22 # pe_value e @ [CHR 0x22]) es) = es"
    using assms by (induction es) (auto simp: policy_line_text List.map_filter_simps)
  then show ?thesis
    using split_policy_text [OF assms]
    by (simp add: fleet_policy_def parse_policy_def List.map_filter_def policy_line_empty)
qed

theorem policy_roundtrip_demo:
  "fleet_policy (\<lambda>_. Inr (policy_text
     [\<lparr>pe_key = ''SHIM_ALLOW_RESTORE'', pe_value = ''no'', pe_allowed = False\<rparr>,
      \<lparr>pe_key = ''SHIM_ALLOW_CHECK'', pe_value = ''yes'', pe_allowed = True\<rparr>])) =
   Inr [\<lparr>pe_key = ''SHIM_ALLOW_RESTORE'', pe_value = ''no'', pe_allowed = False\<rparr>,
      \<lparr>pe_key = ''SHIM_ALLOW_CHECK'', pe_value = ''yes'', pe_allowed = True\<rparr>]"
  by (rule policy_roundtrip) (auto simp: printable_entry_def visible_def)

text \<open>
  C30. Trees. When a snapshot's tree is fetched, its count is the number of nodes received, and
  the children of any directory, however the path is spelled, are exactly the received nodes
  whose parent it is, directories first and then by name.
\<close>

theorem fetched_tree_children:
  assumes "slice_sorts srt node_less" and "fetch_tree srt run unjson now snap = Inr t"
  shows "\<exists>out. run (tree_command snap) = Inr out \<and>
     tr_count t = int (length (listed_nodes unjson tree_limit out)) \<and>
     mset (children t d) =
       filter_mset (\<lambda>n. path_dir (nd_path n) = path_clean d) (mset (listed_nodes unjson tree_limit out)) \<and>
     sorted_wrt (\<lambda>x y. \<not> node_less y x) (children t d)"
proof -
  obtain out where out: "run (tree_command snap) = Inr out"
    and t: "t = sort_dirs srt (foldl add_node (empty_tree snap now) (listed_nodes unjson tree_limit out))"
    using fetch_tree_Inr [OF assms(2)] by blast
  let ?kids = "filter (\<lambda>n. path_dir (nd_path n) = path_clean d) (listed_nodes unjson tree_limit out)"
  have "dir_nodes (empty_tree snap now) x = []" for x by (simp add: dir_nodes_def empty_tree_def)
  then have kids: "children t d = srt node_less ?kids"
    by (cases "d = ''/''") (simp_all add: children_def t dir_nodes_sort [OF assms(1)] dir_nodes_foldl)
  have "tr_count t = int (length (listed_nodes unjson tree_limit out))"
    by (simp add: t sort_dirs_def count_foldl empty_tree_def)
  moreover have "mset (children t d) = mset ?kids"
    unfolding kids by (rule slice_sorts_mset [OF assms(1)])
  moreover have "sorted_wrt (\<lambda>x y. \<not> node_less y x) (children t d)"
    unfolding kids by (rule slice_sorts_sorted [OF assms(1)])
  ultimately show ?thesis using out by (auto simp: mset_filter)
qed

text \<open>
  The witness fetches a tree of three nodes; the root's children come back directory first.
\<close>

definition demo_node :: "string \<Rightarrow> node option" where
  "demo_node l =
     (if l = ''a'' then Some \<lparr>nd_name = ''a'', nd_type = ''file'', nd_path = ''/a'', nd_size = 1,
        nd_permissions = '''', nd_mtime = 0, nd_struct_type = ''node''\<rparr>
      else if l = ''d'' then Some \<lparr>nd_name = ''d'', nd_type = ''dir'', nd_path = ''/d'', nd_size = 0,
        nd_permissions = '''', nd_mtime = 0, nd_struct_type = ''node''\<rparr>
      else None)"

lemma demo_fetch:
  "\<exists>t. fetch_tree slice_stable (\<lambda>_. Inr (''a'' @ [newline] @ ''d'' @ [newline])) demo_node 5 '''' = Inr t"
  by (simp add: fetch_tree_def scan_lines_def raw_lines_def newline_def drop_cr_def tree_limit_def)

theorem fetched_tree_children_witness:
  "\<exists>t out. fetch_tree slice_stable (\<lambda>_. Inr (''a'' @ [newline] @ ''d'' @ [newline])) demo_node 5 '''' = Inr t \<and>
     tr_count t = int (length (listed_nodes demo_node tree_limit out)) \<and>
     sorted_wrt (\<lambda>x y. \<not> node_less y x) (children t ''/./'')"
proof -
  obtain t where t: "fetch_tree slice_stable (\<lambda>_. Inr (''a'' @ [newline] @ ''d'' @ [newline]))
      demo_node 5 '''' = Inr t"
    using demo_fetch by blast
  from fetched_tree_children [OF slice_sorts_stable [OF nodes.comparison_axioms] t, of "''/./''"] t
  show ?thesis by blast
qed

text \<open>
  Listings. \<open>List\<close> asks the host for one directory of one snapshot (by default the latest,
  at the root) and returns exactly the nodes of the lines before the first too long one, with
  an error if there is one; directories come first, and within them and within the files the
  names ascend.
\<close>

lemma fleet_list_sorted:
  assumes "slice_sorts srt node_less" and "fleet_list srt run unjson snap path = Inr (ns, err)"
  shows "\<exists>out. run (''ls '' @ (if snap = '''' then ''latest'' else snap) @ '' '' @
                     (if path = '''' then ''/'' else path)) = Inr out \<and>
     mset ns = mset (listed_nodes unjson list_limit out) \<and>
     (err \<longleftrightarrow> (\<exists>l\<in>set (raw_lines out). list_limit \<le> length l)) \<and>
     (\<forall>i j. i < j \<longrightarrow> j < length ns \<longrightarrow>
        (is_dir (ns ! j) \<longrightarrow> is_dir (ns ! i)) \<and>
        (is_dir (ns ! i) = is_dir (ns ! j) \<longrightarrow> nd_name (ns ! i) \<le> nd_name (ns ! j)))"
proof -
  let ?cmd = "''ls '' @ (if snap = '''' then ''latest'' else snap) @ '' '' @ (if path = '''' then ''/'' else path)"
  obtain out where out: "run ?cmd = Inr out"
    using assms(2) by (cases "run ?cmd") (auto simp: fleet_list_def)
  obtain ls long where ls: "scan_lines list_limit out = (ls, long)" by fastforce
  with out assms(2) have ns: "ns = srt node_less (listed_nodes unjson list_limit out)" and "err = long"
    by (auto simp: fleet_list_def listed_nodes_def)
  with ls have "err \<longleftrightarrow> (\<exists>l\<in>set (raw_lines out). list_limit \<le> length l)"
    by (auto simp: scan_lines_def Let_def not_less)
  moreover have "mset ns = mset (listed_nodes unjson list_limit out)"
    unfolding ns by (rule slice_sorts_mset [OF assms(1)])
  moreover have "sorted_wrt (\<lambda>x y. \<not> node_less y x) ns"
    unfolding ns by (rule slice_sorts_sorted [OF assms(1)])
  ultimately show ?thesis using out dirs_first names_ascend by blast
qed

lemma fleet_list_sorted_demo:
  "\<exists>ns out. fleet_list slice_stable (\<lambda>_. Inr (''a'' @ [newline] @ ''d'')) demo_node '''' '''' = Inr (ns, False) \<and>
     mset ns = mset (listed_nodes demo_node list_limit out)"
proof -
  have "fleet_list slice_stable (\<lambda>_. Inr (''a'' @ [newline] @ ''d'')) demo_node '''' '''' =
      Inr (slice_stable node_less (listed_nodes demo_node list_limit (''a'' @ [newline] @ ''d'')), False)"
    by (simp add: fleet_list_def listed_nodes_def scan_lines_def raw_lines_def newline_def drop_cr_def
        list_limit_def)
  from fleet_list_sorted [OF slice_sorts_stable [OF nodes.comparison_axioms] this] this
  show ?thesis by blast
qed

lemma error_text_suffix:
  "suffix d (error_text (RepoMissing d))" "suffix d (error_text (LockFailed d))"
  "suffix d (error_text (ExitCode n d))" "suffix d (error_text (RunFailed e d))"
  unfolding error_text_def fleet_error.case
  by (intro suffix_appendI suffix_order.refl)+

text \<open>
  C31. The explanation of a failure survives. When the remote command fails with an explanation
  on its error stream, the error message the operator sees contains it, except for the three
  statuses that carry a fixed message (77 refused, 78 no policy, 12 wrong password).
\<close>

theorem run_error_keeps_detail:
  assumes "run_result st stdout stderr = Inl e" and "trim_space stderr \<noteq> ''''"
    and "\<And>code text. st = RunExit code text \<Longrightarrow> code \<notin> {12, 77, 78}"
  shows "contains (error_text e) (trim_space stderr)"
proof -
  have d: "run_detail stdout stderr = trim_space stderr"
    using assms(2) by (simp add: run_detail_def Let_def)
  show ?thesis
  proof (cases st)
    case RunOK
    with assms(1) show ?thesis by (simp add: run_result_def)
  next
    case (RunExit code msg)
    with assms(3) have "code \<notin> {12, 77, 78}" by blast
    with RunExit assms(1,2) d consider "e = RepoMissing (trim_space stderr)"
      | "e = LockFailed (trim_space stderr)" | "e = ExitCode code (trim_space stderr)"
      by (auto simp: run_result_def Let_def split: if_splits)
    then show ?thesis
      using error_text_suffix by cases (auto simp: contains_iff intro: suffix_imp_sublist)
  next
    case (RunOther msg)
    with assms(1,2) d have "e = RunFailed msg (trim_space stderr)"
      by (simp add: run_result_def run_generic_def)
    then show ?thesis
      using error_text_suffix(4) by (simp add: contains_iff suffix_imp_sublist)
  qed
qed

theorem run_error_keeps_detail_witness:
  "contains (error_text (LockFailed ''locked'')) (trim_space ''locked'')"
proof -
  have t: "trim_space ''locked'' = ''locked''"
    by (rule trim_space_visible) (simp add: visible_def)
  show ?thesis
    by (rule run_error_keeps_detail [of "RunExit 11 ''exit''" "''''" "''locked''"])
      (simp_all add: run_result_def run_detail_def t)
qed

lemma envelope_ignores: "(\<And>k j. (k, j) \<in> set kvs \<Longrightarrow> \<not> key_is ''raw'' k \<and> \<not> key_is ''restore'' k) \<Longrightarrow>
    fold envelope_field kvs eb = eb"
proof (induction kvs arbitrary: eb)
  case (Cons kv kvs)
  then have "envelope_field kv eb = eb"
    by (cases kv; cases eb) (auto simp: envelope_field_def)
  moreover have "fold envelope_field kvs eb = eb"
    by (rule Cons.IH) (use Cons.prems in auto)
  ultimately show ?case by simp
qed simp

text \<open>
  The two statistics formats. An answer with a raw and a restore object is read as the
  repository statistics with the source size filled in. A flat object in the older format is
  never read, although the code has a fallback that would decode it: an object without the two
  keys decodes as an envelope without error, and the result is that the statistics are absent.
\<close>

lemma stats_legacy_never_read:
  assumes "run ''stats'' = Inr out" and "parse out = Some (JObj kvs)"
    and "decode_stats (JObj kvs) zero_stats = (st, True)"
    and "\<And>k j. (k, j) \<in> set kvs \<Longrightarrow> \<not> key_is ''raw'' k \<and> \<not> key_is ''restore'' k"
  shows "fleet_stats run parse = Inl NoStats"
  using assms(1,2) envelope_ignores [OF assms(4)]
  by (simp add: fleet_stats_def decode_envelope_def Let_def)

lemma stats_legacy_never_read_demo:
  "fleet_stats (\<lambda>_. Inr ''x'') (\<lambda>_. Some (JObj [(''total_size'', JInt 1000)])) = Inl NoStats \<and>
   decode_stats (JObj [(''total_size'', JInt 1000)]) zero_stats =
     (zero_stats\<lparr>rp_total_size := 1000\<rparr>, True)"
proof
  show d: "decode_stats (JObj [(''total_size'', JInt 1000)]) zero_stats =
     (zero_stats\<lparr>rp_total_size := 1000\<rparr>, True)"
    by (simp add: decode_stats_def stats_field_def key_is_def decode_int_def in_int64_def
        has_prefix_def lower_char_def)
  show "fleet_stats (\<lambda>_. Inr ''x'') (\<lambda>_. Some (JObj [(''total_size'', JInt 1000)])) = Inl NoStats"
    by (rule stats_legacy_never_read [where out = "''x''", OF _ _ d])
      (auto simp: key_is_def has_prefix_def lower_char_def)
qed

end
