(* ===== verification/Amarre_Pool.thy ===== *)
theory Amarre_Pool
  imports Amarre_Base Amarre_Strings "HOL-Library.AList"
begin

text \<open>
  The connection pool of package \<open>fleet\<close> (\<open>pool.go\<close>) and the life of a remote command through
  it (the first half of \<open>Client.run\<close> in \<open>fleet.go\<close>): obtain the connection, take one of its
  four slots, open a session, and on failure drop the connection and try once more.

  Every section under the pool's mutex is one function on the pool; what happens between them
  (dialling, waiting for a slot, the connection falling) is a separate action of the step
  function \<open>pool_step\<close>, so that any interleaving of any number of calls is a run. The SSH
  client itself is an identifier; being open is its only state.
\<close>

section \<open>The pool\<close>

record conn =
  cn_last :: time
  cn_dead :: bool
  cn_used :: nat

record pool =
  pl_conns :: "(string \<times> nat) list"
  pl_conn :: "nat \<rightharpoonup> conn"
  pl_open :: "nat list"
  pl_watch :: "nat list"
  pl_next :: nat

definition max_sessions :: nat where "max_sessions = 4"

definition idle_ttl :: duration where "idle_ttl = 10 * minute"

definition new_pool :: pool where
  "new_pool = \<lparr>pl_conns = [], pl_conn = Map.empty, pl_open = [], pl_watch = [], pl_next = 0\<rparr>"

definition join_host_port :: "string \<Rightarrow> string \<Rightarrow> string" where
  "join_host_port h p = (if CHR '':'' \<in> set h then ''['' @ h @ '']:'' @ p else h @ '':'' @ p)"

definition pool_key :: "string \<Rightarrow> string \<Rightarrow> int \<Rightarrow> string" where
  "pool_key addr user port = join_host_port addr (show_int port) @ ''|'' @ user"

definition conn_dead :: "pool \<Rightarrow> nat \<Rightarrow> bool" where
  "conn_dead p c = (case pl_conn p c of None \<Rightarrow> False | Some x \<Rightarrow> cn_dead x)"

definition conn_used :: "pool \<Rightarrow> nat \<Rightarrow> nat" where
  "conn_used p c = (case pl_conn p c of None \<Rightarrow> 0 | Some x \<Rightarrow> cn_used x)"

definition conn_last :: "pool \<Rightarrow> nat \<Rightarrow> time" where
  "conn_last p c = (case pl_conn p c of None \<Rightarrow> zero_time | Some x \<Rightarrow> cn_last x)"

definition on_conn :: "nat \<Rightarrow> (conn \<Rightarrow> conn) \<Rightarrow> pool \<Rightarrow> pool" where
  "on_conn c f p = p\<lparr>pl_conn := (pl_conn p)(c := map_option f (pl_conn p c))\<rparr>"

text \<open>The live connection of a key: present and not marked dead.\<close>

definition live :: "string \<Rightarrow> pool \<Rightarrow> nat option" where
  "live k p = (case map_of (pl_conns p) k of
     None \<Rightarrow> None | Some c \<Rightarrow> if conn_dead p c then None else Some c)"

definition touch :: "time \<Rightarrow> nat \<Rightarrow> pool \<Rightarrow> pool" where
  "touch now c = on_conn c (\<lambda>x. x\<lparr>cn_last := now\<rparr>)"

text \<open>First section of \<open>get\<close>.\<close>

definition pool_lookup :: "time \<Rightarrow> string \<Rightarrow> pool \<Rightarrow> nat option \<times> pool" where
  "pool_lookup now k p = (case live k p of None \<Rightarrow> (None, p) | Some c \<Rightarrow> (Some c, touch now c p))"

definition close_client :: "nat \<Rightarrow> pool \<Rightarrow> pool" where
  "close_client c p = p\<lparr>pl_open := removeAll c (pl_open p)\<rparr>"

text \<open>A successful dial, outside the mutex: a new client, open.\<close>

definition dial_client :: "pool \<Rightarrow> nat \<times> pool" where
  "dial_client p = (pl_next p, p\<lparr>pl_open := pl_next p # pl_open p, pl_next := Suc (pl_next p)\<rparr>)"

text \<open>Second section of \<open>get\<close>: another call may have been faster.\<close>

definition pool_install :: "time \<Rightarrow> string \<Rightarrow> nat \<Rightarrow> pool \<Rightarrow> nat \<times> pool" where
  "pool_install now k cl p =
     (case live k p of
        Some cur \<Rightarrow> (cur, touch now cur (close_client cl p))
      | None \<Rightarrow>
          (cl, p\<lparr>pl_conn := (pl_conn p)(cl \<mapsto> \<lparr>cn_last = now, cn_dead = False, cn_used = 0\<rparr>),
                 pl_conns := AList.update k cl (pl_conns p), pl_watch := cl # pl_watch p\<rparr>))"

definition mark_dead :: "nat \<Rightarrow> pool \<Rightarrow> pool" where
  "mark_dead c = on_conn c (\<lambda>x. x\<lparr>cn_dead := True\<rparr>)"

definition pool_drop :: "string \<Rightarrow> pool \<Rightarrow> pool" where
  "pool_drop k p =
     (case map_of (pl_conns p) k of
        None \<Rightarrow> p
      | Some c \<Rightarrow> (mark_dead c (close_client c p))\<lparr>pl_conns := AList.delete k (pl_conns p)\<rparr>)"

definition stale :: "time \<Rightarrow> pool \<Rightarrow> nat \<Rightarrow> bool" where
  "stale now p c \<longleftrightarrow> conn_dead p c \<or> idle_ttl < time_sub now (conn_last p c)"

definition pool_reap :: "time \<Rightarrow> pool \<Rightarrow> pool" where
  "pool_reap now p =
     (let gone = map snd (filter (\<lambda>(k, c). stale now p c) (pl_conns p))
      in p\<lparr>pl_conns := filter (\<lambda>(k, c). \<not> stale now p c) (pl_conns p),
           pl_open := filter (\<lambda>c. c \<notin> set gone) (pl_open p)\<rparr>)"

definition pool_close :: "pool \<Rightarrow> pool" where
  "pool_close p =
     p\<lparr>pl_conns := [], pl_open := filter (\<lambda>c. c \<notin> set (map snd (pl_conns p))) (pl_open p)\<rparr>"

definition take_slot :: "nat \<Rightarrow> pool \<Rightarrow> pool" where
  "take_slot c = on_conn c (\<lambda>x. x\<lparr>cn_used := cn_used x + 1\<rparr>)"

definition free_slot :: "nat \<Rightarrow> pool \<Rightarrow> pool" where
  "free_slot c = on_conn c (\<lambda>x. x\<lparr>cn_used := cn_used x - 1\<rparr>)"

section \<open>Remote commands\<close>

text \<open>
  Where a call of \<open>run\<close> stands. A retried call keeps the slot of its first connection: the
  second number of \<open>Reopening\<close> and \<open>Session\<close>, the option of \<open>Dialing\<close> and \<open>Dialled\<close>.
\<close>

datatype call_state =
    Dialing string "nat option"
  | Dialled string nat "nat option"
  | Waiting string nat
  | Opening string nat
  | Retrying string nat
  | Reopening nat nat
  | Session nat nat
  | Returned

record pool_sys =
  ps_pool :: pool
  ps_calls :: "call_state list"

definition pool_init :: pool_sys where
  "pool_init = \<lparr>ps_pool = new_pool, ps_calls = []\<rparr>"

definition got :: "string \<Rightarrow> nat option \<Rightarrow> nat option \<Rightarrow> call_state" where
  "got k held r =
     (case (r, held) of
        (None, h) \<Rightarrow> Dialing k h
      | (Some c, None) \<Rightarrow> Waiting k c
      | (Some c, Some h) \<Rightarrow> Reopening c h)"

datatype action =
    Call time string
  | DialFails nat
  | DialWorks nat
  | Install time nat
  | TakeSlot nat
  | GiveUp nat
  | OpenWorks nat
  | OpenFails nat
  | GetAgain time nat
  | ReopenWorks nat
  | ReopenFails nat
  | Finish nat
  | Falls nat
  | Noticed nat
  | Reap time
  | CloseAll

definition set_call :: "nat \<Rightarrow> call_state \<Rightarrow> pool \<Rightarrow> pool_sys \<Rightarrow> pool_sys" where
  "set_call i x p s = s\<lparr>ps_pool := p, ps_calls := (ps_calls s)[i := x]\<rparr>"

definition free_held :: "nat option \<Rightarrow> pool \<Rightarrow> pool" where
  "free_held h p = (case h of None \<Rightarrow> p | Some c \<Rightarrow> free_slot c p)"

definition call_at :: "pool_sys \<Rightarrow> nat \<Rightarrow> call_state" where
  "call_at s i = (if i < length (ps_calls s) then ps_calls s ! i else Returned)"

fun pool_step :: "action \<Rightarrow> pool_sys \<Rightarrow> pool_sys option" where
  "pool_step (Call now k) s =
     (let (r, p) = pool_lookup now k (ps_pool s)
      in Some (s\<lparr>ps_pool := p, ps_calls := ps_calls s @ [got k None r]\<rparr>))"
| "pool_step (DialFails i) s =
     (case call_at s i of
        Dialing k h \<Rightarrow> Some (set_call i Returned (free_held h (ps_pool s)) s)
      | _ \<Rightarrow> None)"
| "pool_step (DialWorks i) s =
     (case call_at s i of
        Dialing k h \<Rightarrow> (let (cl, p) = dial_client (ps_pool s) in Some (set_call i (Dialled k cl h) p s))
      | _ \<Rightarrow> None)"
| "pool_step (Install now i) s =
     (case call_at s i of
        Dialled k cl h \<Rightarrow>
          (let (c, p) = pool_install now k cl (ps_pool s) in Some (set_call i (got k h (Some c)) p s))
      | _ \<Rightarrow> None)"
| "pool_step (TakeSlot i) s =
     (case call_at s i of
        Waiting k c \<Rightarrow>
          if conn_used (ps_pool s) c < max_sessions
          then Some (set_call i (Opening k c) (take_slot c (ps_pool s)) s) else None
      | _ \<Rightarrow> None)"
| "pool_step (GiveUp i) s =
     (case call_at s i of Waiting k c \<Rightarrow> Some (set_call i Returned (ps_pool s) s) | _ \<Rightarrow> None)"
| "pool_step (OpenWorks i) s =
     (case call_at s i of
        Opening k c \<Rightarrow>
          if c \<in> set (pl_open (ps_pool s)) then Some (set_call i (Session c c) (ps_pool s) s) else None
      | _ \<Rightarrow> None)"
| "pool_step (OpenFails i) s =
     (case call_at s i of
        Opening k c \<Rightarrow> Some (set_call i (Retrying k c) (pool_drop k (ps_pool s)) s)
      | _ \<Rightarrow> None)"
| "pool_step (GetAgain now i) s =
     (case call_at s i of
        Retrying k h \<Rightarrow>
          (let (r, p) = pool_lookup now k (ps_pool s) in Some (set_call i (got k (Some h) r) p s))
      | _ \<Rightarrow> None)"
| "pool_step (ReopenWorks i) s =
     (case call_at s i of
        Reopening c h \<Rightarrow>
          if c \<in> set (pl_open (ps_pool s)) then Some (set_call i (Session c h) (ps_pool s) s) else None
      | _ \<Rightarrow> None)"
| "pool_step (ReopenFails i) s =
     (case call_at s i of
        Reopening c h \<Rightarrow> Some (set_call i Returned (free_slot h (ps_pool s)) s)
      | _ \<Rightarrow> None)"
| "pool_step (Finish i) s =
     (case call_at s i of
        Session c h \<Rightarrow> Some (set_call i Returned (free_slot h (ps_pool s)) s)
      | _ \<Rightarrow> None)"
| "pool_step (Falls c) s = Some (s\<lparr>ps_pool := close_client c (ps_pool s)\<rparr>)"
| "pool_step (Noticed c) s =
     (if c \<in> set (pl_watch (ps_pool s)) \<and> c \<notin> set (pl_open (ps_pool s))
      then Some (s\<lparr>ps_pool := (mark_dead c (ps_pool s))\<lparr>pl_watch := removeAll c (pl_watch (ps_pool s))\<rparr>\<rparr>)
      else None)"
| "pool_step (Reap now) s = Some (s\<lparr>ps_pool := pool_reap now (ps_pool s)\<rparr>)"
| "pool_step CloseAll s = Some (s\<lparr>ps_pool := pool_close (ps_pool s)\<rparr>)"

inductive pool_reachable :: "pool_sys \<Rightarrow> bool" where
  pool_start: "pool_reachable pool_init"
| pool_next: "pool_reachable s \<Longrightarrow> pool_step a s = Some s' \<Longrightarrow> pool_reachable s'"

end
