(* ===== verification/Amarre_Pool_Facts.thy ===== *)
theory Amarre_Pool_Facts
  imports Amarre_Pool
begin

text \<open>
  What the pool guarantees under every interleaving: one connection per key, no connection that
  is open and forgotten, and the bound on the sessions of a connection together with the one
  way around it, the retry that keeps the slot of another connection.
\<close>

section \<open>Counting calls\<close>

definition tally :: "('a \<Rightarrow> bool) \<Rightarrow> 'a list \<Rightarrow> nat" where
  "tally P xs = length (filter P xs)"

lemma tally_append [simp]: "tally P (xs @ [x]) = tally P xs + (if P x then 1 else 0)"
  by (simp add: tally_def)

lemma tally_pos: "i < length xs \<Longrightarrow> P (xs ! i) \<Longrightarrow> 0 < tally P xs"
  by (auto simp: tally_def length_greater_0_conv filter_empty_conv intro: nth_mem)

lemma tally_pos_iff: "0 < tally P xs \<longleftrightarrow> (\<exists>x\<in>set xs. P x)"
  by (auto simp: tally_def filter_empty_conv)

lemma tally_update:
  "i < length xs \<Longrightarrow>
   tally P (xs[i := y]) = (tally P xs + (if P y then 1 else 0)) - (if P (xs ! i) then 1 else 0)"
proof (induction xs arbitrary: i)
  case (Cons x xs)
  show ?case
  proof (cases i)
    case (Suc j)
    with Cons.prems have "P (xs ! j) \<Longrightarrow> 0 < tally P xs" by (simp add: tally_pos)
    with Cons Suc show ?thesis by (auto simp: tally_def)
  qed (simp add: tally_def)
qed simp

fun dialled :: "nat \<Rightarrow> call_state \<Rightarrow> bool" where
  "dialled c (Dialled k d h) = (d = c)"
| "dialled c _ = False"

fun holds_slot :: "nat \<Rightarrow> call_state \<Rightarrow> bool" where
  "holds_slot c (Dialing k h) = (h = Some c)"
| "holds_slot c (Dialled k d h) = (h = Some c)"
| "holds_slot c (Opening k d) = (d = c)"
| "holds_slot c (Retrying k h) = (h = c)"
| "holds_slot c (Reopening d h) = (h = c)"
| "holds_slot c (Session d h) = (h = c)"
| "holds_slot c _ = False"

fun refers :: "nat \<Rightarrow> call_state \<Rightarrow> bool" where
  "refers c (Waiting k d) = (d = c)"
| "refers c (Reopening d h) = (d = c \<or> h = c)"
| "refers c (Session d h) = (d = c \<or> h = c)"
| "refers c x = holds_slot c x"

section \<open>The invariant\<close>

text \<open>
  \<open>D\<close>, \<open>H\<close> and \<open>M\<close> count, for each connection, the calls that have dialled and not installed
  it, that hold a slot of it, and that refer to it.
\<close>

definition linked :: "pool \<Rightarrow> string \<Rightarrow> nat \<Rightarrow> bool" where
  "linked p k c \<longleftrightarrow> map_of (pl_conns p) k = Some c"

definition consistent :: "pool \<Rightarrow> (nat \<Rightarrow> nat) \<Rightarrow> (nat \<Rightarrow> nat) \<Rightarrow> (nat \<Rightarrow> nat) \<Rightarrow> bool" where
  "consistent p D H M \<longleftrightarrow>
     distinct (map fst (pl_conns p)) \<and>
     (\<forall>k k' c. linked p k c \<and> linked p k' c \<longrightarrow> k = k') \<and>
     (\<forall>k c. linked p k c \<longrightarrow> pl_conn p c \<noteq> None) \<and>
     (\<forall>c. pl_conn p c \<noteq> None \<longrightarrow> c < pl_next p) \<and>
     (\<forall>c\<in>set (pl_open p). (\<exists>k. linked p k c) \<or> 0 < D c) \<and>
     (\<forall>c. conn_dead p c \<longrightarrow> c \<notin> set (pl_open p)) \<and>
     (\<forall>c. D c \<le> Suc 0) \<and>
     (\<forall>c. 0 < D c \<longrightarrow> pl_conn p c = None \<and> c < pl_next p) \<and>
     (\<forall>c. pl_conn p c = None \<longrightarrow> M c = 0) \<and>
     (\<forall>c. conn_used p c = H c \<and> H c \<le> max_sessions)"

definition sys_consistent :: "pool_sys \<Rightarrow> bool" where
  "sys_consistent s \<longleftrightarrow>
     consistent (ps_pool s) (\<lambda>c. tally (dialled c) (ps_calls s)) (\<lambda>c. tally (holds_slot c) (ps_calls s))
       (\<lambda>c. tally (refers c) (ps_calls s))"

lemma on_conn_frame [simp]:
  "pl_conns (on_conn c f p) = pl_conns p" "pl_open (on_conn c f p) = pl_open p"
  "pl_next (on_conn c f p) = pl_next p" "pl_watch (on_conn c f p) = pl_watch p"
  "pl_conn (on_conn c f p) d = None \<longleftrightarrow> pl_conn p d = None"
  by (simp_all add: on_conn_def)

lemma conn_fields [simp]:
  "conn_dead (touch now c p) d = conn_dead p d" "conn_used (touch now c p) d = conn_used p d"
  "conn_dead (take_slot c p) d = conn_dead p d" "conn_dead (free_slot c p) d = conn_dead p d"
  "conn_used (mark_dead c p) d = conn_used p d"
  "conn_dead (mark_dead c p) d = (if d = c then pl_conn p c \<noteq> None else conn_dead p d)"
  "conn_used (take_slot c p) d =
     (if d = c \<and> pl_conn p c \<noteq> None then conn_used p c + 1 else conn_used p d)"
  "conn_used (free_slot c p) d = (if d = c then conn_used p c - 1 else conn_used p d)"
  by (auto simp: touch_def take_slot_def free_slot_def mark_dead_def on_conn_def conn_dead_def
      conn_used_def split: option.splits)

lemma op_frame [simp]:
  "pl_conns (touch now c p) = pl_conns p" "pl_open (touch now c p) = pl_open p" "pl_next (touch now c p) = pl_next p"
  "pl_conn (touch now c p) d = None \<longleftrightarrow> pl_conn p d = None"
  "pl_conns (take_slot c p) = pl_conns p" "pl_open (take_slot c p) = pl_open p" "pl_next (take_slot c p) = pl_next p"
  "pl_conn (take_slot c p) d = None \<longleftrightarrow> pl_conn p d = None"
  "pl_conns (free_slot c p) = pl_conns p" "pl_open (free_slot c p) = pl_open p" "pl_next (free_slot c p) = pl_next p"
  "pl_conn (free_slot c p) d = None \<longleftrightarrow> pl_conn p d = None"
  "pl_conns (mark_dead c p) = pl_conns p" "pl_open (mark_dead c p) = pl_open p" "pl_next (mark_dead c p) = pl_next p"
  "pl_conn (mark_dead c p) d = None \<longleftrightarrow> pl_conn p d = None"
  "linked (touch now c p) = linked p" "linked (take_slot c p) = linked p"
  "linked (free_slot c p) = linked p" "linked (mark_dead c p) = linked p"
  by (simp_all add: linked_def fun_eq_iff touch_def take_slot_def free_slot_def mark_dead_def)

lemma close_frame [simp]:
  "pl_conns (close_client c p) = pl_conns p" "pl_conn (close_client c p) = pl_conn p"
  "pl_next (close_client c p) = pl_next p" "set (pl_open (close_client c p)) = set (pl_open p) - {c}"
  "conn_dead (close_client c p) = conn_dead p" "conn_used (close_client c p) = conn_used p"
  "linked (close_client c p) = linked p"
  by (simp_all add: linked_def close_client_def conn_dead_def conn_used_def fun_eq_iff)

text \<open>One lemma per section of the code.\<close>

lemma open_frame [simp]:
  "linked (p\<lparr>pl_open := xs\<rparr>) = linked p" "conn_dead (p\<lparr>pl_open := xs\<rparr>) = conn_dead p"
  "conn_used (p\<lparr>pl_open := xs\<rparr>) = conn_used p"
  by (simp_all add: linked_def conn_dead_def conn_used_def fun_eq_iff)

lemma consistentI:
  assumes "distinct (map fst (pl_conns p))"
    and "\<And>k k' c. linked p k c \<Longrightarrow> linked p k' c \<Longrightarrow> k = k'"
    and "\<And>k c. linked p k c \<Longrightarrow> pl_conn p c \<noteq> None"
    and "\<And>c. pl_conn p c \<noteq> None \<Longrightarrow> c < pl_next p"
    and "\<And>c. c \<in> set (pl_open p) \<Longrightarrow> (\<exists>k. linked p k c) \<or> 0 < D c"
    and "\<And>c. conn_dead p c \<Longrightarrow> c \<notin> set (pl_open p)"
    and "\<And>c. D c \<le> Suc 0" and "\<And>c. 0 < D c \<Longrightarrow> pl_conn p c = None \<and> c < pl_next p"
    and "\<And>c. pl_conn p c = None \<Longrightarrow> M c = 0"
    and "\<And>c. conn_used p c = H c" and "\<And>c. H c \<le> max_sessions"
  shows "consistent p D H M"
  unfolding consistent_def
proof (intro conjI)
  show "\<forall>k k' c. linked p k c \<and> linked p k' c \<longrightarrow> k = k'" using assms(2) by blast
  show "\<forall>k c. linked p k c \<longrightarrow> pl_conn p c \<noteq> None" using assms(3) by blast
  show "\<forall>c. pl_conn p c \<noteq> None \<longrightarrow> c < pl_next p" using assms(4) by blast
  show "\<forall>c\<in>set (pl_open p). (\<exists>k. linked p k c) \<or> 0 < D c"
    by (intro ballI) (rule assms(5))
  show "\<forall>c. conn_dead p c \<longrightarrow> c \<notin> set (pl_open p)" using assms(6) by blast
  show "\<forall>c. 0 < D c \<longrightarrow> pl_conn p c = None \<and> c < pl_next p" using assms(8) by blast
  show "\<forall>c. pl_conn p c = None \<longrightarrow> M c = 0" using assms(9) by blast
qed (simp_all only: assms(1,7,10,11) simp_thms)

lemmas consistent_parts = consistent_def [THEN iffD1]

lemmas consistentD =
  consistent_parts [THEN conjunct1]
  consistent_parts [THEN conjunct2, THEN conjunct1, rule_format, OF _ conjI]
  consistent_parts [THEN conjunct2, THEN conjunct2, THEN conjunct1, rule_format]
  consistent_parts [THEN conjunct2, THEN conjunct2, THEN conjunct2, THEN conjunct1, rule_format]
  consistent_parts [THEN conjunct2, THEN conjunct2, THEN conjunct2, THEN conjunct2, THEN conjunct1, rule_format]
  consistent_parts [THEN conjunct2, THEN conjunct2, THEN conjunct2, THEN conjunct2, THEN conjunct2,
    THEN conjunct1, rule_format]
  consistent_parts [THEN conjunct2, THEN conjunct2, THEN conjunct2, THEN conjunct2, THEN conjunct2,
    THEN conjunct2, THEN conjunct1, rule_format]
  consistent_parts [THEN conjunct2, THEN conjunct2, THEN conjunct2, THEN conjunct2, THEN conjunct2,
    THEN conjunct2, THEN conjunct2, THEN conjunct1, rule_format]
  consistent_parts [THEN conjunct2, THEN conjunct2, THEN conjunct2, THEN conjunct2, THEN conjunct2,
    THEN conjunct2, THEN conjunct2, THEN conjunct2, THEN conjunct1, rule_format]
  consistent_parts [THEN conjunct2, THEN conjunct2, THEN conjunct2, THEN conjunct2, THEN conjunct2,
    THEN conjunct2, THEN conjunct2, THEN conjunct2, THEN conjunct2, rule_format, THEN conjunct1]
  consistent_parts [THEN conjunct2, THEN conjunct2, THEN conjunct2, THEN conjunct2, THEN conjunct2,
    THEN conjunct2, THEN conjunct2, THEN conjunct2, THEN conjunct2, rule_format, THEN conjunct2]

lemma consistent_touch: "consistent p D H M \<Longrightarrow> consistent (touch now c p) D H M"
  by (rule consistentI) (auto dest: consistentD)

lemma consistent_shrink:
  assumes "consistent p D H M" and "set open' \<subseteq> set (pl_open p)"
  shows "consistent (p\<lparr>pl_open := open'\<rparr>) D H M"
proof (rule consistentI)
  have sub: "c \<in> set (pl_open p)" if "c \<in> set open'" for c using that assms(2) by blast
  show "(\<exists>k. linked (p\<lparr>pl_open := open'\<rparr>) k c) \<or> 0 < D c" if "c \<in> set (pl_open (p\<lparr>pl_open := open'\<rparr>))" for c
    using consistentD(5) [OF assms(1) sub [of c]] that by simp
  show "c \<notin> set (pl_open (p\<lparr>pl_open := open'\<rparr>))" if "conn_dead (p\<lparr>pl_open := open'\<rparr>) c" for c
    using consistentD(6) [OF assms(1), of c] sub [of c] that by auto
qed (use assms(1) in \<open>auto dest: consistentD\<close>)

lemma consistent_close: "consistent p D H M \<Longrightarrow> consistent (close_client c p) D H M"
  unfolding close_client_def by (rule consistent_shrink) auto

lemma consistent_lookup: "consistent p D H M \<Longrightarrow> consistent (snd (pool_lookup now k p)) D H M"
  by (simp add: pool_lookup_def consistent_touch split: option.splits)

lemma lookup_installed:
  "consistent p D H M \<Longrightarrow> fst (pool_lookup now k p) = Some c \<Longrightarrow> pl_conn p c \<noteq> None"
  using consistentD(3) [of p D H M k c]
  by (auto simp: pool_lookup_def live_def linked_def split: option.splits if_splits)

lemma consistent_refs:
  "consistent p D H M \<Longrightarrow> (\<And>c. pl_conn p c = None \<Longrightarrow> M' c = 0) \<Longrightarrow> consistent p D H M'"
  by (rule consistentI) (auto dest: consistentD)

lemma consistent_dial:
  assumes "consistent p D H M"
  shows "consistent (snd (dial_client p)) (D(pl_next p := 1)) H M"
proof -
  have new: "pl_conn p (pl_next p) = None" using consistentD(4) [OF assms] by blast
  then have dead: "\<not> conn_dead p (pl_next p)" by (simp add: conn_dead_def)
  have frame: "linked (snd (dial_client p)) = linked p" "conn_dead (snd (dial_client p)) = conn_dead p"
    "conn_used (snd (dial_client p)) = conn_used p" "pl_conn (snd (dial_client p)) = pl_conn p"
    "pl_conns (snd (dial_client p)) = pl_conns p" "pl_open (snd (dial_client p)) = pl_next p # pl_open p"
    "pl_next (snd (dial_client p)) = Suc (pl_next p)"
    by (simp_all add: dial_client_def linked_def conn_dead_def conn_used_def fun_eq_iff)
  show ?thesis
  proof (rule consistentI, unfold frame)
    show "c \<in> set (pl_next p # pl_open p) \<Longrightarrow> (\<exists>k. linked p k c) \<or> 0 < (D(pl_next p := 1)) c" for c
      using consistentD(5) [OF assms, of c] by auto
    show "conn_dead p c \<Longrightarrow> c \<notin> set (pl_next p # pl_open p)" for c
      using consistentD(6) [OF assms, of c] dead by auto
    show "(D(pl_next p := 1)) c \<le> Suc 0" for c using consistentD(7) [OF assms, of c] by simp
    show "0 < (D(pl_next p := 1)) c \<Longrightarrow> pl_conn p c = None \<and> c < Suc (pl_next p)" for c
      using consistentD(8) [OF assms, of c] new by (auto split: if_splits)
    show "pl_conn p c \<noteq> None \<Longrightarrow> c < Suc (pl_next p)" for c
      using consistentD(4) [OF assms, of c] by simp
  qed (fact consistentD [OF assms])+
qed

lemma map_of_filter_value:
  "distinct (map fst al) \<Longrightarrow>
   map_of (filter (\<lambda>(k, c). Q c) al) k = (case map_of al k of None \<Rightarrow> None | Some c \<Rightarrow> if Q c then Some c else None)"
  by (induction al) (auto split: option.splits dest: map_of_SomeD simp: image_iff map_of_eq_None_iff)

lemma linked_entry: "consistent p D H M \<Longrightarrow> linked p k c \<longleftrightarrow> (k, c) \<in> set (pl_conns p)"
  unfolding linked_def using consistentD(1) by (rule map_of_eq_Some_iff)

lemma consistent_sweep:
  assumes "consistent p D H M"
    and "p' = p\<lparr>pl_conns := filter (\<lambda>(k, c). Q c) (pl_conns p),
      pl_open := filter (\<lambda>c. c \<notin> set (map snd (filter (\<lambda>(k, c). \<not> Q c) (pl_conns p)))) (pl_open p)\<rparr>"
  shows "consistent p' D H M"
proof -
  have linked: "linked p' k c \<longleftrightarrow> linked p k c \<and> Q c" for k c
    using map_of_filter_value [OF consistentD(1) [OF assms(1)], of Q k]
    by (auto simp: linked_def assms(2) split: option.splits)
  have frame: "conn_dead p' = conn_dead p" "conn_used p' = conn_used p" "pl_conn p' = pl_conn p"
      "pl_next p' = pl_next p"
    by (simp_all add: assms(2) conn_dead_def conn_used_def fun_eq_iff)
  have keys: "distinct (map fst (pl_conns p'))"
    using consistentD(1) [OF assms(1)] by (simp add: assms(2) distinct_map_filter)
  have kept: "c \<in> set (pl_open p) \<and> (\<forall>k. linked p k c \<longrightarrow> Q c)" if "c \<in> set (pl_open p')" for c
    using that linked_entry [OF assms(1)] by (force simp: assms(2))
  show ?thesis
  proof (rule consistentI, unfold frame linked)
    show "distinct (map fst (pl_conns p'))" by (rule keys)
    show "(\<exists>k. linked p k c \<and> Q c) \<or> 0 < D c" if "c \<in> set (pl_open p')" for c
      using consistentD(5) [OF assms(1), of c] kept [OF that] by auto
    show "c \<notin> set (pl_open p')" if "conn_dead p c" for c
      using consistentD(6) [OF assms(1) that] kept [of c] by auto
    show "k = k'" if "linked p k c \<and> Q c" "linked p k' c \<and> Q c" for k k' c
      using that by (auto intro: consistentD(2) [OF assms(1)])
    show "pl_conn p c \<noteq> None" if "linked p k c \<and> Q c" for k c
      using that by (auto dest: consistentD(3) [OF assms(1)])
  qed (fact consistentD [OF assms(1)])+
qed

lemma consistent_reap: "consistent p D H M \<Longrightarrow> consistent (pool_reap now p) D H M"
  by (erule consistent_sweep [where Q = "\<lambda>c. \<not> stale now p c"]) (simp add: pool_reap_def Let_def)

lemma consistent_close_all: "consistent p D H M \<Longrightarrow> consistent (pool_close p) D H M"
  by (erule consistent_sweep [where Q = "\<lambda>c. False"]) (simp add: pool_close_def case_prod_beta)

lemma consistent_mark:
  assumes "consistent p D H M" and "c \<notin> set (pl_open p)"
  shows "consistent (mark_dead c p) D H M"
proof (rule consistentI)
  show "d \<notin> set (pl_open (mark_dead c p))" if "conn_dead (mark_dead c p) d" for d
    using that assms(2) consistentD(6) [OF assms(1), of d] by (auto split: if_splits)
qed (use assms(1) in \<open>auto dest: consistentD\<close>)

lemma consistent_unlink:
  assumes "consistent p D H M" and "\<And>c. linked p k c \<Longrightarrow> c \<notin> set (pl_open p)"
  shows "consistent (p\<lparr>pl_conns := AList.delete k (pl_conns p)\<rparr>) D H M"
proof -
  let ?p = "p\<lparr>pl_conns := AList.delete k (pl_conns p)\<rparr>"
  have linked: "linked ?p k' c \<longleftrightarrow> k' \<noteq> k \<and> linked p k' c" for k' c
    by (auto simp: linked_def AList.delete_conv')
  have frame: "conn_dead ?p = conn_dead p" "conn_used ?p = conn_used p" "pl_conn ?p = pl_conn p"
      "pl_next ?p = pl_next p" "pl_open ?p = pl_open p"
    by (simp_all add: conn_dead_def conn_used_def fun_eq_iff)
  show ?thesis
  proof (rule consistentI, unfold frame linked)
    show "distinct (map fst (pl_conns ?p))"
      using consistentD(1) [OF assms(1)] by (simp add: AList.distinct_delete)
    show "(\<exists>k'. k' \<noteq> k \<and> linked p k' c) \<or> 0 < D c" if "c \<in> set (pl_open p)" for c
      using consistentD(5) [OF assms(1) that] assms(2) [of c] that by (cases "linked p k c") auto
    show "k1 = k2" if "k1 \<noteq> k \<and> linked p k1 c" "k2 \<noteq> k \<and> linked p k2 c" for k1 k2 c
      using that by (auto intro: consistentD(2) [OF assms(1)])
    show "pl_conn p c \<noteq> None" if "k' \<noteq> k \<and> linked p k' c" for k' c
      using that by (auto dest: consistentD(3) [OF assms(1)])
  qed (fact consistentD [OF assms(1)])+
qed

lemma consistent_drop:
  assumes "consistent p D H M"
  shows "consistent (pool_drop k p) D H M"
proof (cases "map_of (pl_conns p) k")
  case None
  with assms show ?thesis by (simp add: pool_drop_def)
next
  case (Some c)
  let ?p = "mark_dead c (close_client c p)"
  have "consistent ?p D H M"
    by (intro consistent_mark consistent_close assms) simp
  moreover have "linked ?p k d \<Longrightarrow> d \<notin> set (pl_open ?p)" for d
    using Some by (simp add: linked_def)
  ultimately have "consistent (?p\<lparr>pl_conns := AList.delete k (pl_conns ?p)\<rparr>) D H M"
    by (rule consistent_unlink)
  with Some show ?thesis by (simp add: pool_drop_def)
qed

lemma consistent_take:
  assumes "consistent p D H M" and "pl_conn p c \<noteq> None" and "conn_used p c < max_sessions"
  shows "consistent (take_slot c p) D (H(c := Suc (H c))) M"
proof (rule consistentI)
  show "conn_used (take_slot c p) d = (H(c := Suc (H c))) d" for d
    using assms(2) consistentD(10) [OF assms(1)] by simp
  show "(H(c := Suc (H c))) d \<le> max_sessions" for d
    using assms(3) consistentD(10,11) [OF assms(1)] by (simp add: Suc_le_eq)
qed (use assms(1) in \<open>auto dest: consistentD\<close>)

lemma consistent_free:
  assumes "consistent p D H M"
  shows "consistent (free_slot c p) D (H(c := H c - 1)) M"
proof (rule consistentI)
  show "conn_used (free_slot c p) d = (H(c := H c - 1)) d" for d
    using consistentD(10) [OF assms] by simp
  show "(H(c := H c - 1)) d \<le> max_sessions" for d
    using consistentD(11) [OF assms, of d] by auto
qed (use assms in \<open>auto dest: consistentD\<close>)

lemma consistent_forget:
  assumes "consistent p D H M" and "cl \<notin> set (pl_open p)"
  shows "consistent p (D(cl := 0)) H M"
proof (rule consistentI)
  show "(\<exists>k. linked p k c) \<or> 0 < (D(cl := 0)) c" if "c \<in> set (pl_open p)" for c
    using consistentD(5) [OF assms(1) that] assms(2) that by auto
  show "(D(cl := 0)) c \<le> Suc 0" for c using consistentD(7) [OF assms(1)] by simp
  show "pl_conn p c = None \<and> c < pl_next p" if "0 < (D(cl := 0)) c" for c
    using consistentD(8) [OF assms(1), of c] that by (auto split: if_splits)
qed (fact consistentD [OF assms(1)])+

lemma consistent_link:
  assumes "consistent p D H M" and "0 < D cl" and "live k p = None"
  shows "consistent (snd (pool_install now k cl p)) (D(cl := 0)) H M"
proof -
  let ?p = "snd (pool_install now k cl p)"
  have none: "pl_conn p cl = None" "cl < pl_next p" using consistentD(8) [OF assms(1,2)] by auto
  have frame: "conn_dead ?p = conn_dead p" "conn_used ?p = conn_used p" "pl_next ?p = pl_next p"
      "pl_open ?p = pl_open p"
    using none(1) by (auto simp: pool_install_def assms(3) conn_dead_def conn_used_def fun_eq_iff)
  have conn: "pl_conn ?p c = None \<longleftrightarrow> c \<noteq> cl \<and> pl_conn p c = None" for c
    by (simp add: pool_install_def assms(3))
  have linked: "linked ?p k' c \<longleftrightarrow> (if k' = k then c = cl else linked p k' c)" for k' c
    by (auto simp: pool_install_def assms(3) linked_def AList.update_conv')
  have unlinked: "\<not> linked p k' cl" for k' using consistentD(3) [OF assms(1), of k' cl] none by auto
  have replaced: "c \<notin> set (pl_open p)" if "linked p k c" for c
    using that assms(3) consistentD(6) [OF assms(1), of c]
    by (auto simp: live_def linked_def split: if_splits)
  show ?thesis
  proof (rule consistentI, unfold frame linked)
    show "distinct (map fst (pl_conns ?p))"
      using consistentD(1) [OF assms(1)] by (simp add: pool_install_def assms(3) AList.distinct_update)
    show "k1 = k2" if "if k1 = k then c = cl else linked p k1 c" "if k2 = k then c = cl else linked p k2 c" for k1 k2 c
      using that unlinked consistentD(2) [OF assms(1)] by (auto split: if_splits)
    show "pl_conn ?p c \<noteq> None" if "if k' = k then c = cl else linked p k' c" for k' c
      using that consistentD(3) [OF assms(1), of k' c] by (auto simp: conn split: if_splits)
    show "c < pl_next p" if "pl_conn ?p c \<noteq> None" for c
      using that none consistentD(4) [OF assms(1), of c] by (auto simp: conn)
    show "(\<exists>k'. if k' = k then c = cl else linked p k' c) \<or> 0 < (D(cl := 0)) c" if "c \<in> set (pl_open p)" for c
    proof (cases "c = cl")
      case False
      have new: "\<not> linked p k c" using replaced [of c] that by auto
      from consistentD(5) [OF assms(1) that] show ?thesis
      proof
        assume "\<exists>k'. linked p k' c"
        then obtain k' where "linked p k' c" ..
        with new have "if k' = k then c = cl else linked p k' c" by auto
        then show ?thesis by blast
      qed (use False in simp)
    qed auto
    show "(D(cl := 0)) c \<le> Suc 0" for c using consistentD(7) [OF assms(1)] by simp
    show "pl_conn ?p c = None \<and> c < pl_next p" if "0 < (D(cl := 0)) c" for c
      using consistentD(8) [OF assms(1), of c] that by (auto simp: conn split: if_splits)
    show "M c = 0" if "pl_conn ?p c = None" for c
      using that consistentD(9) [OF assms(1), of c] by (simp add: conn)
  qed (fact consistentD [OF assms(1)])+
qed

lemma consistent_install:
  assumes "consistent p D H M" and "0 < D cl"
  shows "consistent (snd (pool_install now k cl p)) (D(cl := 0)) H M"
    and "pl_conn (snd (pool_install now k cl p)) (fst (pool_install now k cl p)) \<noteq> None"
    and "pl_conn p d \<noteq> None \<Longrightarrow> pl_conn (snd (pool_install now k cl p)) d \<noteq> None"
proof (atomize (full), cases "live k p")
  case None
  with consistent_link [OF assms None] show "consistent (snd (pool_install now k cl p)) (D(cl := 0)) H M \<and>
      pl_conn (snd (pool_install now k cl p)) (fst (pool_install now k cl p)) \<noteq> None \<and>
      (pl_conn p d \<noteq> None \<longrightarrow> pl_conn (snd (pool_install now k cl p)) d \<noteq> None)"
    by (simp add: pool_install_def)
next
  case (Some cur)
  then have "linked p k cur" by (auto simp: live_def linked_def split: option.splits if_splits)
  then have "pl_conn p cur \<noteq> None" by (rule consistentD(3) [OF assms(1)])
  moreover have "consistent (touch now cur (close_client cl p)) (D(cl := 0)) H M"
    by (intro consistent_touch consistent_forget consistent_close assms) simp
  ultimately show "consistent (snd (pool_install now k cl p)) (D(cl := 0)) H M \<and>
      pl_conn (snd (pool_install now k cl p)) (fst (pool_install now k cl p)) \<noteq> None \<and>
      (pl_conn p d \<noteq> None \<longrightarrow> pl_conn (snd (pool_install now k cl p)) d \<noteq> None)"
    using Some by (simp add: pool_install_def)
qed

section \<open>Every step keeps it\<close>

lemma sys_set:
  assumes "call_at s i = x" and "x \<noteq> Returned"
    and "consistent p'
      (\<lambda>c. tally (dialled c) (ps_calls s) + (if dialled c y then 1 else 0) - (if dialled c x then 1 else 0))
      (\<lambda>c. tally (holds_slot c) (ps_calls s) + (if holds_slot c y then 1 else 0) - (if holds_slot c x then 1 else 0))
      (\<lambda>c. tally (refers c) (ps_calls s))"
    and "\<And>c. refers c y \<Longrightarrow> pl_conn p' c \<noteq> None"
  shows "sys_consistent (set_call i y p' s)"
proof -
  have i: "i < length (ps_calls s)" "ps_calls s ! i = x"
    using assms(1,2) by (auto simp: call_at_def split: if_splits)
  have "tally (refers c) ((ps_calls s)[i := y]) = 0" if "pl_conn p' c = None" for c
    using consistentD(9) [OF assms(3) that] assms(4) [of c] that by (auto simp: tally_update [OF i(1)])
  from consistent_refs [OF assms(3) this] show ?thesis
    by (simp add: sys_consistent_def set_call_def tally_update [OF i(1)] i(2))
qed

lemma call_counted:
  assumes "call_at s i = x" and "x \<noteq> Returned" and "P x"
  shows "0 < tally P (ps_calls s)"
  using assms by (auto simp: call_at_def intro!: tally_pos split: if_splits)

lemma call_referred:
  assumes "sys_consistent s" and "call_at s i = x" and "x \<noteq> Returned" and "refers c x"
  shows "pl_conn (ps_pool s) c \<noteq> None"
  using call_counted [OF assms(2,3), of "refers c"] assms(4) consistentD(9) [OF assms(1) [unfolded sys_consistent_def], of c]
  by auto

lemma got_counts [simp]:
  "dialled c (got k h r) = False"
  "holds_slot c (got k h r) \<longleftrightarrow> h = Some c"
  "refers c (got k h r) \<longleftrightarrow> h = Some c \<or> r = Some c"
  by (auto simp: got_def split: option.splits)

lemma slot_returned:
  assumes "sys_consistent s" and "call_at s i = x" and "x \<noteq> Returned" and "\<And>c. \<not> dialled c x"
    and "\<And>c. holds_slot c x \<longleftrightarrow> h = Some c"
  shows "sys_consistent (set_call i Returned (free_held h (ps_pool s)) s)"
proof (rule sys_set [OF assms(2,3)])
  let ?H = "\<lambda>c. tally (holds_slot c) (ps_calls s)"
  have ok: "consistent (ps_pool s) (\<lambda>c. tally (dialled c) (ps_calls s)) ?H (\<lambda>c. tally (refers c) (ps_calls s))"
    using assms(1) by (simp add: sys_consistent_def)
  show "consistent (free_held h (ps_pool s))
      (\<lambda>c. tally (dialled c) (ps_calls s) + (if dialled c Returned then 1 else 0) - (if dialled c x then 1 else 0))
      (\<lambda>c. ?H c + (if holds_slot c Returned then 1 else 0) - (if holds_slot c x then 1 else 0))
      (\<lambda>c. tally (refers c) (ps_calls s))"
  proof (cases h)
    case None
    with ok assms(4,5) show ?thesis by (simp add: free_held_def)
  next
    case (Some d)
    have "(\<lambda>c. ?H c - (if d = c then 1 else 0)) = ?H(d := ?H d - 1)" by auto
    with consistent_free [OF ok, of d] Some assms(4,5) show ?thesis by (simp add: free_held_def)
  qed
qed simp

lemma moves_on:
  assumes "sys_consistent s" and "call_at s i = x" and "x \<noteq> Returned"
    and "consistent p' (\<lambda>c. tally (dialled c) (ps_calls s)) (\<lambda>c. tally (holds_slot c) (ps_calls s))
      (\<lambda>c. tally (refers c) (ps_calls s))"
    and "\<And>c. \<not> dialled c x" and "\<And>c. \<not> dialled c y" and "\<And>c. holds_slot c y = holds_slot c x"
    and "\<And>c. refers c y \<Longrightarrow> pl_conn p' c \<noteq> None"
  shows "sys_consistent (set_call i y p' s)"
proof (rule sys_set [OF assms(2,3)])
  have "0 < tally (holds_slot c) (ps_calls s)" if "holds_slot c x" for c
    using assms(2,3) that by (rule call_counted)
  then have "(\<lambda>c. tally (holds_slot c) (ps_calls s) + (if holds_slot c y then 1 else 0) -
      (if holds_slot c x then 1 else 0)) = (\<lambda>c. tally (holds_slot c) (ps_calls s))"
    using assms(7) by auto
  with assms(4-6) show "consistent p'
      (\<lambda>c. tally (dialled c) (ps_calls s) + (if dialled c y then 1 else 0) - (if dialled c x then 1 else 0))
      (\<lambda>c. tally (holds_slot c) (ps_calls s) + (if holds_slot c y then 1 else 0) - (if holds_slot c x then 1 else 0))
      (\<lambda>c. tally (refers c) (ps_calls s))"
    by simp
qed (fact assms(8))

lemma lookup_frame [simp]: "pl_conn (snd (pool_lookup now k p)) c = None \<longleftrightarrow> pl_conn p c = None"
  by (simp add: pool_lookup_def split: option.splits)

lemma drop_frame [simp]: "pl_conn (pool_drop k p) c = None \<longleftrightarrow> pl_conn p c = None"
  by (simp add: pool_drop_def split: option.splits)

lemma step_dial:
  assumes "sys_consistent s" and "call_at s i = Dialing k h"
  shows "sys_consistent (set_call i (Dialled k (pl_next (ps_pool s)) h) (snd (dial_client (ps_pool s))) s)"
proof (rule sys_set [OF assms(2)])
  let ?p = "ps_pool s" and ?D = "\<lambda>c. tally (dialled c) (ps_calls s)"
  have ok: "consistent ?p ?D (\<lambda>c. tally (holds_slot c) (ps_calls s)) (\<lambda>c. tally (refers c) (ps_calls s))"
    using assms(1) by (simp add: sys_consistent_def)
  have "?D (pl_next ?p) = 0" using consistentD(8) [OF ok, of "pl_next ?p"] by auto
  then have D: "(\<lambda>c. ?D c + (if pl_next ?p = c then 1 else 0)) = ?D(pl_next ?p := 1)" by auto
  have H: "(\<lambda>c. tally (holds_slot c) (ps_calls s) + (if h = Some c then 1 else 0) - (if h = Some c then 1 else 0)) =
      (\<lambda>c. tally (holds_slot c) (ps_calls s))" by auto
  from consistent_dial [OF ok] D H show "consistent (snd (dial_client ?p))
      (\<lambda>c. ?D c + (if dialled c (Dialled k (pl_next ?p) h) then 1 else 0) - (if dialled c (Dialing k h) then 1 else 0))
      (\<lambda>c. tally (holds_slot c) (ps_calls s) + (if holds_slot c (Dialled k (pl_next ?p) h) then 1 else 0) -
        (if holds_slot c (Dialing k h) then 1 else 0))
      (\<lambda>c. tally (refers c) (ps_calls s))"
    by simp
  show "refers c (Dialled k (pl_next ?p) h) \<Longrightarrow> pl_conn (snd (dial_client ?p)) c \<noteq> None" for c
    using call_referred [OF assms, of c] by (simp add: dial_client_def)
qed simp

lemma step_install:
  assumes "sys_consistent s" and "call_at s i = Dialled k cl h"
  shows "sys_consistent (set_call i (got k h (Some (fst (pool_install now k cl (ps_pool s)))))
    (snd (pool_install now k cl (ps_pool s))) s)"
proof (rule sys_set [OF assms(2)])
  let ?p = "ps_pool s" and ?D = "\<lambda>c. tally (dialled c) (ps_calls s)" and ?q = "snd (pool_install now k cl (ps_pool s))"
  have ok: "consistent ?p ?D (\<lambda>c. tally (holds_slot c) (ps_calls s)) (\<lambda>c. tally (refers c) (ps_calls s))"
    using assms(1) by (simp add: sys_consistent_def)
  have pos: "0 < ?D cl" using call_counted [OF assms(2), of "dialled cl"] by simp
  with consistentD(7) [OF ok, of cl] have one: "?D cl = 1" by simp
  have D: "(\<lambda>c. ?D c - (if cl = c then 1 else 0)) = ?D(cl := 0)" using one by auto
  have H: "(\<lambda>c. tally (holds_slot c) (ps_calls s) + (if h = Some c then 1 else 0) - (if h = Some c then 1 else 0)) =
      (\<lambda>c. tally (holds_slot c) (ps_calls s))" by auto
  note inst = consistent_install [OF ok, OF pos, where now = now and k = k]
  from inst(1) D H show "consistent ?q
      (\<lambda>c. ?D c + (if dialled c (got k h (Some (fst (pool_install now k cl ?p)))) then 1 else 0) -
        (if dialled c (Dialled k cl h) then 1 else 0))
      (\<lambda>c. tally (holds_slot c) (ps_calls s) +
        (if holds_slot c (got k h (Some (fst (pool_install now k cl ?p)))) then 1 else 0) -
        (if holds_slot c (Dialled k cl h) then 1 else 0))
      (\<lambda>c. tally (refers c) (ps_calls s))"
    by simp
  show "refers c (got k h (Some (fst (pool_install now k cl ?p)))) \<Longrightarrow> pl_conn ?q c \<noteq> None" for c
    using call_referred [OF assms, of c] inst(2,3) by auto
qed simp

lemma step_take:
  assumes "sys_consistent s" and "call_at s i = Waiting k c" and "conn_used (ps_pool s) c < max_sessions"
  shows "sys_consistent (set_call i (Opening k c) (take_slot c (ps_pool s)) s)"
proof (rule sys_set [OF assms(2)])
  let ?H = "\<lambda>c. tally (holds_slot c) (ps_calls s)"
  have ok: "consistent (ps_pool s) (\<lambda>c. tally (dialled c) (ps_calls s)) ?H (\<lambda>c. tally (refers c) (ps_calls s))"
    using assms(1) by (simp add: sys_consistent_def)
  have c: "pl_conn (ps_pool s) c \<noteq> None" using call_referred [OF assms(1,2), of c] by simp
  have "(\<lambda>d. ?H d + (if c = d then 1 else 0)) = ?H(c := Suc (?H c))" by auto
  with consistent_take [OF ok c assms(3)] show "consistent (take_slot c (ps_pool s))
      (\<lambda>d. tally (dialled d) (ps_calls s) + (if dialled d (Opening k c) then 1 else 0) - (if dialled d (Waiting k c) then 1 else 0))
      (\<lambda>d. ?H d + (if holds_slot d (Opening k c) then 1 else 0) - (if holds_slot d (Waiting k c) then 1 else 0))
      (\<lambda>d. tally (refers d) (ps_calls s))"
    by simp
  show "refers d (Opening k c) \<Longrightarrow> pl_conn (take_slot c (ps_pool s)) d \<noteq> None" for d
    using c by simp
qed simp

lemma step_again:
  assumes "sys_consistent s" and "call_at s i = Retrying k h" and "pool_lookup now k (ps_pool s) = (r, p)"
  shows "sys_consistent (set_call i (got k (Some h) r) p s)"
proof (rule moves_on [OF assms(1,2)])
  have ok: "consistent (ps_pool s) (\<lambda>c. tally (dialled c) (ps_calls s))
      (\<lambda>c. tally (holds_slot c) (ps_calls s)) (\<lambda>c. tally (refers c) (ps_calls s))"
    using assms(1) by (simp add: sys_consistent_def)
  with consistent_lookup [OF ok, of now k] assms(3)
  show "consistent p (\<lambda>c. tally (dialled c) (ps_calls s)) (\<lambda>c. tally (holds_slot c) (ps_calls s))
      (\<lambda>c. tally (refers c) (ps_calls s))" by simp
  have p: "p = snd (pool_lookup now k (ps_pool s))" "r = fst (pool_lookup now k (ps_pool s))"
    using assms(3) by simp_all
  show "pl_conn p c \<noteq> None" if "refers c (got k (Some h) r)" for c
    using that lookup_installed [OF ok, of now k c] call_referred [OF assms(1,2), of c] by (auto simp: p)
qed simp_all

lemma step_call:
  assumes "sys_consistent s" and "pool_lookup now k (ps_pool s) = (r, p)"
  shows "sys_consistent (s\<lparr>ps_pool := p, ps_calls := ps_calls s @ [got k None r]\<rparr>)"
proof -
  have ok: "consistent (ps_pool s) (\<lambda>c. tally (dialled c) (ps_calls s))
      (\<lambda>c. tally (holds_slot c) (ps_calls s)) (\<lambda>c. tally (refers c) (ps_calls s))"
    using assms(1) by (simp add: sys_consistent_def)
  have p: "consistent p (\<lambda>c. tally (dialled c) (ps_calls s)) (\<lambda>c. tally (holds_slot c) (ps_calls s))
      (\<lambda>c. tally (refers c) (ps_calls s))"
    using consistent_lookup [OF ok, of now k] assms(2) by simp
  have conn: "pl_conn p c = None \<longleftrightarrow> pl_conn (ps_pool s) c = None" for c
    using lookup_frame [of now k "ps_pool s" c] assms(2) by simp
  have "tally (refers c) (ps_calls s @ [got k None r]) = 0" if "pl_conn p c = None" for c
    using consistentD(9) [OF p that] lookup_installed [OF ok, of now k c] assms(2) that by (auto simp: conn)
  from consistent_refs [OF p this] show ?thesis by (simp add: sys_consistent_def)
qed

lemma sys_pool:
  assumes "sys_consistent s" and "\<And>D H M. consistent (ps_pool s) D H M \<Longrightarrow> consistent p' D H M"
  shows "sys_consistent (s\<lparr>ps_pool := p'\<rparr>)"
  using assms by (simp add: sys_consistent_def)

lemma watch_frame: "consistent (p\<lparr>pl_watch := w\<rparr>) D H M = consistent p D H M"
  by (simp add: consistent_def linked_def conn_dead_def conn_used_def)

text \<open>The three kinds of action: a call returns, a call moves on, the pool changes by itself.\<close>

lemma step_returns:
  assumes "pool_step a s = Some s'" and "sys_consistent s"
    and "a \<in> {DialFails i, GiveUp i, ReopenFails i, Finish i}"
  shows "sys_consistent s'"
proof -
  from assms(1,3) have "(\<exists>k h. call_at s i = Dialing k h \<and> s' = set_call i Returned (free_held h (ps_pool s)) s) \<or>
    (\<exists>k c. call_at s i = Waiting k c \<and> s' = set_call i Returned (free_held None (ps_pool s)) s) \<or>
    (\<exists>c h. (call_at s i = Reopening c h \<or> call_at s i = Session c h) \<and>
       s' = set_call i Returned (free_held (Some h) (ps_pool s)) s)"
    by (auto simp: free_held_def split: call_state.splits)
  then show ?thesis
    using slot_returned [OF assms(2), of i] by (elim disjE exE conjE) simp_all
qed

lemma step_moves:
  assumes "pool_step a s = Some s'" and "sys_consistent s"
    and "a \<in> {OpenWorks i, OpenFails i, ReopenWorks i}"
  shows "sys_consistent s'"
proof -
  from assms(1,3) consider
      k c where "call_at s i = Opening k c" "s' = set_call i (Session c c) (ps_pool s) s"
    | k c where "call_at s i = Opening k c" "s' = set_call i (Retrying k c) (pool_drop k (ps_pool s)) s"
    | c h where "call_at s i = Reopening c h" "s' = set_call i (Session c h) (ps_pool s) s"
    by (auto split: call_state.splits if_splits)
  then show ?thesis
  proof cases
    case (1 k c)
    show ?thesis unfolding 1(2)
      by (rule moves_on [OF assms(2) 1(1)])
        (use assms(2) call_referred [OF assms(2) 1(1)] in \<open>simp_all add: sys_consistent_def\<close>)
  next
    case (2 k c)
    show ?thesis unfolding 2(2)
      by (rule moves_on [OF assms(2) 2(1)])
        (use assms(2) call_referred [OF assms(2) 2(1)] in \<open>simp_all add: sys_consistent_def consistent_drop\<close>)
  next
    case (3 c h)
    show ?thesis unfolding 3(2)
      by (rule moves_on [OF assms(2) 3(1)])
        (use assms(2) call_referred [OF assms(2) 3(1)] in \<open>auto simp: sys_consistent_def\<close>)
  qed
qed

lemma step_by_itself:
  assumes "pool_step a s = Some s'" and "sys_consistent s"
    and "a \<in> {Falls c, Noticed c, Reap now, CloseAll}"
  shows "sys_consistent s'"
  using assms(1,3) assms(2)
  by (auto split: if_splits intro: sys_pool consistent_close consistent_reap consistent_close_all
      intro!: sys_pool [OF assms(2)] simp: watch_frame consistent_mark)

lemma step_consistent: "pool_step a s = Some s' \<Longrightarrow> sys_consistent s \<Longrightarrow> sys_consistent s'"
proof (induction a s rule: pool_step.induct)
  case (1 now k s)
  then show ?case by (auto simp: Let_def split: prod.splits dest: step_call)
next
  case (3 i s)
  then show ?case using step_dial [OF 3(2)]
    by (auto simp: dial_client_def Let_def split: call_state.splits)
next
  case (4 now i s)
  then show ?case using step_install [OF 4(2), of i _ _ _ now]
    by (auto simp: Let_def split_beta split: call_state.splits)
next
  case (5 i s)
  then show ?case using step_take [OF 5(2)] by (auto split: call_state.splits if_splits)
next
  case (9 now i s)
  then show ?case using step_again [OF 9(2), of i _ _ now]
    by (auto simp: Let_def split: call_state.splits prod.splits)
qed (blast intro: step_returns step_moves step_by_itself)+

lemma reachable_consistent: "pool_reachable s \<Longrightarrow> sys_consistent s"
proof (induction rule: pool_reachable.induct)
  case pool_start
  show ?case
    by (simp add: sys_consistent_def consistent_def pool_init_def new_pool_def linked_def conn_dead_def
        conn_used_def tally_def)
qed (rule step_consistent)

section \<open>Properties\<close>

fun pool_run :: "action list \<Rightarrow> pool_sys \<Rightarrow> pool_sys option" where
  "pool_run [] s = Some s"
| "pool_run (a # as) s = (case pool_step a s of None \<Rightarrow> None | Some s' \<Rightarrow> pool_run as s')"

lemma run_reachable: "pool_run as s = Some s' \<Longrightarrow> pool_reachable s \<Longrightarrow> pool_reachable s'"
  by (induction as s rule: pool_run.induct) (auto split: option.splits intro: pool_next)

lemma dialled_iff: "dialled c x \<longleftrightarrow> (\<exists>k h. x = Dialled k c h)"
  by (cases x) auto

lemma distinct_values:
  assumes "consistent p D H M"
  shows "distinct (map snd (pl_conns p))"
proof -
  have "x = y" if "x \<in> set (pl_conns p)" "y \<in> set (pl_conns p)" "snd x = snd y" for x y
    using that consistentD(2) [OF assms, of "fst x" "snd x" "fst y"] linked_entry [OF assms]
    by (cases x; cases y) auto
  then have "inj_on snd (set (pl_conns p))" by (auto intro: inj_onI)
  moreover have "distinct (pl_conns p)" using consistentD(1) [OF assms] by (simp add: distinct_map)
  ultimately show ?thesis by (simp add: distinct_map)
qed

text \<open>
  C34. No connection is forgotten. Under every interleaving of calls, failures, sweeps and
  closings, each key has at most one connection in the pool and each connection one key; and an
  open connection is either in the pool, where a sweep will find it, or was dialled by a call
  that has yet to hand it in. Closing the pool leaves only the latter open.
\<close>

theorem pool_never_leaks:
  assumes "pool_reachable s"
  shows "distinct (map fst (pl_conns (ps_pool s))) \<and> distinct (map snd (pl_conns (ps_pool s))) \<and>
    set (pl_open (ps_pool s)) \<subseteq>
      set (map snd (pl_conns (ps_pool s))) \<union> {c. \<exists>k h. Dialled k c h \<in> set (ps_calls s)} \<and>
    set (pl_open (pool_close (ps_pool s))) \<subseteq> {c. \<exists>k h. Dialled k c h \<in> set (ps_calls s)}"
proof -
  let ?D = "\<lambda>c. tally (dialled c) (ps_calls s)"
  have ok: "consistent (ps_pool s) ?D (\<lambda>c. tally (holds_slot c) (ps_calls s)) (\<lambda>c. tally (refers c) (ps_calls s))"
    using reachable_consistent [OF assms] by (simp add: sys_consistent_def)
  have D: "\<exists>k h. Dialled k c h \<in> set (ps_calls s)" if "0 < ?D c" for c
  proof -
    from that obtain x where "x \<in> set (ps_calls s)" "dialled c x" by (auto simp: tally_pos_iff)
    then show ?thesis by (auto simp: dialled_iff)
  qed
  have sub: "set (pl_open (ps_pool s)) \<subseteq>
      set (map snd (pl_conns (ps_pool s))) \<union> {c. \<exists>k h. Dialled k c h \<in> set (ps_calls s)}"
  proof
    fix c
    assume "c \<in> set (pl_open (ps_pool s))"
    from consistentD(5) [OF ok this] D linked_entry [OF ok]
    show "c \<in> set (map snd (pl_conns (ps_pool s))) \<union> {c. \<exists>k h. Dialled k c h \<in> set (ps_calls s)}"
      by force
  qed
  then have "set (pl_open (pool_close (ps_pool s))) \<subseteq> {c. \<exists>k h. Dialled k c h \<in> set (ps_calls s)}"
    by (auto simp: pool_close_def)
  with sub consistentD(1) [OF ok] distinct_values [OF ok] show ?thesis by blast
qed

text \<open>Two calls dial the same host at once; the slower one closes its own connection.\<close>

definition race :: "action list" where
  "race = [Call 0 ''h'', Call 0 ''h'', DialWorks 0, DialWorks 1, Install 1 1, Install 1 0]"

theorem pool_never_leaks_witness:
  "\<exists>s. pool_run race pool_init = Some s \<and> pl_conns (ps_pool s) = [(''h'', 1)] \<and>
     pl_open (ps_pool s) = [1] \<and> set (pl_open (pool_close (ps_pool s))) \<subseteq> {}"
proof -
  have "map_option (\<lambda>s. (ps_calls s, pl_conns (ps_pool s), pl_open (ps_pool s))) (pool_run race pool_init) =
      Some ([Waiting ''h'' 1, Waiting ''h'' 1], [(''h'', 1)], [1])"
    by code_simp
  then obtain s where s: "pool_run race pool_init = Some s" "ps_calls s = [Waiting ''h'' 1, Waiting ''h'' 1]"
      "pl_conns (ps_pool s) = [(''h'', 1)]" "pl_open (ps_pool s) = [1]"
    by auto
  from pool_never_leaks [OF run_reachable [OF s(1) pool_start]] s show ?thesis by auto
qed

lemma tally_split: "tally P xs = tally (\<lambda>x. P x \<and> Q x) xs + tally (\<lambda>x. P x \<and> \<not> Q x) xs"
  by (induction xs) (auto simp: tally_def)

lemma tally_mono: "(\<And>x. P x \<Longrightarrow> Q x) \<Longrightarrow> tally P xs \<le> tally Q xs"
  unfolding tally_def by (induction xs) (auto simp: le_SucI)

text \<open>
  C35. Sessions of a connection. At any moment a connection carries at most four sessions, plus
  those of calls that were retried: such a call keeps the slot of the connection it lost and
  opens its session on the new one without a slot there. The bound of four is exceeded by
  at most as many.
\<close>

theorem sessions_are_bounded:
  assumes "pool_reachable s"
  shows "tally (\<lambda>x. \<exists>h. x = Session c h) (ps_calls s) \<le>
    4 + tally (\<lambda>x. \<exists>h. h \<noteq> c \<and> x = Session c h) (ps_calls s)"
proof -
  let ?P = "\<lambda>x. \<exists>h. x = Session c h"
  have "consistent (ps_pool s) (\<lambda>c. tally (dialled c) (ps_calls s)) (\<lambda>c. tally (holds_slot c) (ps_calls s))
      (\<lambda>c. tally (refers c) (ps_calls s))"
    using reachable_consistent [OF assms] by (simp add: sys_consistent_def)
  from consistentD(11) [OF this, of c] have "tally (holds_slot c) (ps_calls s) \<le> 4"
    by (simp add: max_sessions_def)
  moreover have "tally (\<lambda>x. ?P x \<and> x = Session c c) (ps_calls s) \<le> tally (holds_slot c) (ps_calls s)"
    by (rule tally_mono) auto
  moreover have "tally (\<lambda>x. ?P x \<and> x \<noteq> Session c c) (ps_calls s) \<le>
      tally (\<lambda>x. \<exists>h. h \<noteq> c \<and> x = Session c h) (ps_calls s)"
    by (rule tally_mono) auto
  ultimately show ?thesis
    using tally_split [of ?P "ps_calls s" "\<lambda>x. x = Session c c"] by linarith
qed

text \<open>A run that puts five sessions on one connection.\<close>

definition fifth_session :: "action list" where
  "fifth_session =
     [Call 0 ''h'', DialWorks 0, Install 0 0, TakeSlot 0, OpenFails 0,
      GetAgain 1 0, DialWorks 0, Install 1 0, ReopenWorks 0,
      Call 2 ''h'', Call 2 ''h'', Call 2 ''h'', Call 2 ''h'',
      TakeSlot 1, OpenWorks 1, TakeSlot 2, OpenWorks 2, TakeSlot 3, OpenWorks 3, TakeSlot 4, OpenWorks 4]"

theorem sessions_are_bounded_witness:
  "\<exists>s. pool_run fifth_session pool_init = Some s \<and>
     tally (\<lambda>x. \<exists>h. x = Session 1 h) (ps_calls s) = 5 \<and>
     tally (\<lambda>x. \<exists>h. x = Session 1 h) (ps_calls s) \<le>
       4 + tally (\<lambda>x. \<exists>h. h \<noteq> 1 \<and> x = Session 1 h) (ps_calls s)"
proof -
  have "map_option ps_calls (pool_run fifth_session pool_init) =
      Some [Session 1 0, Session 1 1, Session 1 1, Session 1 1, Session 1 1]"
    by code_simp
  then obtain s where s: "pool_run fifth_session pool_init = Some s"
      "ps_calls s = [Session 1 0, Session 1 1, Session 1 1, Session 1 1, Session 1 1]"
    by auto
  have "tally (\<lambda>x. \<exists>h. x = Session 1 h) (ps_calls s) = 5" by (simp add: s(2) tally_def)
  with sessions_are_bounded [OF run_reachable [OF s(1) pool_start], of 1] s(1) show ?thesis by blast
qed

end
