(* ===== verification/Amarre_Time.thy ===== *)
theory Amarre_Time
  imports Amarre_Strings Complex_Main
begin

text \<open>
  How the program prints quantities: 64-bit floating point where the code divides in
  \<open>float64\<close>, durations (\<open>Duration.String\<close>, \<open>Duration.Hours\<close>), calendar dates
  (\<open>time.Parse\<close>, \<open>Time.Format\<close>), and its French messages.

  A \<open>float64\<close> of the normal range is the rational it stands for; \<open>f64\<close> rounds to the nearest
  one with 53 significant bits, ties to even, and is applied after every operation the code
  performs. Dates are those of the proleptic Gregorian calendar in UTC.
\<close>

section \<open>Floating point\<close>

fun bit_length :: "nat \<Rightarrow> nat" where
  "bit_length n = (if n = 0 then 0 else Suc (bit_length (n div 2)))"

declare bit_length.simps [simp del]

definition round_even :: "rat \<Rightarrow> int" where
  "round_even x =
     (let f = \<lfloor>x\<rfloor>; r = x - of_int f in
      if r < 1 / 2 then f else if r > 1 / 2 then f + 1 else if even f then f else f + 1)"

definition scale2 :: "int \<Rightarrow> rat" where
  "scale2 e = (if e \<ge> 0 then 2 ^ nat e else 1 / 2 ^ nat (- e))"

definition f64 :: "rat \<Rightarrow> rat" where
  "f64 x =
     (if x = 0 then 0
      else (case quotient_of \<bar>x\<bar> of (n, d) \<Rightarrow>
        let e0 = int (bit_length (nat n)) - int (bit_length (nat d)) - 53;
            e = (if \<bar>x\<bar> / scale2 e0 \<ge> 2 ^ 53 then e0 + 1 else e0)
        in of_int (sgn \<lfloor>sgn x\<rfloor>) * of_int (round_even (\<bar>x\<bar> / scale2 e)) * scale2 e))"

lemma round_even_int [simp]: "round_even (of_int n) = n"
  by (simp add: round_even_def)

lemma round_even_near: "\<bar>of_int (round_even x) - x\<bar> \<le> 1 / 2"
proof -
  have "of_int \<lfloor>x\<rfloor> \<le> x" and "x < of_int \<lfloor>x\<rfloor> + 1" by linarith+
  then show ?thesis by (auto simp: round_even_def Let_def)
qed

text \<open>Conversion of a float to an integer truncates towards zero.\<close>

definition trunc :: "rat \<Rightarrow> int" where
  "trunc x = (if x \<ge> 0 then \<lfloor>x\<rfloor> else - \<lfloor>- x\<rfloor>)"

section \<open>Durations\<close>

text \<open>\<open>d.Hours()\<close>: whole hours plus the rest, each step in \<open>float64\<close>.\<close>

definition hours :: "duration \<Rightarrow> rat" where
  "hours d =
     (let h = go_div d hour; ns = d - h * hour
      in f64 (f64 (of_int h) + f64 (f64 (of_int ns) / of_int hour)))"

text \<open>\<open>int(d.Hours()/24)\<close>, the whole days the messages print.\<close>

definition whole_days :: "duration \<Rightarrow> int" where
  "whole_days d = trunc (f64 (hours d / 24))"

text \<open>\<open>Duration.String\<close>.\<close>

definition frac_text :: "nat \<Rightarrow> nat \<Rightarrow> string" where
  "frac_text prec v =
     (let r = v mod 10 ^ prec;
          ds = (let s = show_nat r in replicate (prec - length s) (CHR ''0'') @ s);
          ts = rev (dropWhile (\<lambda>c. c = CHR ''0'') (rev ds))
      in if r = 0 then '''' else CHR ''.'' # ts)"

definition duration_string :: "duration \<Rightarrow> string" where
  "duration_string d =
     (let u = nat \<bar>d\<bar>;
          body =
            (if u = 0 then ''0s''
             else if u < 1000 then show_nat u @ ''ns''
             else if u < 1000000 then show_nat (u div 1000) @ frac_text 3 u @ [CHR 0xC2, CHR 0xB5, CHR ''s'']
             else if u < 1000000000 then show_nat (u div 1000000) @ frac_text 6 u @ ''ms''
             else (let s = u div 1000000000; m = s div 60; h = m div 60 in
               (if h > 0 then show_nat h @ ''h'' else '''') @
               (if m > 0 then show_nat (m mod 60) @ ''m'' else '''') @
               show_nat (s mod 60) @ frac_text 9 u @ ''s''))
      in if d < 0 then CHR ''-'' # body else body)"

section \<open>Dates\<close>

definition leap :: "int \<Rightarrow> bool" where
  "leap y \<longleftrightarrow> y mod 4 = 0 \<and> (y mod 100 \<noteq> 0 \<or> y mod 400 = 0)"

definition days_in :: "int \<Rightarrow> int \<Rightarrow> int" where
  "days_in m y = (if m = 2 then (if leap y then 29 else 28) else if m \<in> {4, 6, 9, 11} then 30 else 31)"

text \<open>Days since the Unix epoch of a date, counting years from March.\<close>

definition days_of :: "int \<times> int \<times> int \<Rightarrow> int" where
  "days_of ymd =
     (case ymd of (y0, m, d) \<Rightarrow>
        let y = (if m \<le> 2 then y0 - 1 else y0); era = y div 400; yoe = y mod 400;
            mp = (if m > 2 then m - 3 else m + 9);
            doy = (153 * mp + 2) div 5 + d - 1;
            doe = 365 * yoe + yoe div 4 - yoe div 100 + doy
        in 146097 * era + doe - 719468)"

definition date_of :: "int \<Rightarrow> int \<times> int \<times> int" where
  "date_of days =
     (let z = days + 719468; era = z div 146097; doe = z mod 146097;
          yoe = (doe - doe div 1460 + doe div 36524 - doe div 146096) div 365;
          doy = doe - (365 * yoe + yoe div 4 - yoe div 100);
          mp = (5 * doy + 2) div 153;
          d = doy - (153 * mp + 2) div 5 + 1;
          m = (if mp < 10 then mp + 3 else mp - 9)
      in (yoe + 400 * era + (if m \<le> 2 then 1 else 0), m, d))"

definition day_length :: duration where "day_length = 24 * hour"

definition pad2 :: "int \<Rightarrow> string" where
  "pad2 n = (if n < 10 then CHR ''0'' # show_int n else show_int n)"

definition pad4 :: "int \<Rightarrow> string" where
  "pad4 n = (let s = show_int \<bar>n\<bar>; z = replicate (4 - length s) (CHR ''0'') @ s
             in if n < 0 then CHR ''-'' # z else z)"

text \<open>\<open>t.Format("02/01/2006")\<close>.\<close>

definition date_text :: "time \<Rightarrow> string" where
  "date_text t = (case date_of (t div day_length) of (y, m, d) \<Rightarrow>
     pad2 d @ ''/'' @ pad2 m @ ''/'' @ pad4 y)"

text \<open>\<open>time.Parse("2006-01-02", s)\<close>: fixed fields of digits and an existing day.\<close>

definition fixed_num :: "string \<Rightarrow> int option" where
  "fixed_num s = (if s \<noteq> [] \<and> (\<forall>c\<in>set s. digit_val c \<noteq> None) then map_option int (read_digits 0 s) else None)"

definition parse_date :: "string \<Rightarrow> time option" where
  "parse_date s =
     (if length s = 10 \<and> s ! 4 = CHR ''-'' \<and> s ! 7 = CHR ''-''
      then (case (fixed_num (take 4 s), fixed_num (take 2 (drop 5 s)), fixed_num (drop 8 s)) of
              (Some y, Some m, Some d) \<Rightarrow>
                if 1 \<le> m \<and> m \<le> 12 \<and> 1 \<le> d \<and> d \<le> days_in m y
                then Some (days_of (y, m, d) * day_length) else None
            | _ \<Rightarrow> None)
      else None)"

section \<open>Messages\<close>

text \<open>
  The French texts of the program, written in ASCII: an accent before its letter stands for
  the letter's UTF-8 bytes, \<open><<\<close> and \<open>>>\<close> for the guillemets, \<open>--\<close> for the dash.
\<close>

definition accented :: "char \<Rightarrow> char \<Rightarrow> string option" where
  "accented a b = map_of
     [((CHR ''~'', CHR ''e''), u_eacute), ((CHR ''~'', CHR ''E''), u_Eacute),
      ((CHR 0x60, CHR ''e''), u_egrave), ((CHR ''^'', CHR ''e''), u_ecirc),
      ((CHR 0x60, CHR ''a''), u_agrave), ((CHR ''^'', CHR ''o''), u_ocirc),
      ((CHR ''^'', CHR ''u''), u_ucirc), ((CHR ''~'', CHR ''c''), u_ccedil),
      ((CHR ''<'', CHR ''<''), u_laquo), ((CHR ''>'', CHR ''>''), u_raquo),
      ((CHR ''-'', CHR ''-''), u_emdash)] (a, b)"

fun fr :: "string \<Rightarrow> string" where
  "fr (a # b # s) = (case accented a b of None \<Rightarrow> a # fr (b # s) | Some u \<Rightarrow> u @ fr s)"
| "fr s = s"

declare fr.simps [simp del]

section \<open>Rounding errors\<close>

text \<open>
  \<open>f64\<close> is within one part in two to the 53 of its argument; so three chained operations, a
  ratio of two parts as a percentage, stay within a ten-thousandth.
\<close>

lemma bit_length_pos: "0 < n \<Longrightarrow> 0 < bit_length n"
  by (subst bit_length.simps) simp

lemma bit_length_upper: "n < 2 ^ bit_length n"
proof (induction n rule: bit_length.induct)
  case (1 n)
  show ?case
  proof (cases "n = 0")
    case False
    with 1 have "n div 2 < 2 ^ bit_length (n div 2)" by simp
    then have "n < 2 * 2 ^ bit_length (n div 2)" by linarith
    with False show ?thesis by (subst bit_length.simps) simp
  qed simp
qed

lemma bit_length_lower: "0 < n \<Longrightarrow> 2 ^ (bit_length n - 1) \<le> n"
proof (induction n rule: bit_length.induct)
  case (1 n)
  show ?case
  proof (cases "n div 2 = 0")
    case True
    with 1 have "n = 1" by linarith
    then show ?thesis by (simp add: bit_length.simps [of "Suc 0"] bit_length.simps [of 0])
  next
    case False
    with 1 have "2 ^ (bit_length (n div 2) - 1) \<le> n div 2" by simp
    then have "2 * 2 ^ (bit_length (n div 2) - 1) \<le> n" by linarith
    moreover have "0 < bit_length (n div 2)" using False by (simp add: bit_length_pos)
    ultimately show ?thesis using 1 by (simp add: bit_length.simps [of n] power_eq_if)
  qed
qed

lemma scale2_pos [simp]: "0 < scale2 e"
  by (simp add: scale2_def)

lemma scale2_powi: "scale2 e = power_int 2 e"
  by (simp add: scale2_def power_int_def power_divide power_one_over inverse_eq_divide)

lemma f64_exponent:
  assumes "0 < x" and "quotient_of x = (n, d)"
  shows "2 ^ 52 \<le> x / scale2 (int (bit_length (nat n)) - int (bit_length (nat d)) - 53)"
proof -
  have d: "0 < d" using assms(2) by (rule quotient_of_denom_pos)
  have x: "x = of_int n / of_int d" using assms(2) by (rule quotient_of_div)
  with assms(1) d have n: "0 < n" by (simp add: zero_less_divide_iff)
  let ?a = "bit_length (nat n)" and ?b = "bit_length (nat d)"
  have "2 ^ (?a - 1) \<le> nat n" using n by (intro bit_length_lower) simp
  then have "(2::int) ^ (?a - 1) \<le> n" using n by (metis int_nat_eq le_nat_iff less_le of_nat_numeral of_nat_power)
  then have lo: "(2::rat) ^ (?a - 1) \<le> of_int n" by (metis of_int_le_iff of_int_numeral of_int_power)
  have "nat d < 2 ^ ?b" by (rule bit_length_upper)
  then have "d < (2::int) ^ ?b" by (metis d nat_less_numeral_power_cancel_iff)
  then have hi: "of_int d \<le> (2::rat) ^ ?b" by (metis less_le of_int_le_iff of_int_numeral of_int_power)
  have a: "0 < ?a" using n by (simp add: bit_length_pos)
  have "power_int 2 (int ?a - int ?b - 53) * 2 ^ 52 = (2::rat) ^ (?a - 1) / 2 ^ ?b"
  proof -
    have "(2::rat) ^ (?a - 1) = power_int 2 (int ?a - 1)"
      using a by (simp add: power_int_def nat_diff_distrib flip: nat_minus_as_int)
    moreover have "power_int 2 (int ?a - int ?b - 53) * (2::rat) ^ 52 =
        power_int 2 (int ?a - int ?b - 53 + 52)"
      by (subst power_int_add) simp_all
    moreover have "int ?a - int ?b - 53 + 52 = (int ?a - 1) - int ?b" by simp
    moreover have "power_int (2::rat) ((int ?a - 1) - int ?b) = power_int 2 (int ?a - 1) / 2 ^ ?b"
      by (simp add: power_int_diff)
    ultimately show ?thesis by metis
  qed
  also have "\<dots> \<le> x"
    unfolding x using lo hi d n by (intro frac_le) auto
  finally show ?thesis
    by (simp add: scale2_powi pos_le_divide_eq mult.commute)
qed

lemma f64_error:
  assumes "0 \<le> x"
  shows "\<bar>f64 x - x\<bar> \<le> x / 2 ^ 53"
proof (cases "x = 0")
  case False
  with assms have x: "0 < x" by simp
  obtain n d where nd: "quotient_of x = (n, d)" by fastforce
  define e0 where "e0 = int (bit_length (nat n)) - int (bit_length (nat d)) - 53"
  define e where "e = (if x / scale2 e0 \<ge> 2 ^ 53 then e0 + 1 else e0)"
  have lo: "2 ^ 52 \<le> x / scale2 e"
  proof -
    have "2 ^ 52 \<le> x / scale2 e0" unfolding e0_def by (rule f64_exponent [OF x nd])
    moreover have "x / scale2 (e0 + 1) = x / scale2 e0 / 2"
      by (simp add: scale2_powi power_int_add)
    ultimately show ?thesis by (auto simp: e_def)
  qed
  have "sgn \<lfloor>sgn x\<rfloor> = 1" using x by simp
  then have f: "f64 x = of_int (round_even (x / scale2 e)) * scale2 e"
    using x by (simp add: f64_def nd Let_def e_def e0_def)
  have "\<bar>of_int (round_even (x / scale2 e)) - x / scale2 e\<bar> \<le> 1 / 2" by (rule round_even_near)
  then have "\<bar>of_int (round_even (x / scale2 e)) - x / scale2 e\<bar> * scale2 e \<le> 1 / 2 * scale2 e"
    by (intro mult_right_mono) (simp_all add: less_imp_le)
  moreover have "\<bar>of_int (round_even (x / scale2 e)) - x / scale2 e\<bar> * scale2 e = \<bar>f64 x - x\<bar>"
  proof -
    have "\<bar>of_int (round_even (x / scale2 e)) - x / scale2 e\<bar> * \<bar>scale2 e\<bar> =
      \<bar>(of_int (round_even (x / scale2 e)) - x / scale2 e) * scale2 e\<bar>" by (simp add: abs_mult)
    moreover have "(of_int (round_even (x / scale2 e)) - x / scale2 e) * scale2 e = f64 x - x"
      unfolding f left_diff_distrib using scale2_pos [of e] by (simp add: less_imp_neq [symmetric])
    moreover have "\<bar>scale2 e\<bar> = scale2 e" by (rule abs_of_pos [OF scale2_pos])
    ultimately show ?thesis by metis
  qed
  moreover have "1 / 2 * scale2 e \<le> x / 2 ^ 53"
    using lo scale2_pos [of e] by (simp add: pos_le_divide_eq)
  ultimately show ?thesis by linarith
qed (simp add: f64_def)

lemma f64_bounds:
  assumes "0 \<le> x"
  shows "f64 x \<le> x * (1 + 1 / 2 ^ 53)" "x * (1 - 1 / 2 ^ 53) \<le> f64 x" "0 \<le> f64 x"
proof -
  have e: "\<bar>f64 x - x\<bar> \<le> x / 2 ^ 53" by (rule f64_error [OF assms])
  moreover define w where "w = x / 2 ^ 53"
  ultimately have "\<bar>f64 x - x\<bar> \<le> w" by simp
  then have both: "f64 x \<le> x + w" "x - w \<le> f64 x" by linarith+
  have eq: "x * (1 + 1 / 2 ^ 53) = x + w" "x * (1 - 1 / 2 ^ 53) = x - w"
    unfolding w_def by (simp_all only: distrib_left right_diff_distrib mult_1_right times_divide_eq_right)
  show "f64 x \<le> x * (1 + 1 / 2 ^ 53)" and lo: "x * (1 - 1 / 2 ^ 53) \<le> f64 x"
    unfolding eq by (rule both)+
  have "0 \<le> x * (1 - 1 / 2 ^ 53)" using assms by (intro mult_nonneg_nonneg) simp_all
  from this lo show "0 \<le> f64 x" by (rule order_trans)
qed

lemma f64_ratio:
  assumes "0 \<le> c" and "c \<le> t" and "0 < t"
  shows "0 \<le> f64 (f64 (f64 c / f64 t) * 100)"
    "f64 (f64 (f64 c / f64 t) * 100) \<le> 100 * (c / t) + 1 / 10000"
proof -
  define u :: rat where "u = 1 / 2 ^ 53"
  have u: "0 \<le> u" "0 < 1 - u" by (simp_all add: u_def)
  note b = f64_bounds [folded u_def]
  have c: "0 \<le> f64 c" "f64 c \<le> c * (1 + u)" using b [OF assms(1)] by simp_all
  have t: "t * (1 - u) \<le> f64 t" using b(2) [of t] assms(3) by simp
  have tp: "0 < t * (1 - u)" using assms(3) u(2) by (rule mult_pos_pos)
  with t have ft: "0 < f64 t" by linarith
  have q: "0 \<le> f64 c / f64 t" using c(1) ft by simp
  have "f64 c / f64 t \<le> (c * (1 + u)) / (t * (1 - u))"
    using c t tp ft assms(1) u by (intro frac_le) auto
  then have r: "f64 c / f64 t \<le> c / t * ((1 + u) / (1 - u))" by simp
  have Q: "0 \<le> f64 (f64 c / f64 t)" "f64 (f64 c / f64 t) \<le> (f64 c / f64 t) * (1 + u)"
    using b [OF q] by simp_all
  have "(f64 c / f64 t) * (1 + u) \<le> (c / t * ((1 + u) / (1 - u))) * (1 + u)"
    using r u(1) by (intro mult_right_mono) auto
  with Q(2) have Q': "f64 (f64 c / f64 t) \<le> c / t * ((1 + u) / (1 - u)) * (1 + u)" by linarith
  have P: "0 \<le> f64 (f64 (f64 c / f64 t) * 100)"
    "f64 (f64 (f64 c / f64 t) * 100) \<le> f64 (f64 c / f64 t) * 100 * (1 + u)"
    using b [of "f64 (f64 c / f64 t) * 100"] Q(1) by simp_all
  show "0 \<le> f64 (f64 (f64 c / f64 t) * 100)" by (rule P(1))
  have "f64 (f64 c / f64 t) * 100 * (1 + u) \<le> c / t * ((1 + u) / (1 - u)) * (1 + u) * 100 * (1 + u)"
    using Q' u(1) by (intro mult_right_mono) auto
  also have "\<dots> = 100 * (c / t) * ((1 + u) * (1 + u) * (1 + u) / (1 - u))" by simp
  also have "(1 + u) * (1 + u) * (1 + u) / (1 - u) \<le> 1 + 1 / 1000000" by (simp add: u_def)
  then have "100 * (c / t) * ((1 + u) * (1 + u) * (1 + u) / (1 - u)) \<le> 100 * (c / t) * (1 + 1 / 1000000)"
    using assms by (intro mult_left_mono) auto
  also have "\<dots> = 100 * (c / t) + (c / t) * (1 / 10000)" by (simp add: algebra_simps)
  also have "(c / t) * (1 / 10000) \<le> 1 * (1 / 10000)"
    using assms by (intro mult_right_mono) auto
  finally show "f64 (f64 (f64 c / f64 t) * 100) \<le> 100 * (c / t) + 1 / 10000" using P(2) by linarith
qed

end
