(* ===== verification/Amarre_Health.thy ===== *)
theory Amarre_Health
  imports Amarre_Fleet Amarre_Time
begin

text \<open>
  The health report of a host (\<open>fleet/health.go\<close>): its record, the derived durations and dates,
  and its retrieval.

  Fields of type \<open>int\<close> and \<open>int64\<close> are 64-bit integers read as \<^typ>\<open>int\<close>; the load averages,
  which no code reads, are left out. The timers are a Go map: the list holds its entries in
  the order a loop over them visits.
\<close>

record last_upgrade =
  lu_at :: int
  lu_count :: int
  lu_auto :: bool
  lu_packages :: "string list"

record filesystem =
  fs_mount :: string
  fs_size :: int
  fs_avail :: int
  fs_pct :: int

record backup_status =
  bs_backup_at :: int
  bs_backup_ok :: bool
  bs_check_at :: int
  bs_check_ok :: bool
  bs_check_dur :: int
  bs_check_error :: string
  bs_check_kind :: string
  bs_deep_at :: int
  bs_deep_ok :: bool
  bs_deep_dur :: int
  bs_deep_error :: string
  bs_deep_subset :: string
  bs_deep_kind :: string

record local_probe =
  lp_url :: string
  lp_up :: bool
  lp_status :: int
  lp_attempts :: int
  lp_latency_ms :: int
  lp_err :: string
  lp_checked_at :: int
  lp_cert_expiry_raw :: string

record timer_state =
  ti_active :: bool
  ti_next :: string

record health =
  hl_collected_at :: int
  hl_uptime_s :: int
  hl_boot_time :: int
  hl_reboot_required :: bool
  hl_reboot_packages :: "string list"
  hl_cpus :: int
  hl_mem_total :: int
  hl_mem_available :: int
  hl_swap_total :: int
  hl_swap_used :: int
  hl_filesystems :: "filesystem list"
  hl_failed_units :: "string list"
  hl_oom_7d :: int
  hl_io_errors_7d :: int
  hl_updates_total :: int
  hl_updates_security :: int
  hl_last_unattended :: int
  hl_last_upgrade :: last_upgrade
  hl_os :: string
  hl_os_eol :: string
  hl_local_probe :: "local_probe option"
  hl_backup :: backup_status
  hl_timers :: "(string \<times> timer_state) list"

definition upgrade_age :: "time \<Rightarrow> last_upgrade \<Rightarrow> duration" where
  "upgrade_age now u = (if lu_at u = 0 then 0 else time_sub now (of_unix (lu_at u)))"

definition upgrade_time :: "last_upgrade \<Rightarrow> time" where
  "upgrade_time u = of_unix (lu_at u)"

definition uptime :: "health \<Rightarrow> duration" where
  "uptime h = wrap64 (hl_uptime_s h * second)"

definition eol_date :: "health \<Rightarrow> time option" where
  "eol_date h = (if hl_os_eol h = '''' then None else parse_date (hl_os_eol h))"

definition fetch_health ::
  "(string \<Rightarrow> fleet_error + string) \<Rightarrow> (string \<Rightarrow> string + health) \<Rightarrow> fleet_error + health" where
  "fetch_health run unjson =
     (case run ''health'' of
        Inl e \<Rightarrow> Inl e
      | Inr out \<Rightarrow> (case unjson out of Inl m \<Rightarrow> Inl (BadHealth m) | Inr h \<Rightarrow> Inr h))"

text \<open>The report of a host on which nothing is wrong and nothing is known: Go's zero value.\<close>

definition zero_backup :: backup_status where
  "zero_backup = \<lparr>bs_backup_at = 0, bs_backup_ok = False, bs_check_at = 0, bs_check_ok = False,
     bs_check_dur = 0, bs_check_error = '''', bs_check_kind = '''', bs_deep_at = 0,
     bs_deep_ok = False, bs_deep_dur = 0, bs_deep_error = '''', bs_deep_subset = '''',
     bs_deep_kind = ''''\<rparr>"

definition zero_health :: health where
  "zero_health = \<lparr>hl_collected_at = 0, hl_uptime_s = 0, hl_boot_time = 0,
     hl_reboot_required = False, hl_reboot_packages = [], hl_cpus = 0, hl_mem_total = 0,
     hl_mem_available = 0, hl_swap_total = 0, hl_swap_used = 0, hl_filesystems = [],
     hl_failed_units = [], hl_oom_7d = 0, hl_io_errors_7d = 0, hl_updates_total = 0,
     hl_updates_security = 0, hl_last_unattended = 0,
     hl_last_upgrade = \<lparr>lu_at = 0, lu_count = 0, lu_auto = False, lu_packages = []\<rparr>,
     hl_os = '''', hl_os_eol = '''', hl_local_probe = None, hl_backup = zero_backup,
     hl_timers = []\<rparr>"

text \<open>A test whether a report's age is stale reads the instants, not the saturated duration.\<close>

lemma upgrade_age_gt:
  "lu_at u \<noteq> 0 \<Longrightarrow> in_int64 d \<Longrightarrow> d \<noteq> 2 ^ 63 - 1 \<Longrightarrow>
   d < upgrade_age now u \<longleftrightarrow> of_unix (lu_at u) + d < now"
  by (simp add: upgrade_age_def time_sub_gt_iff)

end
