(* ===== verification/Amarre_View.thy ===== *)
theory Amarre_View
  imports Amarre_Config Amarre_Store_Facts
begin

text \<open>
  The fleet view of package \<open>collector\<close>: the state of a host as the operator sees it
  (\<open>State\<close>, \<open>HostView\<close>), composed from the last check of each configured host (\<open>Fleet\<close>), and
  the totals of the summary (\<open>Sum\<close>).
\<close>

datatype host_state = StateOK | StateOverdue | StateUnknown | StateNoBackup

definition state_text :: "host_state \<Rightarrow> string" where
  "state_text s = (case s of StateOK \<Rightarrow> ''ok'' | StateOverdue \<Rightarrow> ''overdue''
     | StateUnknown \<Rightarrow> ''unknown'' | StateNoBackup \<Rightarrow> ''nobackup'')"

record host_view =
  hv_name :: string
  hv_state :: host_state
  hv_age :: duration
  hv_snapshot_id :: string
  hv_snapshot_at :: time
  hv_size :: int
  hv_repo_size :: int
  hv_err :: string
  hv_collected_at :: time
  hv_expect :: duration

definition never_collected :: string where
  "never_collected = ''jamais collect'' @ u_eacute"

text \<open>One turn of the loop: the view of a host from its last check, if it has one.\<close>

definition view_of :: "time \<Rightarrow> host_config \<Rightarrow> check option \<Rightarrow> host_view" where
  "view_of now h c =
     (let v = \<lparr>hv_name = hc_name h, hv_state = StateOK, hv_age = 0, hv_snapshot_id = '''',
               hv_snapshot_at = zero_time, hv_size = 0, hv_repo_size = 0, hv_err = '''',
               hv_collected_at = zero_time, hv_expect = hc_expect h\<rparr>
      in case c of
           None \<Rightarrow> v\<lparr>hv_state := StateUnknown, hv_err := never_collected\<rparr>
         | Some ch \<Rightarrow>
             if \<not> ck_reachable ch
             then v\<lparr>hv_state := StateUnknown, hv_err := ck_err ch, hv_collected_at := ck_collected ch\<rparr>
             else if is_zero (ck_snap_at ch)
             then v\<lparr>hv_state := StateNoBackup, hv_collected_at := ck_collected ch\<rparr>
             else (let age = time_sub now (ck_snap_at ch) in
               v\<lparr>hv_snapshot_id := ck_snap_id ch, hv_snapshot_at := ck_snap_at ch,
                 hv_size := ck_size ch, hv_repo_size := ck_repo_size ch,
                 hv_collected_at := ck_collected ch, hv_age := age,
                 hv_state := (if age > hc_expect h then StateOverdue else StateOK)\<rparr>))"

definition checks_by_host :: "check list \<Rightarrow> string \<rightharpoonup> check" where
  "checks_by_host cs = foldl (\<lambda>m c. m(ck_host c \<mapsto> c)) Map.empty cs"

definition fleet_view :: "time \<Rightarrow> config \<Rightarrow> db \<Rightarrow> store_error + host_view list" where
  "fleet_view now cfg d =
     (case latest_checks d of
        Inl e \<Rightarrow> Inl e
      | Inr cs \<Rightarrow>
          let by_host = checks_by_host cs
          in Inr (map (\<lambda>h. view_of now h (by_host (hc_name h))) (cfg_hosts cfg)))"

text \<open>The ratio of the two sums, a float, is printed only; the integer totals are modelled.\<close>

record totals =
  tot_hosts :: int
  tot_alerts :: int
  tot_protected :: int
  tot_repo_size :: int

definition sum_one :: "totals \<Rightarrow> host_view \<Rightarrow> totals" where
  "sum_one t h =
     t\<lparr>tot_alerts := (if hv_state h \<noteq> StateOK then wrap64 (tot_alerts t + 1) else tot_alerts t),
       tot_protected := wrap64 (tot_protected t + hv_size h),
       tot_repo_size := wrap64 (tot_repo_size t + hv_repo_size h)\<rparr>"

definition sum_fleet :: "host_view list \<Rightarrow> totals" where
  "sum_fleet hs =
     foldl sum_one
       \<lparr>tot_hosts = int (length hs), tot_alerts = 0, tot_protected = 0, tot_repo_size = 0\<rparr> hs"

section \<open>The view and the last checks\<close>

lemma checks_by_host_fold:
  "foldl (\<lambda>m c. m(ck_host c \<mapsto> c)) m cs h =
   (case find (\<lambda>c. ck_host c = h) (rev cs) of None \<Rightarrow> m h | Some c \<Rightarrow> Some c)"
proof (induction cs arbitrary: m rule: rev_induct)
  case (snoc c cs)
  then show ?case by (simp split: option.splits)
qed simp

lemma checks_by_host_find: "checks_by_host cs h = find (\<lambda>c. ck_host c = h) (rev cs)"
  by (simp add: checks_by_host_def checks_by_host_fold split: option.splits)

text \<open>In the answer of \<open>LatestChecks\<close> a host appears once, so the loop order is immaterial.\<close>

lemma find_rev_unique:
  "(\<And>x y. x \<in> set xs \<Longrightarrow> y \<in> set xs \<Longrightarrow> P x \<Longrightarrow> P y \<Longrightarrow> x = y) \<Longrightarrow>
   find P (rev xs) = find P xs"
proof (cases "find P xs")
  case None
  then have "find P (rev xs) = None" by (simp add: find_None_set)
  with None show ?thesis by simp
next
  case (Some x)
  assume unique: "\<And>x y. x \<in> set xs \<Longrightarrow> y \<in> set xs \<Longrightarrow> P x \<Longrightarrow> P y \<Longrightarrow> x = y"
  from Some have x: "x \<in> set xs" "P x" by (auto dest: find_SomeD)
  then have "find P (rev xs) = Some x"
    using unique by (intro find_unique) auto
  with Some show ?thesis by simp
qed

lemma latest_checks_one:
  assumes "store_inv d" and "latest_checks d = Inr cs"
    and "x \<in> set cs" "y \<in> set cs" "ck_host x = ck_host y"
  shows "x = y"
proof -
  have sorted: "sorted_wrt (<) (map cr_id (db_checks d))"
    using assms(1) by (simp add: store_inv_def ascending_def)
  have last: "map_option check_of (last_row (ck_host z) (db_checks d)) = Some z"
    if "z \<in> set cs" for z
  proof -
    from that assms(2) obtain r where r: "r \<in> set (db_checks d)" "is_latest (db_checks d) r"
      and z: "z = check_of r" by (auto simp: latest_checks_def err_iff)
    then have "last_row (cr_host r) (db_checks d) = Some r"
      using latest_iff_last [OF sorted] by blast
    with r z show ?thesis by (auto simp: check_of_def)
  qed
  have "Some x = Some y"
    unfolding last [OF assms(3), symmetric] last [OF assms(4), symmetric] assms(5) by (rule refl)
  then show ?thesis by (rule option.inject [THEN iffD1])
qed

lemma checks_by_host_latest:
  assumes "store_inv d" and "latest_checks d = Inr cs"
  shows "checks_by_host cs h = map_option check_of (last_row h (db_checks d))"
proof -
  have "find (\<lambda>c. ck_host c = h) (rev cs) = find (\<lambda>c. ck_host c = h) cs"
    by (rule find_rev_unique) (use latest_checks_one [OF assms] in auto)
  then show ?thesis
    by (simp add: checks_by_host_find latest_checks_find [OF assms])
qed

lemma view_of_name [simp]: "hv_name (view_of now h c) = hc_name h"
  by (simp add: view_of_def Let_def split: option.splits)

lemma view_of_expect [simp]: "hv_expect (view_of now h c) = hc_expect h"
  by (simp add: view_of_def Let_def split: option.splits)

text \<open>The state of a host in terms of its last check.\<close>

definition shown_state :: "time \<Rightarrow> duration \<Rightarrow> check option \<Rightarrow> host_state" where
  "shown_state now expect c =
     (case c of
        None \<Rightarrow> StateUnknown
      | Some ch \<Rightarrow>
          if \<not> ck_reachable ch then StateUnknown
          else if is_zero (ck_snap_at ch) then StateNoBackup
          else if now > ck_snap_at ch + expect then StateOverdue else StateOK)"

lemma view_of_state:
  "in_int64 (hc_expect h) \<Longrightarrow> hc_expect h \<noteq> 2 ^ 63 - 1 \<Longrightarrow>
   hv_state (view_of now h c) = shown_state now (hc_expect h) c"
  by (auto simp: view_of_def shown_state_def Let_def time_sub_gt_iff split: option.splits)

lemma fleet_view_Inr:
  assumes "store_inv d"
  shows "fleet_view now cfg d = Inr vs \<longleftrightarrow> \<not> db_fails d SLatestChecks \<and>
    vs = map (\<lambda>h. view_of now h (map_option check_of (last_row (hc_name h) (db_checks d)))) (cfg_hosts cfg)"
proof (cases "latest_checks d")
  case (Inl e)
  then show ?thesis by (auto simp: fleet_view_def latest_checks_def split: if_splits)
next
  case (Inr cs)
  then have "\<not> db_fails d SLatestChecks" by (auto simp: latest_checks_def split: if_splits)
  with Inr show ?thesis
    by (auto simp: fleet_view_def checks_by_host_latest [OF assms Inr])
qed

end
