(* ===== verification/Amarre_Sante.thy ===== *)
theory Amarre_Sante
  imports Amarre_Health Amarre_View
begin

text \<open>
  The supervision of package \<open>collector\<close> (\<open>sante.go\<close>): from the health report, the site probe
  and the backup state of a host to the list of alerts (\<open>Evaluate\<close>), its counts, its global
  state (\<open>State\<close>, \<open>Combined\<close>) and its one-line summary.

  \<open>evaluate\<close> is composed of one definition per section of the Go function, in its order; all
  the clock readings of one evaluation are the argument \<open>now\<close>.
\<close>

record probe =
  pr_url :: string
  pr_up :: bool
  pr_status :: int
  pr_latency :: duration
  pr_attempts :: int
  pr_err :: string
  pr_checked_at :: time
  pr_cert_expiry :: time

record alerte =
  al_niveau :: string
  al_sujet :: string
  al_detail :: string

record sante =
  sa_name :: string
  sa_crit :: int
  sa_warn :: int
  sa_health :: "health option"
  sa_probe :: "probe option"
  sa_view :: host_view
  sa_alertes :: "alerte list"

definition crit :: "string \<Rightarrow> string \<Rightarrow> alerte list" where
  "crit s d = [\<lparr>al_niveau = ''crit'', al_sujet = fr s, al_detail = d\<rparr>]"

definition warn :: "string \<Rightarrow> string \<Rightarrow> alerte list" where
  "warn s d = [\<lparr>al_niveau = ''warn'', al_sujet = fr s, al_detail = d\<rparr>]"

section \<open>Helpers of the source\<close>

definition check_kind :: "string \<Rightarrow> string \<Rightarrow> string" where
  "check_kind kind msg =
     (if kind \<noteq> '''' then kind
      else (let m = to_lower msg in
        if contains m ''lock'' \<or> contains m ''verrou'' then ''verrou''
        else if contains m ''does not exist'' \<or> contains m ''unable to open repository'' then ''absent''
        else if contains m ''wrong password'' \<or> contains m ''mot de passe'' then ''motdepasse''
        else ''indetermine''))"

text \<open>The digits of a positive number; a number that is not positive has none.\<close>

function itoa_digits :: "int \<Rightarrow> string" where
  "itoa_digits n = (if n > 0 then itoa_digits (n div 10) @ [char_of (48 + n mod 10)] else [])"
  by pat_completeness auto
termination by (relation "measure nat") auto

declare itoa_digits.simps [simp del]

definition itoa :: "int \<Rightarrow> string" where
  "itoa n =
     (if n = 0 then ''0''
      else if n < 0 then CHR ''-'' # itoa_digits (wrap64 (- n))
      else itoa_digits n)"

fun join_rest :: "string \<Rightarrow> string list \<Rightarrow> string" where
  "join_rest out [] = out"
| "join_rest out (v # vs) = join_rest (out @ '', '' @ v) vs"

definition join :: "string list \<Rightarrow> string" where
  "join s = (case s of [] \<Rightarrow> '''' | v # vs \<Rightarrow> join_rest v vs)"

section \<open>Evaluate\<close>

definition view_alerts :: "host_view \<Rightarrow> duration \<Rightarrow> alerte list" where
  "view_alerts v expect =
     (case hv_state v of
        StateOverdue \<Rightarrow> crit ''Sauvegarde en retard''
          (fr ''Aucun snapshot dans la fen^etre attendue de '' @ duration_string expect @ ''.'')
      | StateNoBackup \<Rightarrow> crit ''Aucune sauvegarde'' (fr ''Le d~ep^ot ne contient aucun snapshot.'')
      | StateUnknown \<Rightarrow> crit ''H^ote injoignable'' (hv_err v)
      | StateOK \<Rightarrow> [])"

definition check_alerts :: "backup_status \<Rightarrow> alerte list" where
  "check_alerts bs =
     (if bs_check_at bs > 0 \<and> \<not> bs_check_ok bs
      then (let k = check_kind (bs_check_kind bs) (bs_check_error bs) in
        if k = ''verrou'' then warn ''V~erification impossible : d~ep^ot verrouill~e''
          (fr ''Un verrou orphelin bloque le contr^ole. Le bouton << D~everrouiller >> le retire ; rien n'indique une corruption.'')
        else if k = ''absent'' then crit ''D~ep^ot introuvable au moment du contr^ole'' (bs_check_error bs)
        else if k = ''indetermine'' then warn ''V~erification structurelle en ~echec''
          (fr ''Cause non d~etermin~ee : '' @ bs_check_error bs)
        else crit ''Int~egrit~e structurelle en ~echec'' (bs_check_error bs))
      else [])"

definition deep_alerts :: "backup_status \<Rightarrow> alerte list" where
  "deep_alerts bs =
     (if bs_deep_at bs > 0 \<and> \<not> bs_deep_ok bs
      then (let k = check_kind (bs_deep_kind bs) (bs_deep_error bs) in
        if k = ''verrou'' then warn ''Relecture impossible : d~ep^ot verrouill~e''
          (fr ''La v~erification approfondie n'a pas pu d~emarrer. Ce n'est pas un signe de corruption.'')
        else if k = ''absent'' then crit ''D~ep^ot introuvable `a la relecture'' (bs_deep_error bs)
        else if k = ''motdepasse'' then crit ''Mot de passe de d~ep^ot refus~e''
          (fr ''Le d~ep^ot existe mais ne s'ouvre pas.'')
        else if k = ''indetermine'' then warn ''Relecture en ~echec''
          (fr ''Cause non d~etermin~ee, relev~e ant~erieur au diagnostic d~etaill~e : '' @ bs_deep_error bs)
        else crit ''Corruption d~etect~ee `a la relecture'' (bs_deep_error bs))
      else [])"

definition never_checked_alerts :: "backup_status \<Rightarrow> alerte list" where
  "never_checked_alerts bs =
     (if bs_check_at bs = 0 then warn ''Int~egrit~e jamais v~erifi~ee''
        (fr ''Aucune v~erification depuis le raccordement de cet h^ote.'')
      else [])"

definition timer_alerts :: "string \<times> timer_state \<Rightarrow> alerte list" where
  "timer_alerts nt =
     (if \<not> ti_active (snd nt) then crit ''Planification d~esactiv~ee''
        (fst nt @ fr '' n'est pas actif : la sauvegarde a cess~e d'exister.'')
      else [])"

definition fs_alerts :: "filesystem \<Rightarrow> alerte list" where
  "fs_alerts f =
     (if fs_pct f \<ge> 92 then crit ''Disque presque plein''
        (fs_mount f @ fr '' `a '' @ itoa (fs_pct f) @ fr '' % -- la sauvegarde ~echouera avant d'~ecrire.'')
      else if fs_pct f \<ge> 85 then warn ''Disque `a surveiller''
        (fs_mount f @ fr '' `a '' @ itoa (fs_pct f) @ '' %.'')
      else [])"

definition mem_alerts :: "health \<Rightarrow> alerte list" where
  "mem_alerts h =
     (if hl_mem_total h > 0 \<and> wrap64 (hl_mem_available h * 10) < hl_mem_total h
      then warn ''M~emoire disponible faible'' (fr ''Moins de 10 % de m~emoire r~eellement disponible.'')
      else [])"

definition unit_alerts :: "health \<Rightarrow> alerte list" where
  "unit_alerts h =
     (if length (hl_failed_units h) > 0
      then crit ''Unit~e systemd en ~echec'' (join (hl_failed_units h)) else [])"

definition oom_alerts :: "health \<Rightarrow> alerte list" where
  "oom_alerts h =
     (if hl_oom_7d h > 0
      then warn ''Processus tu~es faute de m~emoire''
        (itoa (hl_oom_7d h) @ fr '' occurrences sur 7 jours -- un OOM pendant une sauvegarde laisse un verrou orphelin.'')
      else [])"

definition io_alerts :: "health \<Rightarrow> alerte list" where
  "io_alerts h =
     (if hl_io_errors_7d h > 0
      then crit ''Erreurs d'entr~ee-sortie''
        (itoa (hl_io_errors_7d h) @ fr '' sur 7 jours -- v~erifier le disque avant toute autre chose.'')
      else [])"

definition reboot_alerts :: "health \<Rightarrow> alerte list" where
  "reboot_alerts h =
     (if hl_reboot_required h
      then warn ''Red~emarrage requis''
        (fr ''Le syst`eme tourne sur du code qui n'est plus celui install~e : '' @ join (hl_reboot_packages h))
      else [])"

definition stale_upgrade :: "time \<Rightarrow> last_upgrade \<Rightarrow> bool" where
  "stale_upgrade now lu \<longleftrightarrow> lu_at lu = 0 \<or> upgrade_age now lu > 30 * 24 * hour"

definition upgrade_alerts :: "time \<Rightarrow> health \<Rightarrow> alerte list" where
  "upgrade_alerts now h =
     (let lu = hl_last_upgrade h; stale = stale_upgrade now lu; sec = hl_updates_security h;
          days = itoa (whole_days (upgrade_age now lu))
      in if sec > 0 \<and> stale
         then crit ''Correctifs de s~ecurit~e non appliqu~es''
           (itoa sec @ fr '' en attente, et plus rien d'install~e '' @
            (if lu_at lu > 0 then ''il y a '' @ days @ '' jours'' else ''jamais'') @
            fr '' -- les mises `a jour automatiques ne passent plus.'')
         else if sec > 0
         then warn ''Correctifs de s~ecurit~e en attente''
           (itoa sec @ fr '' paquets. La derni`ere mise `a jour date d'il y a '' @ days @ '' jours.'')
         else if stale \<and> lu_at lu > 0
         then warn ''Aucune mise `a jour depuis longtemps''
           (fr ''Derni`ere installation il y a '' @ days @
            fr '' jours. V~erifier que unattended-upgrades tourne encore.'')
         else [])"

definition eol_alerts :: "time \<Rightarrow> health \<Rightarrow> alerte list" where
  "eol_alerts now h =
     (case eol_date h of
        None \<Rightarrow> []
      | Some eol \<Rightarrow>
          let d = time_sub eol now in
          if d < 0 then crit ''Syst`eme en fin de vie''
            (hl_os h @ fr '' n'est plus maintenu depuis le '' @ date_text eol @ ''.'')
          else if d < 90 * 24 * hour then crit ''Fin de support imminente''
            (hl_os h @ fr '' cesse d'^etre maintenu le '' @ date_text eol @ ''.'')
          else if d < 180 * 24 * hour then warn ''Fin de support approchante''
            (hl_os h @ '' jusqu'au '' @ date_text eol @ ''.'')
          else [])"

definition health_alerts :: "time \<Rightarrow> health \<Rightarrow> alerte list" where
  "health_alerts now h =
     check_alerts (hl_backup h) @ deep_alerts (hl_backup h) @ never_checked_alerts (hl_backup h) @
     concat (map timer_alerts (hl_timers h)) @ concat (map fs_alerts (hl_filesystems h)) @
     mem_alerts h @ unit_alerts h @ oom_alerts h @ io_alerts h @ reboot_alerts h @
     upgrade_alerts now h @ eol_alerts now h"

definition local_probe_alerts :: "health option \<Rightarrow> alerte list" where
  "local_probe_alerts ho =
     (case Option.bind ho hl_local_probe of
        None \<Rightarrow> []
      | Some lp \<Rightarrow>
          if lp_url lp \<noteq> '''' \<and> \<not> lp_up lp
          then crit ''Application sans r~eponse''
            (lp_url lp @ fr '' -- '' @ lp_err lp @ fr '' (sond~e depuis l'h^ote, apr`es '' @
             itoa (lp_attempts lp) @ '' tentatives)'')
          else [])"

definition cert_alerts :: "time \<Rightarrow> time \<Rightarrow> alerte list" where
  "cert_alerts now expiry =
     (if is_zero expiry then []
      else (let d = time_sub expiry now in
        if d < 0 then crit ''Certificat expir~e'' (''Depuis le '' @ date_text expiry @ ''.'')
        else if d < 15 * 24 * hour then crit ''Certificat proche de l'expiration''
          (''Le '' @ date_text expiry @ fr '' -- le renouvellement automatique a-t-il ~echou~e ?'')
        else []))"

definition probe_alerts :: "time \<Rightarrow> probe option \<Rightarrow> alerte list" where
  "probe_alerts now po =
     (case po of
        None \<Rightarrow> []
      | Some p \<Rightarrow>
          (if \<not> pr_up p
           then crit ''Site indisponible''
             (pr_url p @ fr '' -- '' @ pr_err p @ fr '' (apr`es '' @ itoa (pr_attempts p) @ fr '' tentatives espac~ees)'')
           else []) @
          cert_alerts now (pr_cert_expiry p))"

definition evaluate :: "time \<Rightarrow> duration \<Rightarrow> sante \<Rightarrow> sante" where
  "evaluate now expect s =
     s\<lparr>sa_alertes := sa_alertes s @
        view_alerts (sa_view s) expect @
        (case sa_health s of
           Some h \<Rightarrow> health_alerts now h
         | None \<Rightarrow> warn ''Relev~e de sant~e indisponible'' (fr ''L'h^ote n'a pas encore r~epondu au relev~e.'')) @
        local_probe_alerts (sa_health s) @
        probe_alerts now (sa_probe s)\<rparr>"

section \<open>Counting, ordering, summarising\<close>

definition count_alert :: "sante \<Rightarrow> alerte \<Rightarrow> sante" where
  "count_alert s a =
     (if al_niveau a = ''crit'' then s\<lparr>sa_crit := sa_crit s + 1\<rparr> else s\<lparr>sa_warn := sa_warn s + 1\<rparr>)"

text \<open>
  One turn of the loop of \<open>SanteFleet\<close>: the metadata decoded, or nothing when it is absent or
  unreadable.
\<close>

definition sante_of :: "time \<Rightarrow> host_view \<Rightarrow> health option \<Rightarrow> probe option \<Rightarrow> sante" where
  "sante_of now v h p =
     (let s = evaluate now (hv_expect v)
                \<lparr>sa_name = hv_name v, sa_crit = 0, sa_warn = 0, sa_health = h,
                 sa_probe = (case p of None \<Rightarrow> None | Some pr \<Rightarrow> if pr_url pr \<noteq> '''' then Some pr else None),
                 sa_view = v, sa_alertes = []\<rparr>
      in foldl count_alert s (sa_alertes s))"

definition graver :: "sante \<Rightarrow> sante \<Rightarrow> bool" where
  "graver a b =
     (if sa_crit a \<noteq> sa_crit b then sa_crit a > sa_crit b
      else if sa_warn a \<noteq> sa_warn b then sa_warn a > sa_warn b
      else sa_name a < sa_name b)"

text \<open>
  \<open>loadMeta\<close>: the stored text through the JSON decoder of the type. Decoders are parameters;
  the record keeps what it decodes from the two kinds the program reads here.
\<close>

definition load_meta :: "(string \<Rightarrow> 'a option) \<Rightarrow> string \<Rightarrow> string \<Rightarrow> db \<Rightarrow> 'a option" where
  "load_meta unjson host kind d =
     (case get_meta host kind d of Inl e \<Rightarrow> None | Inr (payload, _) \<Rightarrow> unjson payload)"

definition sante_fleet ::
  "(string \<Rightarrow> health option) \<Rightarrow> (string \<Rightarrow> probe option) \<Rightarrow> time \<Rightarrow> config \<Rightarrow> db
     \<Rightarrow> store_error + sante list" where
  "sante_fleet unhealth unprobe now cfg d =
     (case fleet_view now cfg d of
        Inl e \<Rightarrow> Inl e
      | Inr views \<Rightarrow>
          Inr (slice_stable graver
            (map (\<lambda>v. sante_of now v (load_meta unhealth (hv_name v) ''health'' d)
                                 (load_meta unprobe (hv_name v) ''probe'' d)) views)))"

definition sante_state :: "sante \<Rightarrow> string" where
  "sante_state s = (if sa_crit s > 0 then ''crit'' else if sa_warn s > 0 then ''warn'' else ''ok'')"

definition summary :: "sante \<Rightarrow> string" where
  "summary s =
     (if sa_alertes s = [] then ''''
      else (let parts = map al_sujet (sa_alertes s);
                shown = (if length parts > 3 then take 3 parts else parts)
            in join_with ('' '' @ u_middot @ '' '') shown))"

definition combined :: "host_view \<Rightarrow> sante \<Rightarrow> bool \<Rightarrow> string" where
  "combined v s known =
     (if hv_state v \<in> {StateOverdue, StateNoBackup, StateUnknown} then ''crit''
      else if \<not> known then ''ok''
      else if sa_crit s > 0 then ''crit''
      else if sa_warn s > 0 then ''warn''
      else ''ok'')"

end
