(* ===== verification/Amarre_Interleave.thy ===== *)
theory Amarre_Interleave
  imports "HOL-Library.Multiset"
begin

text \<open>
  Programs that run at the same time, in general: a program is a list of atomic actions, and an
  interleaving of several programs takes the next action of any of them until all are done. The
  contract \<open>view\<close> is for what an action shows of the state: a part that some actions change
  as a function of that part alone, and the others leave. Such a part ends the same in two runs
  that take the actions on it in the same order.
\<close>

section \<open>Interleavings\<close>

inductive interleaves :: "'a list list \<Rightarrow> 'a list \<Rightarrow> bool" where
  all_done: "(\<And>t. t \<in> set ts \<Longrightarrow> t = []) \<Longrightarrow> interleaves ts []"
| one_moves: "i < length ts \<Longrightarrow> ts ! i = a # t \<Longrightarrow> interleaves (ts[i := t]) tr \<Longrightarrow> interleaves ts (a # tr)"

inductive_simps nothing_left: "interleaves ts []"

text \<open>One after the other is an interleaving.\<close>

lemma interleaves_skip: "interleaves ts tr \<Longrightarrow> interleaves ([] # ts) tr"
proof (induction rule: interleaves.induct)
  case (one_moves i ts a t tr)
  then show ?case by (intro interleaves.one_moves [where i = "Suc i" and t = t]) simp_all
qed (rule all_done, auto)

lemma interleaves_unskip: "interleaves us tr \<Longrightarrow> us = [] # ts \<Longrightarrow> interleaves ts tr"
proof (induction arbitrary: ts rule: interleaves.induct)
  case (one_moves i us a t tr)
  then obtain k where "i = Suc k" by (cases i) auto
  with one_moves show ?case by (intro interleaves.one_moves [where i = k and t = t]) simp_all
qed (auto intro: all_done)

lemma interleaves_idle: "(\<And>t. t \<in> set ts \<Longrightarrow> t = []) \<Longrightarrow> interleaves (ts @ us) tr \<Longrightarrow> interleaves us tr"
  by (induction ts) (auto dest: interleaves_unskip)

lemma interleaves_concat: "interleaves ts (concat ts)"
proof (induction ts)
  case (Cons t ts)
  have "interleaves (t # ts) (t @ concat ts)"
  proof (induction t)
    case (Cons a t)
    then show ?case by (auto intro: one_moves [where i = 0 and t = t])
  qed (simp add: interleaves_skip Cons.IH)
  then show ?case by simp
qed (auto intro: all_done)

text \<open>The library's \<open>shuffles\<close> are the interleavings of two programs.\<close>

lemma interleaves_shuffles: "tr \<in> shuffles xs ys \<Longrightarrow> interleaves [xs, ys] tr"
proof (induction xs ys arbitrary: tr rule: shuffles.induct)
  case (1 ys)
  then show ?case using interleaves_concat [of "[[], ys]"] by simp
next
  case (2 xs)
  then show ?case using interleaves_concat [of "[xs, []]"] by simp
next
  case (3 x xs y ys)
  from "3.prems" consider t where "tr = x # t" "t \<in> shuffles xs (y # ys)" | t where "tr = y # t" "t \<in> shuffles (x # xs) ys"
    by (auto simp: Cons_in_shuffles_iff)
  then show ?case
  proof cases
    case 1
    then show ?thesis using "3.IH"(1) one_moves [of 0 "[x # xs, y # ys]" x xs t] by simp
  next
    case 2
    then show ?thesis using "3.IH"(2) one_moves [of 1 "[x # xs, y # ys]" y ys t] by simp
  qed
qed

lemma interleaves_mset: "interleaves ts tr \<Longrightarrow> mset tr = mset (concat ts)"
proof (induction rule: interleaves.induct)
  case (one_moves i ts a t tr)
  have "ts = take i ts @ (a # t) # drop (Suc i) ts"
    using id_take_nth_drop [OF one_moves.hyps(1)] one_moves.hyps(2) by simp
  then have "mset (concat ts) = mset (concat (take i ts)) + add_mset a (mset t) + mset (concat (drop (Suc i) ts))"
    by (metis append.assoc append_Cons concat.simps(2) concat_append mset.simps(2) mset_append)
  with one_moves show ?case by (simp add: upd_conv_take_nth_drop)
qed (induction ts; simp)

text \<open>A part of the actions is interleaved as well, and one program alone runs as it is.\<close>

lemma interleaves_filter: "interleaves ts tr \<Longrightarrow> interleaves (map (filter P) ts) (filter P tr)"
proof (induction rule: interleaves.induct)
  case (one_moves i ts a t tr)
  show ?case
  proof (cases "P a")
    case True
    have "interleaves (map (filter P) ts) (a # filter P tr)"
      by (rule interleaves.one_moves [where i = i and t = "filter P t"])
        (use one_moves True in \<open>simp_all add: map_update\<close>)
    with True show ?thesis by simp
  next
    case False
    have "map (filter P) (ts[i := t]) = map (filter P) ts"
      using one_moves.hyps False by (metis filter.simps(2) list_update_id map_update nth_map)
    with one_moves False show ?thesis by simp
  qed
qed (fastforce intro!: all_done)

lemma interleaves_alone:
  "interleaves ts tr \<Longrightarrow> i < length ts \<Longrightarrow> (\<And>j. j < length ts \<Longrightarrow> j \<noteq> i \<Longrightarrow> ts ! j = []) \<Longrightarrow> tr = ts ! i"
proof (induction rule: interleaves.induct)
  case (one_moves k ts a t tr)
  then have "k = i" by fastforce
  with one_moves show ?case by simp
qed (metis nth_mem)

lemma interleaves_none: "interleaves ts tr \<Longrightarrow> (\<And>t. t \<in> set ts \<Longrightarrow> t = []) \<Longrightarrow> tr = []"
  by (erule interleaves.cases) (auto simp: in_set_conv_nth)

lemma filter_only: "distinct xs \<Longrightarrow> x \<in> set xs \<Longrightarrow> filter (\<lambda>y. y = x) xs = [x]"
  by (induction xs) (auto simp: filter_empty_conv)

text \<open>Programs whose actions carry the program's key: the actions with a key are that program.\<close>

lemma interleaves_key:
  assumes "interleaves (map prog ks) tr" and "distinct (map f ks)"
    and "\<And>k a. k \<in> set ks \<Longrightarrow> a \<in> set (prog k) \<Longrightarrow> key a = f k"
  shows "filter (\<lambda>a. key a = n) tr = concat (map prog (filter (\<lambda>k. f k = n) ks))"
proof -
  have part: "filter (\<lambda>a. key a = n) (prog k) = (if f k = n then prog k else [])" if "k \<in> set ks" for k
    using assms(3) [OF that] by (auto simp: filter_empty_conv filter_id_conv)
  note inter = interleaves_filter [OF assms(1), of "\<lambda>a. key a = n"]
  show ?thesis
  proof (cases "\<exists>i<length ks. f (ks ! i) = n")
    case True
    then obtain i where i: "i < length ks" "f (ks ! i) = n" by blast
    have other: "f (ks ! j) \<noteq> n" if "j < length ks" "j \<noteq> i" for j
      using that i assms(2) by (metis length_map nth_eq_iff_index_eq nth_map)
    have "map (filter (\<lambda>a. key a = n)) (map prog ks) ! j = []" if "j < length ks" "j \<noteq> i" for j
      using that other part by simp
    then have "filter (\<lambda>a. key a = n) tr = prog (ks ! i)"
      using interleaves_alone [OF inter, of i] i part by simp
    moreover have "filter (\<lambda>k. f k = n) ks = [ks ! i]"
    proof -
      have "filter (\<lambda>k. f k = n) ks = filter (\<lambda>k. k = ks ! i) ks"
        using other i by (intro filter_cong) (auto simp: in_set_conv_nth)
      moreover have "distinct ks" using assms(2) by (simp add: distinct_map)
      ultimately show ?thesis using i(1) by (simp add: filter_only)
    qed
    ultimately show ?thesis by simp
  next
    case False
    then have "filter (\<lambda>k. f k = n) ks = []" by (auto simp: filter_empty_conv in_set_conv_nth)
    moreover have "filter (\<lambda>a. key a = n) tr = []"
      using interleaves_none [OF inter] part False by (fastforce simp: in_set_conv_nth)
    ultimately show ?thesis by simp
  qed
qed

lemma few_same: "mset xs = mset ys \<Longrightarrow> length ys \<le> 1 \<Longrightarrow> xs = ys"
  by (cases xs; cases ys) auto

lemma filter_same_key:
  assumes "distinct (map f ks)" and "mset ks' = mset ks"
  shows "filter (\<lambda>k. f k = n) ks' = filter (\<lambda>k. f k = n) ks"
proof (rule few_same)
  let ?l = "map f (filter (\<lambda>k. f k = n) ks)"
  have "length ?l = card (set ?l)" by (rule distinct_card [symmetric]) (rule distinct_map_filter [OF assms(1)])
  also have "\<dots> \<le> card {n}" by (rule card_mono) auto
  finally show "length (filter (\<lambda>k. f k = n) ks) \<le> 1" by simp
qed (simp add: assms(2))

lemma mset_concat_map: "mset xs = mset ys \<Longrightarrow> mset (concat (map f xs)) = mset (concat (map f ys))"
  by (simp add: mset_concat flip: sum_mset_sum_list)

text \<open>Reordered images are images of a reordering.\<close>

lemma reordered_images: "mset zs = mset (map f xs) \<Longrightarrow> \<exists>ys. zs = map f ys \<and> mset ys = mset xs"
proof (induction zs arbitrary: xs)
  case (Cons z zs)
  then obtain x where x: "x \<in> set xs" "z = f x" by (metis imageE list.set_intros(1) set_map set_mset_mset)
  then have split: "mset xs = add_mset x (mset (remove1 x xs))" by simp
  then have "mset zs = mset (map f (remove1 x xs))"
    using Cons.prems x(2) unfolding mset_map split by simp
  from Cons.IH [OF this] obtain ys where "zs = map f ys" "mset ys = mset (remove1 x xs)" by blast
  with split x(2) show ?case by (intro exI [of _ "x # ys"]) simp
qed simp

section \<open>Views\<close>

locale view =
  fixes act :: "'a \<Rightarrow> 's \<Rightarrow> 's" and see :: "'s \<Rightarrow> 'v" and touches :: "'a \<Rightarrow> bool" and effect :: "'a \<Rightarrow> 'v \<Rightarrow> 'v"
  assumes seen: "touches a \<Longrightarrow> see (act a s) = effect a (see s)"
    and unseen: "\<not> touches a \<Longrightarrow> see (act a s) = see s"
begin

lemma see_run: "see (fold act tr s) = fold effect (filter touches tr) (see s)"
  by (induction tr arbitrary: s) (simp_all add: seen unseen)

lemma same_view:
  "filter touches tr = filter touches tr' \<Longrightarrow> see s = see s' \<Longrightarrow> see (fold act tr s) = see (fold act tr' s')"
  by (simp add: see_run)

lemma unseen_run: "(\<And>a. a \<in> set tr \<Longrightarrow> \<not> touches a) \<Longrightarrow> see (fold act tr s) = see s"
  by (simp add: see_run)

text \<open>Where the effects commute, the order does not matter either.\<close>

lemma same_view_mset:
  assumes "\<And>a b. effect a \<circ> effect b = effect b \<circ> effect a" and "mset tr = mset tr'" and "see s = see s'"
  shows "see (fold act tr s) = see (fold act tr' s')"
proof -
  have "mset (filter touches tr) = mset (filter touches tr')" using assms(2) by simp
  then have "fold effect (filter touches tr) = fold effect (filter touches tr')"
    using assms(1) by (intro fold_multiset_equiv) auto
  with assms(3) show ?thesis by (simp add: see_run)
qed

end

end
