(* ===== verification/Amarre_Sante_Facts.thy ===== *)
theory Amarre_Sante_Facts
  imports Amarre_Sante Amarre_Interleave
begin

text \<open>
  What the supervision guarantees: the silence of the alert list characterised, the counts and
  the order of the page, the absence of a backup always critical, the agreement of the two
  states shown, and the number printing.
\<close>

section \<open>Alerts\<close>

lemma crit_level [simp]: "a \<in> set (crit s d) \<longleftrightarrow> a = \<lparr>al_niveau = ''crit'', al_sujet = fr s, al_detail = d\<rparr>"
  by (simp add: crit_def)

lemma warn_level [simp]: "a \<in> set (warn s d) \<longleftrightarrow> a = \<lparr>al_niveau = ''warn'', al_sujet = fr s, al_detail = d\<rparr>"
  by (simp add: warn_def)

lemma crit_nonempty [simp]: "crit s d \<noteq> []" and warn_nonempty [simp]: "warn s d \<noteq> []"
  by (simp_all add: crit_def warn_def)

lemmas alert_defs = view_alerts_def check_alerts_def deep_alerts_def never_checked_alerts_def
  timer_alerts_def fs_alerts_def mem_alerts_def unit_alerts_def oom_alerts_def io_alerts_def
  reboot_alerts_def upgrade_alerts_def eol_alerts_def local_probe_alerts_def cert_alerts_def
  probe_alerts_def

definition graded :: "alerte list \<Rightarrow> bool" where
  "graded as \<longleftrightarrow> (\<forall>a\<in>set as. al_niveau a = ''crit'' \<or> al_niveau a = ''warn'')"

named_theorems graded_facts \<open>every section of the evaluation grades its alerts\<close>

lemma graded_basic [simp, graded_facts]:
  "graded []" "graded (crit s d)" "graded (warn s d)" "graded (as @ bs) \<longleftrightarrow> graded as \<and> graded bs"
  by (auto simp: graded_def)

lemma graded_concat [graded_facts]: "(\<And>x. x \<in> set xs \<Longrightarrow> graded (f x)) \<Longrightarrow> graded (concat (map f xs))"
  by (auto simp: graded_def)

lemma graded_view [graded_facts]: "graded (view_alerts v e)"
  by (simp add: view_alerts_def split: host_state.splits)

lemma graded_backup [graded_facts]:
  "graded (check_alerts b)" "graded (deep_alerts b)" "graded (never_checked_alerts b)"
  by (simp_all add: check_alerts_def deep_alerts_def never_checked_alerts_def Let_def)

lemma graded_parts [graded_facts]: "graded (timer_alerts t)" "graded (fs_alerts f)"
  by (simp_all add: timer_alerts_def fs_alerts_def)

lemma graded_system [graded_facts]:
  "graded (mem_alerts h)" "graded (unit_alerts h)" "graded (oom_alerts h)" "graded (io_alerts h)"
  "graded (reboot_alerts h)" "graded (upgrade_alerts now h)" "graded (eol_alerts now h)"
  by (simp_all add: mem_alerts_def unit_alerts_def oom_alerts_def io_alerts_def reboot_alerts_def
      upgrade_alerts_def eol_alerts_def Let_def split: option.splits)

lemma graded_probes [graded_facts]: "graded (local_probe_alerts ho)" "graded (probe_alerts now po)"
  by (simp_all add: local_probe_alerts_def probe_alerts_def cert_alerts_def Let_def split: option.splits)

lemma graded_health [graded_facts]: "graded (health_alerts now h)"
  by (simp add: health_alerts_def graded_facts)

lemma graded_evaluate: "graded (sa_alertes s) \<Longrightarrow> graded (sa_alertes (evaluate now e s))"
  by (simp add: evaluate_def graded_facts split: option.splits)

section \<open>Counting\<close>

definition crits :: "alerte list \<Rightarrow> int" where
  "crits as = int (length (filter (\<lambda>a. al_niveau a = ''crit'') as))"

definition warns :: "alerte list \<Rightarrow> int" where
  "warns as = int (length (filter (\<lambda>a. al_niveau a \<noteq> ''crit'') as))"

lemma foldl_count:
  "sa_crit (foldl count_alert s as) = sa_crit s + crits as"
  "sa_warn (foldl count_alert s as) = sa_warn s + warns as"
  by (induction as arbitrary: s) (auto simp: count_alert_def crits_def warns_def)

lemma foldl_count_frame:
  "sa_name (foldl count_alert s as) = sa_name s" "sa_view (foldl count_alert s as) = sa_view s"
  "sa_alertes (foldl count_alert s as) = sa_alertes s" "sa_health (foldl count_alert s as) = sa_health s"
  "sa_probe (foldl count_alert s as) = sa_probe s"
  by (induction as arbitrary: s) (auto simp: count_alert_def)

text \<open>The alerts of a host, as one list.\<close>

definition host_alerts :: "time \<Rightarrow> host_view \<Rightarrow> health option \<Rightarrow> probe option \<Rightarrow> alerte list" where
  "host_alerts now v h p =
     view_alerts v (hv_expect v) @
     (case h of Some r \<Rightarrow> health_alerts now r
      | None \<Rightarrow> warn ''Relev~e de sant~e indisponible'' (fr ''L'h^ote n'a pas encore r~epondu au relev~e.'')) @
     local_probe_alerts h @
     probe_alerts now (case p of None \<Rightarrow> None | Some pr \<Rightarrow> if pr_url pr \<noteq> '''' then Some pr else None)"

lemma sante_of_fields:
  "sa_name (sante_of now v h p) = hv_name v" "sa_view (sante_of now v h p) = v"
  "sa_health (sante_of now v h p) = h"
  "sa_alertes (sante_of now v h p) = host_alerts now v h p"
  "sa_crit (sante_of now v h p) = crits (host_alerts now v h p)"
  "sa_warn (sante_of now v h p) = warns (host_alerts now v h p)"
  by (simp_all add: sante_of_def Let_def foldl_count foldl_count_frame evaluate_def host_alerts_def
      del: foldl_append)

lemma graded_host: "graded (host_alerts now v h p)"
  by (simp add: host_alerts_def graded_facts split: option.splits)

lemma crits_append: "crits (as @ bs) = crits as + crits bs"
  by (simp add: crits_def)

lemma crits_nonneg: "0 \<le> crits as" and warns_nonneg: "0 \<le> warns as"
  by (simp_all add: crits_def warns_def)

lemma no_counts_iff: "crits as \<le> 0 \<and> warns as \<le> 0 \<longleftrightarrow> as = []"
  by (cases as) (auto simp: crits_def warns_def)

lemma crits_pos: "a \<in> set as \<Longrightarrow> al_niveau a = ''crit'' \<Longrightarrow> 0 < crits as"
  by (auto simp: crits_def filter_empty_conv)

lemma bad_view_crit: "hv_state v \<noteq> StateOK \<Longrightarrow> 0 < crits (host_alerts now v h p)"
  by (cases "hv_state v")
    (auto simp: host_alerts_def view_alerts_def crits_append crits_def intro: add_pos_nonneg)

section \<open>The order of the page\<close>

interpretation sante: comparison graver
proof
  fix x y z :: sante
  show "graver x y \<Longrightarrow> \<not> graver y x"
    by (auto simp: graver_def split: if_splits)
  show "\<not> graver x y \<Longrightarrow> \<not> graver y z \<Longrightarrow> \<not> graver x z"
    by (fastforce simp: graver_def split: if_splits)
qed

lemma sante_fleet_Inr:
  "sante_fleet uh up now cfg d = Inr ss \<longleftrightarrow>
   (\<exists>vs. fleet_view now cfg d = Inr vs \<and>
      ss = slice_stable graver
        (map (\<lambda>v. sante_of now v (load_meta uh (hv_name v) ''health'' d)
                                (load_meta up (hv_name v) ''probe'' d)) vs))"
  by (auto simp: sante_fleet_def err_iff)

section \<open>Properties\<close>

text \<open>
  C15. The absence of a backup is never silent. In any database the program can reach, every
  configured host whose last recorded check is missing, failed, found no snapshot, or found one
  older than the host's expected interval, appears on the supervision page in state
  ``crit'', whatever its health report and its site probe say; and every configured host
  appears.
\<close>

theorem missing_backup_is_critical:
  assumes "store_reachable d" and "sante_fleet uh up now cfg d = Inr ss"
    and "h \<in> set (cfg_hosts cfg)" and "in_int64 (hc_expect h)" and "hc_expect h \<noteq> 2 ^ 63 - 1"
  shows "\<exists>s\<in>set ss. sa_name s = hc_name h \<and>
    (shown_state now (hc_expect h) (map_option check_of (last_row (hc_name h) (db_checks d))) \<noteq> StateOK
       \<longrightarrow> sante_state s = ''crit'')"
proof -
  let ?c = "map_option check_of (last_row (hc_name h) (db_checks d))"
  let ?v = "view_of now h ?c"
  let ?s = "sante_of now ?v (load_meta uh (hc_name h) ''health'' d) (load_meta up (hc_name h) ''probe'' d)"
  have inv: "store_inv d" using assms(1) by (rule reachable_inv)
  have "?s \<in> set ss"
    using assms(2,3) by (auto simp: sante_fleet_Inr fleet_view_Inr [OF inv])
  moreover have "sante_state ?s = ''crit''" if "shown_state now (hc_expect h) ?c \<noteq> StateOK"
    using that bad_view_crit [of ?v] view_of_state [OF assms(4,5), of now ?c]
    by (simp add: sante_state_def sante_of_fields)
  ultimately show ?thesis by (intro bexI [of _ ?s]) (auto simp: sante_of_fields)
qed

definition demo_host :: "string \<Rightarrow> host_config" where
  "demo_host n = host_defaults \<lparr>hc_name = n, hc_http_check = '''', hc_http_expect = 0, hc_addr = '''',
     hc_user = '''', hc_port = 0, hc_expect = 0, hc_disabled = False\<rparr>"

theorem missing_backup_is_critical_witness:
  "\<exists>ss. sante_fleet (\<lambda>_. None) (\<lambda>_. None) 0 (default_config\<lparr>cfg_hosts := [demo_host ''web'']\<rparr>)
       (empty_db\<lparr>db_fk := True\<rparr>) = Inr ss \<and>
     (\<exists>s\<in>set ss. sa_name s = ''web'' \<and> sante_state s = ''crit'')"
proof -
  let ?cfg = "default_config\<lparr>cfg_hosts := [demo_host ''web'']\<rparr>"
  let ?d = "empty_db\<lparr>db_fk := True\<rparr>"
  have r: "store_reachable ?d" by (rule reach_empty)
  have name: "hc_name (demo_host ''web'') = ''web''" by (simp add: demo_host_def)
  have expect: "hc_expect (demo_host ''web'') = 26 * hour"
    by (simp add: demo_host_def host_defaults_def)
  have rows: "db_checks ?d = []" by (simp add: empty_db_def)
  obtain ss where ss: "sante_fleet (\<lambda>_. None) (\<lambda>_. None) 0 ?cfg ?d = Inr ss"
    using reachable_inv [OF r] by (simp add: sante_fleet_Inr fleet_view_Inr) (simp add: empty_db_def)
  from missing_backup_is_critical [OF r ss, of "demo_host ''web''"]
  have "\<exists>s\<in>set ss. sa_name s = ''web'' \<and> sante_state s = ''crit''"
    unfolding name expect rows by (simp add: shown_state_def last_row_def in_int64_def go_time)
  with ss show ?thesis by blast
qed

text \<open>
  The supervision page. Each host's two counters are the numbers of its critical and of its
  other alerts, every alert has one of the two levels, the page holds exactly one entry per
  view in the fleet, and an entry never stands before one with more critical alerts, or with as
  many and more warnings.
\<close>

lemma sante_fleet_page:
  assumes "fleet_view now cfg d = Inr vs" and "sante_fleet uh up now cfg d = Inr ss"
  shows "mset (map sa_view ss) = mset vs \<and>
    (\<forall>s\<in>set ss. sa_name s = hv_name (sa_view s) \<and> graded (sa_alertes s) \<and>
       sa_crit s = crits (sa_alertes s) \<and> sa_warn s = warns (sa_alertes s)) \<and>
    (\<forall>i j. i < j \<longrightarrow> j < length ss \<longrightarrow>
       sa_crit (ss ! j) \<le> sa_crit (ss ! i) \<and>
       (sa_crit (ss ! j) = sa_crit (ss ! i) \<longrightarrow> sa_warn (ss ! j) \<le> sa_warn (ss ! i)))"
proof -
  define f where "f = (\<lambda>v. sante_of now v (load_meta uh (hv_name v) ''health'' d)
                              (load_meta up (hv_name v) ''probe'' d))"
  have ss: "ss = slice_stable graver (map f vs)"
    using assms by (auto simp: sante_fleet_Inr f_def)
  have "mset ss = image_mset f (mset vs)" unfolding ss by simp
  then have "mset (map sa_view ss) = image_mset (\<lambda>v. sa_view (f v)) (mset vs)"
    by (simp add: multiset.map_comp comp_def)
  then have "mset (map sa_view ss) = mset vs" by (simp add: f_def sante_of_fields)
  moreover have "\<forall>s\<in>set ss. sa_name s = hv_name (sa_view s) \<and> graded (sa_alertes s) \<and>
      sa_crit s = crits (sa_alertes s) \<and> sa_warn s = warns (sa_alertes s)"
    unfolding ss by (auto simp: f_def sante_of_fields graded_host)
  moreover have "sorted_wrt (\<lambda>x y. \<not> graver y x) ss"
    unfolding ss by (rule sante.sorted_slice_stable)
  then have "\<forall>i j. i < j \<longrightarrow> j < length ss \<longrightarrow> \<not> graver (ss ! j) (ss ! i)"
    by (simp add: sorted_wrt_iff_nth_less)
  then have "\<forall>i j. i < j \<longrightarrow> j < length ss \<longrightarrow>
       sa_crit (ss ! j) \<le> sa_crit (ss ! i) \<and>
       (sa_crit (ss ! j) = sa_crit (ss ! i) \<longrightarrow> sa_warn (ss ! j) \<le> sa_warn (ss ! i))"
    by (fastforce simp: graver_def split: if_splits)
  ultimately show ?thesis by blast
qed

lemma sante_fleet_page_demo:
  "\<exists>vs ss. fleet_view 0 (default_config\<lparr>cfg_hosts := [demo_host ''a'', demo_host ''b'']\<rparr>) empty_db = Inr vs \<and>
     sante_fleet (\<lambda>_. None) (\<lambda>_. None) 0
       (default_config\<lparr>cfg_hosts := [demo_host ''a'', demo_host ''b'']\<rparr>) empty_db = Inr ss \<and>
     mset (map sa_view ss) = mset vs \<and> length vs = 2"
proof -
  let ?cfg = "default_config\<lparr>cfg_hosts := [demo_host ''a'', demo_host ''b'']\<rparr>"
  have inv: "store_inv empty_db" by (simp add: store_inv_def empty_db_def ascending_def)
  obtain vs where vs: "fleet_view 0 ?cfg empty_db = Inr vs" and len: "length vs = 2"
    by (simp add: fleet_view_Inr [OF inv]) (simp add: empty_db_def)
  then obtain ss where ss: "sante_fleet (\<lambda>_. None) (\<lambda>_. None) 0 ?cfg empty_db = Inr ss"
    by (simp add: sante_fleet_Inr)
  from sante_fleet_page [OF vs ss] vs ss len show ?thesis by blast
qed

definition silent_health :: "time \<Rightarrow> health \<Rightarrow> bool" where
  "silent_health now h \<longleftrightarrow>
     bs_check_at (hl_backup h) \<noteq> 0 \<and>
     (bs_check_at (hl_backup h) > 0 \<longrightarrow> bs_check_ok (hl_backup h)) \<and>
     (bs_deep_at (hl_backup h) > 0 \<longrightarrow> bs_deep_ok (hl_backup h)) \<and>
     (\<forall>(n, t)\<in>set (hl_timers h). ti_active t) \<and>
     (\<forall>f\<in>set (hl_filesystems h). fs_pct f < 85) \<and>
     (hl_mem_total h > 0 \<longrightarrow> hl_mem_total h \<le> wrap64 (hl_mem_available h * 10)) \<and>
     hl_failed_units h = [] \<and> hl_oom_7d h \<le> 0 \<and> hl_io_errors_7d h \<le> 0 \<and>
     \<not> hl_reboot_required h \<and> hl_updates_security h \<le> 0 \<and>
     (lu_at (hl_last_upgrade h) > 0 \<longrightarrow>
        now \<le> of_unix (lu_at (hl_last_upgrade h)) + 30 * 24 * hour) \<and>
     (\<forall>eol. eol_date h = Some eol \<longrightarrow> now + 180 * 24 * hour \<le> eol) \<and>
     (\<forall>lp. hl_local_probe h = Some lp \<longrightarrow> lp_url lp = '''' \<or> lp_up lp)"

definition silent_probe :: "time \<Rightarrow> probe \<Rightarrow> bool" where
  "silent_probe now p \<longleftrightarrow> pr_url p = '''' \<or>
     pr_up p \<and> (is_zero (pr_cert_expiry p) \<or> now + 15 * 24 * hour \<le> pr_cert_expiry p)"

lemma time_sub_lt_iff: "in_int64 d \<Longrightarrow> d \<noteq> - (2 ^ 63) \<Longrightarrow> time_sub t u < d \<longleftrightarrow> t < u + d"
  by (auto simp: time_sub_def in_int64_def max_def min_def)

text \<open>Each section of the evaluation is silent under a plain condition.\<close>

named_theorems silent \<open>when a section of the evaluation raises nothing\<close>

lemma not_soon: "d = 15 * 24 * hour \<or> d = 180 * 24 * hour \<Longrightarrow> \<not> time_sub t now < d \<longleftrightarrow> now + d \<le> t"
  by (subst time_sub_lt_iff) (auto simp: in_int64_def go_time)

lemma silent_eol [silent]:
  "eol_alerts now h = [] \<longleftrightarrow> (\<forall>eol. eol_date h = Some eol \<longrightarrow> now + 180 * 24 * hour \<le> eol)"
proof (cases "eol_date h")
  case (Some eol)
  have pos: "0 < hour" by (simp add: go_time)
  have "eol_alerts now h = [] \<longleftrightarrow> \<not> time_sub eol now < 180 * 24 * hour"
    using pos by (simp add: eol_alerts_def Some Let_def)
  then show ?thesis by (simp add: Some not_soon)
qed (simp add: eol_alerts_def)

lemma silent_cert: "cert_alerts now t = [] \<longleftrightarrow> is_zero t \<or> now + 15 * 24 * hour \<le> t"
proof -
  have pos: "0 < hour" by (simp add: go_time)
  have "cert_alerts now t = [] \<longleftrightarrow> is_zero t \<or> \<not> time_sub t now < 15 * 24 * hour"
    using pos by (simp add: cert_alerts_def Let_def)
  then show ?thesis by (simp add: not_soon)
qed

lemma silent_upgrade [silent]:
  "upgrade_alerts now h = [] \<longleftrightarrow> hl_updates_security h \<le> 0 \<and>
    (lu_at (hl_last_upgrade h) > 0 \<longrightarrow> now \<le> of_unix (lu_at (hl_last_upgrade h)) + 30 * 24 * hour)"
proof -
  have age: "30 * 24 * hour < upgrade_age now u \<longleftrightarrow> of_unix (lu_at u) + 30 * 24 * hour < now"
    if "lu_at u \<noteq> 0" for u
    by (rule upgrade_age_gt [OF that]) (simp_all add: in_int64_def go_time)
  have "upgrade_alerts now h = [] \<longleftrightarrow> \<not> hl_updates_security h > 0 \<and>
      \<not> (stale_upgrade now (hl_last_upgrade h) \<and> lu_at (hl_last_upgrade h) > 0)"
    by (simp add: upgrade_alerts_def Let_def)
  moreover have "stale_upgrade now u \<longleftrightarrow> of_unix (lu_at u) + 30 * 24 * hour < now"
    if "lu_at u > 0" for u
    unfolding stale_upgrade_def using age [of u] that by simp
  ultimately show ?thesis by (auto simp: not_less)
qed

lemma silent_sections [silent]:
  "check_alerts b = [] \<longleftrightarrow> (bs_check_at b > 0 \<longrightarrow> bs_check_ok b)"
  "deep_alerts b = [] \<longleftrightarrow> (bs_deep_at b > 0 \<longrightarrow> bs_deep_ok b)"
  "never_checked_alerts b = [] \<longleftrightarrow> bs_check_at b \<noteq> 0"
  "timer_alerts nt = [] \<longleftrightarrow> ti_active (snd nt)"
  "fs_alerts f = [] \<longleftrightarrow> fs_pct f < 85"
  "mem_alerts h = [] \<longleftrightarrow> (hl_mem_total h > 0 \<longrightarrow> hl_mem_total h \<le> wrap64 (hl_mem_available h * 10))"
  "unit_alerts h = [] \<longleftrightarrow> hl_failed_units h = []"
  "oom_alerts h = [] \<longleftrightarrow> hl_oom_7d h \<le> 0"
  "io_alerts h = [] \<longleftrightarrow> hl_io_errors_7d h \<le> 0"
  "reboot_alerts h = [] \<longleftrightarrow> \<not> hl_reboot_required h"
  by (auto simp: check_alerts_def deep_alerts_def never_checked_alerts_def timer_alerts_def
      fs_alerts_def mem_alerts_def unit_alerts_def oom_alerts_def io_alerts_def reboot_alerts_def
      Let_def)

lemma silent_local [silent]:
  "local_probe_alerts (Some h) = [] \<longleftrightarrow> (\<forall>lp. hl_local_probe h = Some lp \<longrightarrow> lp_url lp = '''' \<or> lp_up lp)"
  by (auto simp: local_probe_alerts_def split: option.splits)

lemma silent_health_alerts:
  "health_alerts now h = [] \<and> local_probe_alerts (Some h) = [] \<longleftrightarrow> silent_health now h"
  by (simp add: health_alerts_def silent_health_def silent split_beta conj_ac)

lemma silent_probe_alerts:
  "probe_alerts now (case p of None \<Rightarrow> None | Some pr \<Rightarrow> if pr_url pr \<noteq> '''' then Some pr else None) = []
   \<longleftrightarrow> (\<forall>pr. p = Some pr \<longrightarrow> silent_probe now pr)"
  by (auto simp: probe_alerts_def silent_probe_def silent_cert split: option.splits)

lemma silent_view: "view_alerts v e = [] \<longleftrightarrow> hv_state v = StateOK"
  by (simp add: view_alerts_def split: host_state.splits)

text \<open>
  C20. When the page is silent. A host has no alert exactly when its backup is fresh, its health
  report is there, no integrity check has failed and a structural one has been made, every
  timer runs, no file system is at 85 per cent, memory is not short, no unit has failed, no
  process was killed, the disk made no errors, no reboot is pending, no security fix waits, the
  last upgrade is not a month old, the system is supported for 180 more days, and every probe
  answers, with a certificate good for 15 days.
\<close>

theorem silence_characterised:
  "sa_alertes (sante_of now v h p) = [] \<longleftrightarrow>
     hv_state v = StateOK \<and> (\<exists>r. h = Some r \<and> silent_health now r) \<and>
     (\<forall>pr. p = Some pr \<longrightarrow> silent_probe now pr)"
  using silent_health_alerts [of now]
  by (auto simp: sante_of_fields host_alerts_def silent_probe_alerts silent_view split: option.splits)

definition quiet_view :: host_view where
  "quiet_view = \<lparr>hv_name = ''web'', hv_state = StateOK, hv_age = 0, hv_snapshot_id = '''',
     hv_snapshot_at = 0, hv_size = 0, hv_repo_size = 0, hv_err = '''', hv_collected_at = 0,
     hv_expect = 26 * hour\<rparr>"

definition quiet_health :: health where
  "quiet_health = zero_health\<lparr>hl_backup := zero_backup\<lparr>bs_check_at := 1, bs_check_ok := True\<rparr>,
     hl_timers := [(''amarre.timer'', \<lparr>ti_active = True, ti_next = ''''\<rparr>)],
     hl_filesystems := [\<lparr>fs_mount = ''/'', fs_size = 100, fs_avail = 50, fs_pct = 50\<rparr>]\<rparr>"

theorem silence_characterised_witness:
  "sa_alertes (sante_of 0 quiet_view (Some quiet_health) None) = [] \<and>
   sa_alertes (sante_of 0 quiet_view None None) \<noteq> []"
  unfolding silence_characterised
  by (simp add: quiet_view_def quiet_health_def zero_health_def zero_backup_def silent_health_def
      eol_date_def)

text \<open>
  One state, two pages. The state the fleet page shows for a host, which looks at the
  backup first and at the alerts second, is the state of the supervision page, which counts
  alerts; a host without a supervision entry is shown ``ok'' only when its backup is.
\<close>

lemma combined_is_sante_state:
  "combined v (sante_of now v h p) True = sante_state (sante_of now v h p) \<and>
   (combined v s False = ''ok'' \<longleftrightarrow> hv_state v = StateOK)"
proof (cases "hv_state v = StateOK")
  case True
  then show ?thesis by (simp add: combined_def sante_state_def)
next
  case False
  then have "hv_state v \<in> {StateOverdue, StateNoBackup, StateUnknown}" by (cases "hv_state v") auto
  with bad_view_crit [OF False] show ?thesis
    by (auto simp: combined_def sante_state_def sante_of_fields)
qed

lemma health_alerts_crit:
  "a \<in> set (health_alerts now r) \<Longrightarrow> al_niveau a = ''crit'' \<Longrightarrow>
   0 < crits (host_alerts now v (Some r) p)"
  by (rule crits_pos [of a]) (auto simp: host_alerts_def)

text \<open>
  A stopped timer is critical. When one of a host's timers is not active the host is
  ``crit'' on both pages, however fresh its last backup is.
\<close>

lemma stopped_timer_is_critical:
  assumes "(n, t) \<in> set (hl_timers r)" and "\<not> ti_active t"
  shows "sante_state (sante_of now v (Some r) p) = ''crit'' \<and>
    combined v (sante_of now v (Some r) p) True = ''crit''"
proof -
  have "\<exists>a. a \<in> set (timer_alerts (n, t)) \<and> al_niveau a = ''crit''"
    using assms(2) by (simp add: timer_alerts_def)
  then obtain a where "a \<in> set (timer_alerts (n, t))" and crit: "al_niveau a = ''crit''" by blast
  with assms(1) have "a \<in> set (health_alerts now r)" by (auto simp: health_alerts_def)
  from health_alerts_crit [OF this crit] show ?thesis
    by (simp add: sante_state_def combined_def sante_of_fields)
qed

text \<open>
  The order of a Go map does not show. A host's timers are visited in an order that varies
  from run to run; the collection of alerts, the two counts and the state do not depend on it.
\<close>

lemma timer_order_irrelevant:
  assumes "mset ts = mset (hl_timers r)"
  shows "mset (sa_alertes (sante_of now v (Some (r\<lparr>hl_timers := ts\<rparr>)) p)) =
      mset (sa_alertes (sante_of now v (Some r) p)) \<and>
    sante_state (sante_of now v (Some (r\<lparr>hl_timers := ts\<rparr>)) p) = sante_state (sante_of now v (Some r) p)"
proof -
  let ?r = "r\<lparr>hl_timers := ts\<rparr>"
  have timers: "mset (concat (map timer_alerts ts)) = mset (concat (map timer_alerts (hl_timers r)))"
    by (rule mset_concat_map) (rule assms)
  have same: "mem_alerts ?r = mem_alerts r" "unit_alerts ?r = unit_alerts r"
    "oom_alerts ?r = oom_alerts r" "io_alerts ?r = io_alerts r" "reboot_alerts ?r = reboot_alerts r"
    "upgrade_alerts now ?r = upgrade_alerts now r"
    by (simp_all add: mem_alerts_def unit_alerts_def oom_alerts_def io_alerts_def reboot_alerts_def
        upgrade_alerts_def)
  have "eol_date ?r = eol_date r" by (simp add: eol_date_def)
  then have "eol_alerts now ?r = eol_alerts now r"
    by (cases "eol_date r") (simp_all add: eol_alerts_def Let_def)
  note same = same this
  have "local_probe_alerts (Some ?r) = local_probe_alerts (Some r)"
    by (simp add: local_probe_alerts_def)
  with timers same have m: "mset (host_alerts now v (Some ?r) p) = mset (host_alerts now v (Some r) p)"
    by (simp add: host_alerts_def health_alerts_def)
  then have "crits (host_alerts now v (Some ?r) p) = crits (host_alerts now v (Some r) p)"
    and "warns (host_alerts now v (Some ?r) p) = warns (host_alerts now v (Some r) p)"
    unfolding crits_def warns_def by (metis mset_filter size_mset)+
  with m show ?thesis by (simp add: sante_of_fields sante_state_def)
qed

lemma itoa_digits_nat: "0 < n \<Longrightarrow> itoa_digits n = show_nat (nat n)"
proof (induction n rule: itoa_digits.induct)
  case (1 n)
  have digit: "char_of (48 + m) = digit_char (nat m)" if "0 \<le> m" "m < 10" for m :: int
  proof -
    from that obtain k where k: "m = int k" "k < 10" by (metis nat_0_le nat_less_iff of_nat_numeral)
    from less_10_cases [OF k(2)] show ?thesis unfolding k(1) by (auto simp: digit_char_def char_of_def)
  qed
  show ?case
  proof (cases "n < 10")
    case True
    with 1 show ?thesis
      by (simp add: itoa_digits.simps [of n] itoa_digits.simps [of 0] show_nat.simps [of "nat n"] digit)
  next
    case False
    with 1 have "itoa_digits (n div 10) = show_nat (nat n div 10)"
      by (simp add: nat_div_distrib)
    with False show ?thesis
      by (simp add: itoa_digits.simps [of n] show_nat.simps [of "nat n"] digit nat_mod_distrib)
  qed
qed

text \<open>
  Printing of counters. The hand-written \<open>itoa\<close> prints every 64-bit integer as its decimal
  notation except the smallest one, whose negation overflows and which prints as a lone minus
  sign; its buffer of 20 bytes is never exceeded.
\<close>

lemma itoa_prints:
  assumes "in_int64 n"
  shows "itoa n = (if n = - (2 ^ 63) then ''-'' else show_int n) \<and> length (itoa n) \<le> 20"
proof -
  have len: "length (show_nat (nat m)) \<le> 19" if "m < 2 ^ 63" for m
    by (rule show_nat_length_le) (use that in auto)
  consider "n = - (2 ^ 63)" | "n < 0" "in_int64 (- n)" | "n = 0" | "0 < n"
    using assms by (force simp: in_int64_def)
  then show ?thesis
  proof cases
    case 1
    then show ?thesis by (simp add: itoa_def wrap64_def itoa_digits.simps)
  next
    case 2
    then have "itoa n = CHR ''-'' # show_nat (nat (- n))" by (simp add: itoa_def itoa_digits_nat)
    with 2 len [of "- n"] show ?thesis by (auto simp: show_int_def in_int64_def)
  next
    case 3
    then show ?thesis by (simp add: itoa_def show_int_def show_nat.simps digit_char_def)
  next
    case 4
    with assms len [of n] show ?thesis
      by (auto simp: itoa_def itoa_digits_nat show_int_def in_int64_def)
  qed
qed

end
