(* ===== verification/Amarre_Cache.thy ===== *)
theory Amarre_Cache
  imports Amarre_Strings "HOL-Library.AList"
begin

text \<open>
  The short-lived cache of package \<open>collector\<close> (\<open>cache.go\<close>): answers of the hosts, kept for a
  time to live. The entries of the Go map are an association list with distinct keys; the
  mutex makes each operation atomic.
\<close>

record 'v cache =
  ca_ttl :: duration
  ca_m :: "(string \<times> 'v \<times> time) list"

definition new_cache :: "duration \<Rightarrow> 'v cache" where
  "new_cache ttl = \<lparr>ca_ttl = ttl, ca_m = []\<rparr>"

definition cache_get_long :: "time \<Rightarrow> string \<Rightarrow> duration \<Rightarrow> 'v cache \<Rightarrow> 'v option" where
  "cache_get_long now key ttl c =
     (case map_of (ca_m c) key of
        None \<Rightarrow> None
      | Some (v, t) \<Rightarrow> if time_sub now t > ttl then None else Some v)"

definition cache_get :: "time \<Rightarrow> string \<Rightarrow> 'v cache \<Rightarrow> 'v option" where
  "cache_get now key c =
     (case map_of (ca_m c) key of
        None \<Rightarrow> None
      | Some (v, t) \<Rightarrow> if time_sub now t > ca_ttl c then None else Some v)"

definition cache_put :: "time \<Rightarrow> string \<Rightarrow> 'v \<Rightarrow> 'v cache \<Rightarrow> 'v cache" where
  "cache_put now key v c = c\<lparr>ca_m := AList.update key (v, now) (ca_m c)\<rparr>"

definition purged_by :: "string \<Rightarrow> string \<Rightarrow> bool" where
  "purged_by host k \<longleftrightarrow> length k > length host \<and> take (length host) k = host"

definition cache_invalidate :: "string \<Rightarrow> 'v cache \<Rightarrow> 'v cache" where
  "cache_invalidate host c = c\<lparr>ca_m := filter (\<lambda>(k, e). \<not> purged_by host k) (ca_m c)\<rparr>"

lemma cache_get_is_long: "cache_get now key c = cache_get_long now key (ca_ttl c) c"
  by (simp add: cache_get_def cache_get_long_def)

lemma purged_by_iff: "purged_by host k \<longleftrightarrow> strict_prefix host k"
proof
  assume p: "purged_by host k"
  then have "k = host @ drop (length host) k"
    unfolding purged_by_def by (metis append_take_drop_id)
  moreover from p have "drop (length host) k \<noteq> []" by (simp add: purged_by_def)
  ultimately show "strict_prefix host k" 
    unfolding strict_prefix_def prefix_def by (metis append_self_conv)
next
  assume "strict_prefix host k"
  then show "purged_by host k"
    by (auto simp: purged_by_def elim!: strict_prefixE')
qed

section \<open>Runs\<close>

datatype 'v cache_event = CachePut time string 'v | CachePurge string

fun cache_step :: "'v cache \<Rightarrow> 'v cache_event \<Rightarrow> 'v cache" where
  "cache_step c (CachePut t k v) = cache_put t k v c"
| "cache_step c (CachePurge h) = cache_invalidate h c"

text \<open>The events that take away what was stored under a key.\<close>

fun supersedes :: "string \<Rightarrow> 'v cache_event \<Rightarrow> bool" where
  "supersedes k (CachePut t k' v) \<longleftrightarrow> k' = k"
| "supersedes k (CachePurge h) \<longleftrightarrow> purged_by h k"

lemma map_of_purge:
  "map_of (filter (\<lambda>(k, e). \<not> purged_by h k) m) k = (if purged_by h k then None else map_of m k)"
  by (induction m) auto

lemma step_frame: "\<not> supersedes k e \<Longrightarrow> map_of (ca_m (cache_step c e)) k = map_of (ca_m c) k"
  by (cases e) (auto simp: cache_put_def cache_invalidate_def map_of_purge update_conv')

lemma step_ttl [simp]: "ca_ttl (cache_step c e) = ca_ttl c"
  by (cases e) (simp_all add: cache_put_def cache_invalidate_def)

lemma run_ttl [simp]: "ca_ttl (foldl cache_step c es) = ca_ttl c"
  by (induction es arbitrary: c) auto

lemma run_entry:
  "map_of (ca_m (foldl cache_step (new_cache ttl) es)) k = Some (v, t) \<Longrightarrow>
   \<exists>pre post. es = pre @ CachePut t k v # post \<and> (\<forall>e\<in>set post. \<not> supersedes k e)"
proof (induction es rule: rev_induct)
  case Nil
  then show ?case by (simp add: new_cache_def)
next
  case (snoc e es)
  show ?case
  proof (cases "supersedes k e")
    case True
    with snoc.prems have "e = CachePut t k v"
      by (cases e) (auto simp: cache_put_def cache_invalidate_def map_of_purge update_conv')
    then show ?thesis by (intro exI [of _ es] exI [of _ "[]"]) simp
  next
    case False
    with snoc.prems have "map_of (ca_m (foldl cache_step (new_cache ttl) es)) k = Some (v, t)"
      by (simp add: step_frame)
    from snoc.IH [OF this] obtain pre post where
      "es = pre @ CachePut t k v # post" and "\<forall>e\<in>set post. \<not> supersedes k e" by blast
    with False show ?thesis by (intro exI [of _ pre] exI [of _ "post @ [e]"]) auto
  qed
qed

text \<open>
  What the cache serves. After any sequence of insertions and invalidations, an answer
  served for a key is the one last put under that key, no invalidation of a strict prefix of
  the key came after, and it is not older than the time to live.
\<close>

theorem cache_serves_fresh:
  assumes "cache_get now k (foldl cache_step (new_cache ttl) es) = Some v"
    and "in_int64 ttl" and "ttl \<noteq> 2 ^ 63 - 1"
  shows "\<exists>pre t post. es = pre @ CachePut t k v # post \<and> now \<le> t + ttl \<and>
    (\<forall>e\<in>set post. (\<forall>t' v'. e \<noteq> CachePut t' k v') \<and> (\<forall>h. e = CachePurge h \<longrightarrow> \<not> strict_prefix h k))"
proof -
  have ttl: "ca_ttl (foldl cache_step (new_cache ttl) es) = ttl" by (simp add: new_cache_def)
  from assms(1) obtain t where
    e: "map_of (ca_m (foldl cache_step (new_cache ttl) es)) k = Some (v, t)"
    and fresh: "\<not> time_sub now t > ttl"
    by (auto simp: cache_get_def ttl simp del: run_ttl split: option.splits if_splits)
  from run_entry [OF e] obtain pre post where
    es: "es = pre @ CachePut t k v # post" and post: "\<forall>e\<in>set post. \<not> supersedes k e" by blast
  from fresh have "now \<le> t + ttl" using time_sub_gt_iff [OF assms(2,3)] by simp
  with es post show ?thesis
    by (intro exI [of _ pre] exI [of _ t] exI [of _ post]) (auto simp: purged_by_iff)
qed

theorem cache_serves_fresh_demo:
  "cache_get 50 ''web|stats'' (foldl cache_step (new_cache 90)
     [CachePut 0 ''web|stats'' (1::int), CachePurge ''db'', CachePut 10 ''web|stats'' 2]) = Some 2 \<and>
   (\<exists>pre t post. [CachePut 0 ''web|stats'' (1::int), CachePurge ''db'', CachePut 10 ''web|stats'' 2] =
     pre @ CachePut t ''web|stats'' 2 # post \<and> 50 \<le> t + 90)"
proof
  show g: "cache_get 50 ''web|stats'' (foldl cache_step (new_cache 90)
     [CachePut 0 ''web|stats'' (1::int), CachePurge ''db'', CachePut 10 ''web|stats'' 2]) = Some 2"
    by (simp add: cache_get_def new_cache_def cache_put_def cache_invalidate_def purged_by_def time_sub_def)
  from cache_serves_fresh [OF g] show "\<exists>pre t post. [CachePut 0 ''web|stats'' (1::int),
      CachePurge ''db'', CachePut 10 ''web|stats'' 2] = pre @ CachePut t ''web|stats'' 2 # post \<and> 50 \<le> t + 90"
    by (simp add: in_int64_def) blast
qed

end
