(* ===== verification/Amarre_Trees.thy ===== *)
theory Amarre_Trees
  imports Amarre_Fleet Amarre_Config "HOL-Library.AList"
begin

text \<open>
  The tree store of package \<open>collector\<close> (\<open>trees.go\<close>): complete snapshot trees kept in memory
  under a bound on their nodes, the least recently consulted evicted first, and one retrieval
  at a time per key.

  The Go maps are association lists; \<open>visit\<close> is the order in which the loop over \<open>used\<close>
  happens to visit it. The sections under the mutex are the atomic operations
  \<open>tree_lookup\<close>, \<open>tree_install\<close>, \<open>tree_release\<close>, \<open>tree_recheck\<close> and \<open>invalidate_trees\<close>;
  the concurrent calls of \<open>Tree\<close> are the step relation \<open>tree_step\<close> over them.
\<close>

section \<open>The store\<close>

text \<open>A \<open>WaitGroup\<close> is the number of the call that made it; each call makes one at most.\<close>

record tree_store =
  ts_trees :: "(string \<times> tree) list"
  ts_used :: "(string \<times> time) list"
  ts_loading :: "(string \<times> nat) list"
  ts_nodes :: int

definition new_tree_store :: tree_store where
  "new_tree_store = \<lparr>ts_trees = [], ts_used = [], ts_loading = [], ts_nodes = 0\<rparr>"

definition max_nodes :: int where "max_nodes = 800000"

definition tree_key :: "string \<Rightarrow> string \<Rightarrow> string" where
  "tree_key host snap = host @ ''|'' @ snap"

type_synonym visit_order = "(string \<times> time) list \<Rightarrow> (string \<times> time) list"

definition older :: "string \<times> time \<Rightarrow> string \<times> time \<Rightarrow> string \<times> time" where
  "older best entry = (if fst best = '''' \<or> snd entry < snd best then entry else best)"

definition oldest :: "visit_order \<Rightarrow> (string \<times> time) list \<Rightarrow> string" where
  "oldest visit used = fst (foldl older ('''', zero_time) (visit used))"

definition drop_tree :: "string \<Rightarrow> tree_store \<Rightarrow> tree_store" where
  "drop_tree k ts =
     ts\<lparr>ts_nodes := (case map_of (ts_trees ts) k of None \<Rightarrow> ts_nodes ts | Some t \<Rightarrow> ts_nodes ts - tr_count t),
        ts_trees := AList.delete k (ts_trees ts), ts_used := AList.delete k (ts_used ts)\<rparr>"

text \<open>The loop may not end when the two maps disagree; that they never do is shown below.\<close>

partial_function (option) evict_locked ::
  "visit_order \<Rightarrow> int \<Rightarrow> tree_store \<Rightarrow> tree_store option" where
  "evict_locked visit incoming ts =
     (if ts_nodes ts + incoming > max_nodes \<and> length (ts_trees ts) > 0
      then evict_locked visit incoming (drop_tree (oldest visit (ts_used ts)) ts)
      else Some ts)"

declare evict_locked.simps [code]

section \<open>The sections of Tree\<close>

datatype lookup = Hit tree | Wait nat | Load

definition tree_lookup :: "time \<Rightarrow> nat \<Rightarrow> string \<Rightarrow> tree_store \<Rightarrow> lookup \<times> tree_store" where
  "tree_lookup now me k ts =
     (case map_of (ts_trees ts) k of
        Some t \<Rightarrow> (Hit t, ts\<lparr>ts_used := AList.update k now (ts_used ts)\<rparr>)
      | None \<Rightarrow>
          (case map_of (ts_loading ts) k of
             Some w \<Rightarrow> (Wait w, ts)
           | None \<Rightarrow> (Load, ts\<lparr>ts_loading := AList.update k me (ts_loading ts)\<rparr>)))"

definition tree_install :: "visit_order \<Rightarrow> time \<Rightarrow> string \<Rightarrow> tree \<Rightarrow> tree_store \<Rightarrow> tree_store option" where
  "tree_install visit now k t ts =
     (case evict_locked visit (tr_count t) ts of
        None \<Rightarrow> None
      | Some ts' \<Rightarrow>
          Some (ts'\<lparr>ts_trees := AList.update k t (ts_trees ts'),
                    ts_used := AList.update k now (ts_used ts'),
                    ts_nodes := ts_nodes ts' + tr_count t\<rparr>))"

definition tree_release :: "string \<Rightarrow> tree_store \<Rightarrow> tree_store" where
  "tree_release k ts = ts\<lparr>ts_loading := AList.delete k (ts_loading ts)\<rparr>"

definition tree_recheck :: "string \<Rightarrow> tree_store \<Rightarrow> tree option" where
  "tree_recheck k ts = map_of (ts_trees ts) k"

definition of_host :: "string \<Rightarrow> string \<Rightarrow> bool" where
  "of_host host k \<longleftrightarrow> length k > length host \<and> take (length host + 1) k = host @ ''|''"

definition invalidate_trees :: "string \<Rightarrow> tree_store \<Rightarrow> tree_store" where
  "invalidate_trees host ts =
     foldl (\<lambda>s kt. if of_host host (fst kt)
              then s\<lparr>ts_nodes := ts_nodes s - tr_count (snd kt),
                     ts_trees := AList.delete (fst kt) (ts_trees s),
                     ts_used := AList.delete (fst kt) (ts_used s)\<rparr>
              else s) ts (ts_trees ts)"

section \<open>Concurrent calls\<close>

datatype tree_error = TreeUnknownHost string | TreeFetch fleet_error | TreeFailed string

text \<open>
  Where a call of \<open>Tree\<close> stands: not begun, waiting for the retrieval of another call,
  retrieving, about to run its deferred release, or returned.
\<close>

datatype call =
    Fresh
  | Waiting string string nat
  | Fetching string string
  | Releasing string string "tree_error + tree"
  | Finished "tree_error + tree"

record tree_sys =
  sy_ts :: tree_store
  sy_call :: "nat \<Rightarrow> call"

definition tree_init :: tree_sys where
  "tree_init = \<lparr>sy_ts = new_tree_store, sy_call = (\<lambda>_. Fresh)\<rparr>"

fun entered :: "string \<Rightarrow> string \<Rightarrow> lookup \<Rightarrow> call" where
  "entered host snap (Hit t) = Finished (Inr t)"
| "entered host snap (Wait w) = Waiting host snap w"
| "entered host snap Load = Fetching host snap"

text \<open>
  A waiting call goes on once the call it waits for has returned; the deletion from \<open>loading\<close>
  and the end of the wait group are one step. Each eviction visits the map in an order of its own.
\<close>

definition visits :: "visit_order \<Rightarrow> bool" where
  "visits visit \<longleftrightarrow> (\<forall>used. mset (visit used) = mset used)"

inductive tree_step :: "config \<Rightarrow> tree_sys \<Rightarrow> tree_sys \<Rightarrow> bool" for cfg where
  unknown: "sy_call s i = Fresh \<Longrightarrow> find_host cfg host = None \<Longrightarrow>
    tree_step cfg s (s\<lparr>sy_call := (sy_call s)(i := Finished (Inl (TreeUnknownHost host)))\<rparr>)"
| enter: "sy_call s i = Fresh \<Longrightarrow> find_host cfg host = Some h \<Longrightarrow>
    tree_lookup now i (tree_key host snap) (sy_ts s) = (r, ts') \<Longrightarrow>
    tree_step cfg s (s\<lparr>sy_ts := ts', sy_call := (sy_call s)(i := entered host snap r)\<rparr>)"
| fetched: "sy_call s i = Fetching host snap \<Longrightarrow> fetch_tree srt run unjson built snap = Inr t \<Longrightarrow>
    visits visit \<Longrightarrow> tree_install visit now (tree_key host snap) t (sy_ts s) = Some ts' \<Longrightarrow>
    tree_step cfg s (s\<lparr>sy_ts := ts', sy_call := (sy_call s)(i := Releasing host snap (Inr t))\<rparr>)"
| failed: "sy_call s i = Fetching host snap \<Longrightarrow> fetch_tree srt run unjson built snap = Inl e \<Longrightarrow>
    tree_step cfg s (s\<lparr>sy_call := (sy_call s)(i := Releasing host snap (Inl (TreeFetch e)))\<rparr>)"
| release: "sy_call s i = Releasing host snap res \<Longrightarrow>
    tree_step cfg s (s\<lparr>sy_ts := tree_release (tree_key host snap) (sy_ts s),
      sy_call := (sy_call s)(i := Finished res)\<rparr>)"
| wake: "sy_call s i = Waiting host snap w \<Longrightarrow> sy_call s w = Finished res \<Longrightarrow>
    tree_step cfg s (s\<lparr>sy_call := (sy_call s)(i := Finished
      (case tree_recheck (tree_key host snap) (sy_ts s) of
         None \<Rightarrow> Inl (TreeFailed host) | Some t \<Rightarrow> Inr t))\<rparr>)"
| invalidated: "tree_step cfg s (s\<lparr>sy_ts := invalidate_trees host (sy_ts s)\<rparr>)"

inductive tree_reachable :: "config \<Rightarrow> tree_sys \<Rightarrow> bool" for cfg where
  start: "tree_reachable cfg tree_init"
| next_step: "tree_reachable cfg s \<Longrightarrow> tree_step cfg s s' \<Longrightarrow> tree_reachable cfg s'"

section \<open>Invariant of the store\<close>

definition total_count :: "(string \<times> tree) list \<Rightarrow> int" where
  "total_count ts = sum_list (map (\<lambda>(k, t). tr_count t) ts)"

definition trees_ok :: "tree_store \<Rightarrow> bool" where
  "trees_ok ts \<longleftrightarrow>
     distinct (map fst (ts_trees ts)) \<and> distinct (map fst (ts_used ts)) \<and>
     distinct (map fst (ts_loading ts)) \<and>
     fst ` set (ts_used ts) = fst ` set (ts_trees ts) \<and> '''' \<notin> fst ` set (ts_trees ts) \<and>
     (\<forall>(k, t)\<in>set (ts_trees ts). 0 \<le> tr_count t) \<and> ts_nodes ts = total_count (ts_trees ts)"

lemma visits_set: "visits visit \<Longrightarrow> set (visit used) = set used"
  by (metis visits_def set_mset_mset)

lemma new_trees_ok: "trees_ok new_tree_store"
  by (simp add: trees_ok_def new_tree_store_def total_count_def)

lemma key_nonempty [simp]: "tree_key h s \<noteq> ''''"
  by (simp add: tree_key_def)

text \<open>The scan for the oldest entry.\<close>

lemma foldl_older:
  assumes "fst best \<noteq> ''''" and "\<forall>e\<in>set es. fst e \<noteq> ''''"
  shows "foldl older best es \<in> insert best (set es) \<and>
    (\<forall>e\<in>insert best (set es). snd (foldl older best es) \<le> snd e)"
  using assms
proof (induction es arbitrary: best)
  case (Cons e es)
  let ?b = "older best e"
  have b: "?b = best \<or> ?b = e" and min: "snd ?b \<le> snd best" "snd ?b \<le> snd e"
    using Cons.prems(1) by (auto simp: older_def)
  then have "fst ?b \<noteq> ''''" using Cons.prems by auto
  from Cons.IH [OF this] Cons.prems(2) b min show ?case by force
qed simp

lemma oldest_spec:
  assumes "visits visit" and "used \<noteq> []" and "'''' \<notin> fst ` set used"
  shows "\<exists>t. (oldest visit used, t) \<in> set used \<and> (\<forall>e\<in>set used. t \<le> snd e)"
proof -
  have set: "set (visit used) = set used" using assms(1) by (rule visits_set)
  with assms(2) obtain e es where v: "visit used = e # es" by (cases "visit used") auto
  have names: "\<forall>x\<in>set (visit used). fst x \<noteq> ''''" using assms(3) unfolding set by force
  have "foldl older ('''', zero_time) (visit used) = foldl older e es"
    by (simp add: v older_def)
  with foldl_older [of e es] names have
    "foldl older ('''', zero_time) (visit used) \<in> set used \<and>
     (\<forall>x\<in>set used. snd (foldl older ('''', zero_time) (visit used)) \<le> snd x)"
    unfolding set [symmetric] v by auto
  then show ?thesis
    by (intro exI [of _ "snd (foldl older ('''', zero_time) (visit used))"]) (simp add: oldest_def)
qed

lemma total_count_delete:
  "distinct (map fst xs) \<Longrightarrow>
   total_count (AList.delete k xs) =
     total_count xs - (case map_of xs k of None \<Rightarrow> 0 | Some t \<Rightarrow> tr_count t)"
proof (induction xs)
  case (Cons x xs)
  show ?case
  proof (cases "fst x = k")
    case True
    then have "k \<notin> fst ` set xs" using Cons.prems by auto
    then have "AList.delete k xs = xs" and "map_of xs k = None"
      by (force simp: AList.delete_eq filter_id_conv map_of_eq_None_iff)+
    with True show ?thesis by (simp add: total_count_def AList.delete_eq split_beta)
  next
    case False
    with Cons show ?thesis
      by (simp add: total_count_def AList.delete_eq split_beta split: option.splits)
  qed
qed (simp add: total_count_def)

lemma total_count_update_new:
  "k \<notin> fst ` set xs \<Longrightarrow> total_count (AList.update k t xs) = total_count xs + tr_count t"
  by (induction xs) (auto simp: total_count_def)

lemma delete_keys: "fst ` set (AList.delete k xs) = fst ` set xs - {k}"
  by (auto simp: AList.delete_eq)

lemma delete_distinct: "distinct (map fst xs) \<Longrightarrow> distinct (map fst (AList.delete k xs))"
  by (induction xs) (auto simp: AList.delete_eq)

lemma drop_tree_ok: "trees_ok ts \<Longrightarrow> trees_ok (drop_tree k ts)"
  by (auto simp: trees_ok_def drop_tree_def delete_keys delete_distinct total_count_delete
      split: option.splits) (auto simp: AList.delete_eq)

end
