(* ===== verification/Amarre_Trees_Facts.thy ===== *)
theory Amarre_Trees_Facts
  imports Amarre_Trees Amarre_Fleet_Facts
begin

text \<open>
  The tree store under concurrency: the eviction loop ends and makes room, oldest first; the
  memory bound; one retrieval per key at a time; no waiting call is lost.
\<close>

section \<open>Eviction\<close>

lemma drop_oldest_shrinks:
  assumes "visits visit" and "trees_ok ts" and "ts_trees ts \<noteq> []"
  shows "length (ts_trees (drop_tree (oldest visit (ts_used ts)) ts)) < length (ts_trees ts)"
proof -
  let ?k = "oldest visit (ts_used ts)"
  have used: "fst ` set (ts_used ts) = fst ` set (ts_trees ts)" "'''' \<notin> fst ` set (ts_used ts)"
    using assms(2) by (auto simp: trees_ok_def)
  with assms(3) have "ts_used ts \<noteq> []" by auto
  from oldest_spec [OF assms(1) this used(2)] have "?k \<in> fst ` set (ts_used ts)" by force
  then have "?k \<in> fst ` set (ts_trees ts)" using used(1) by simp
  then show ?thesis
    by (auto simp: drop_tree_def AList.delete_eq split_beta length_filter_less)
qed

lemma drop_tree_trees: "ts_trees (drop_tree k ts) = AList.delete k (ts_trees ts)"
  "ts_used (drop_tree k ts) = AList.delete k (ts_used ts)"
  "ts_loading (drop_tree k ts) = ts_loading ts"
  by (simp_all add: drop_tree_def)

text \<open>What one eviction guarantees, as a relation between the store before and after.\<close>

definition evicted :: "int \<Rightarrow> tree_store \<Rightarrow> tree_store \<Rightarrow> bool" where
  "evicted incoming ts ts' \<longleftrightarrow>
     trees_ok ts' \<and> ts_loading ts' = ts_loading ts \<and>
     (ts_nodes ts' + incoming \<le> max_nodes \<or> ts_trees ts' = []) \<and>
     set (ts_trees ts') \<subseteq> set (ts_trees ts) \<and> set (ts_used ts') \<subseteq> set (ts_used ts) \<and>
     (\<forall>x\<in>set (ts_used ts) - set (ts_used ts'). \<forall>y\<in>set (ts_used ts'). snd x \<le> snd y)"

lemma evict_ends:
  assumes "visits visit" and "trees_ok ts"
  shows "\<exists>ts'. evict_locked visit incoming ts = Some ts' \<and> evicted incoming ts ts'"
  using assms(2)
proof (induction "length (ts_trees ts)" arbitrary: ts rule: less_induct)
  case less
  show ?case
  proof (cases "ts_nodes ts + incoming > max_nodes \<and> length (ts_trees ts) > 0")
    case False
    with less.prems show ?thesis
      by (subst evict_locked.simps) (auto simp: evicted_def)
  next
    case True
    let ?k = "oldest visit (ts_used ts)" and ?d = "drop_tree (oldest visit (ts_used ts)) ts"
    have used: "fst ` set (ts_used ts) = fst ` set (ts_trees ts)" "'''' \<notin> fst ` set (ts_used ts)"
      and dist: "distinct (map fst (ts_used ts))"
      using less.prems by (auto simp: trees_ok_def)
    from True used have "ts_used ts \<noteq> []" by auto
    from oldest_spec [OF assms(1) this used(2)] obtain t where
      t: "(?k, t) \<in> set (ts_used ts)" "\<forall>e\<in>set (ts_used ts). t \<le> snd e" by blast
    from True have "ts_trees ts \<noteq> []" by simp
    from less.hyps [OF drop_oldest_shrinks [OF assms(1) less.prems this] drop_tree_ok [OF less.prems]]
    obtain ts' where ev: "evict_locked visit incoming ?d = Some ts'" and post: "evicted incoming ?d ts'"
      by blast
    have gone: "snd x = t" if "x \<in> set (ts_used ts)" "fst x = ?k" for x
      using that t(1) eq_key_imp_eq_value [OF dist] by (metis prod.collapse)
    have "snd x \<le> snd y" if x: "x \<in> set (ts_used ts) - set (ts_used ts')" and y: "y \<in> set (ts_used ts')" for x y
    proof (cases "fst x = ?k")
      case True
      have "y \<in> set (ts_used ts)"
        using y post by (auto simp: evicted_def drop_tree_trees AList.delete_eq)
      with t(2) gone x True show ?thesis by auto
    next
      case False
      with x have "x \<in> set (ts_used ?d) - set (ts_used ts')"
        by (auto simp: drop_tree_trees AList.delete_eq)
      with post y show ?thesis by (auto simp: evicted_def)
    qed
    moreover have "evict_locked visit incoming ts = Some ts'"
      using True ev by (subst evict_locked.simps) simp
    ultimately show ?thesis
      using post by (auto simp: evicted_def drop_tree_trees AList.delete_eq)
  qed
qed

lemma total_count_nonneg: "\<forall>(k, t)\<in>set xs. 0 \<le> tr_count t \<Longrightarrow> 0 \<le> total_count xs"
  by (induction xs) (auto simp: total_count_def)

text \<open>The memory bound: below the maximum, or one tree alone that is larger than it.\<close>

definition bounded :: "tree_store \<Rightarrow> bool" where
  "bounded ts \<longleftrightarrow> ts_nodes ts \<le> max_nodes \<or> length (ts_trees ts) = 1"

lemma update_new: "k \<notin> fst ` set xs \<Longrightarrow> AList.update k v xs = xs @ [(k, v)]"
  by (induction xs) auto

lemma total_count_append: "total_count (xs @ ys) = total_count xs + total_count ys"
  by (simp add: total_count_def)

lemma install_ok:
  assumes "visits visit" and ok: "trees_ok ts" and "k \<notin> fst ` set (ts_trees ts)" and "k \<noteq> ''''"
    and "0 \<le> tr_count t"
  shows "\<exists>ts'. tree_install visit now k t ts = Some ts' \<and> trees_ok ts' \<and> bounded ts' \<and>
    ts_loading ts' = ts_loading ts \<and> fst ` set (ts_trees ts') \<subseteq> insert k (fst ` set (ts_trees ts))"
proof -
  obtain e where e: "evict_locked visit (tr_count t) ts = Some e" "evicted (tr_count t) ts e"
    using evict_ends [OF assms(1) ok] by blast
  have sub: "fst ` set (ts_trees e) \<subseteq> fst ` set (ts_trees ts)"
    using e(2) by (auto simp: evicted_def)
  then have k: "k \<notin> fst ` set (ts_trees e)" using assms(3) by blast
  have eok: "trees_ok e" using e(2) by (simp add: evicted_def)
  then have ku: "k \<notin> fst ` set (ts_used e)" using k by (simp add: trees_ok_def)
  let ?r = "e\<lparr>ts_trees := ts_trees e @ [(k, t)], ts_used := ts_used e @ [(k, now)],
      ts_nodes := ts_nodes e + tr_count t\<rparr>"
  have r: "tree_install visit now k t ts = Some ?r"
    by (simp add: tree_install_def e(1) update_new k ku)
  have "trees_ok ?r"
    using eok k ku assms(4,5) by (simp add: trees_ok_def total_count_append) (simp add: total_count_def)
  moreover have "bounded ?r"
    using e(2) by (auto simp: evicted_def bounded_def)
  moreover have "ts_loading ?r = ts_loading ts" using e(2) by (simp add: evicted_def)
  ultimately show ?thesis using r sub by auto
qed

lemma lookup_ok:
  assumes "tree_lookup now me k ts = (r, ts')" and "trees_ok ts"
  shows "trees_ok ts' \<and> (bounded ts \<longrightarrow> bounded ts') \<and> ts_trees ts' = ts_trees ts"
proof (cases "map_of (ts_trees ts) k")
  case None
  show ?thesis
  proof (cases "map_of (ts_loading ts) k")
    case None
    with \<open>map_of (ts_trees ts) k = None\<close> assms have "ts' = ts\<lparr>ts_loading := AList.update k me (ts_loading ts)\<rparr>"
      by (simp add: tree_lookup_def)
    with assms(2) show ?thesis by (simp add: trees_ok_def bounded_def distinct_update)
  next
    case (Some w)
    with None assms show ?thesis by (simp add: tree_lookup_def)
  qed
next
  case (Some t)
  then have "insert k (fst ` set (ts_trees ts)) = fst ` set (ts_trees ts)"
    by (force dest: map_of_SomeD)
  moreover from Some assms have "ts' = ts\<lparr>ts_used := AList.update k now (ts_used ts)\<rparr>"
    by (simp add: tree_lookup_def)
  ultimately show ?thesis
    using assms(2) by (simp add: trees_ok_def bounded_def distinct_update dom_update)
qed

lemma release_ok: "trees_ok ts \<Longrightarrow> trees_ok (tree_release k ts)"
  by (simp add: trees_ok_def tree_release_def delete_distinct)

lemma release_bounded: "bounded (tree_release k ts) = bounded ts"
  by (simp add: bounded_def tree_release_def)

section \<open>Invalidation\<close>

text \<open>The loop walks the map it deletes from; it removes exactly the entries of the host.\<close>

lemma invalidate_run:
  "trees_ok s \<Longrightarrow> distinct (map fst kts) \<Longrightarrow> set kts \<subseteq> set (ts_trees s) \<Longrightarrow>
   s' = foldl (\<lambda>s kt. if of_host host (fst kt)
              then s\<lparr>ts_nodes := ts_nodes s - tr_count (snd kt),
                     ts_trees := AList.delete (fst kt) (ts_trees s),
                     ts_used := AList.delete (fst kt) (ts_used s)\<rparr>
              else s) s kts \<Longrightarrow>
   trees_ok s' \<and> ts_loading s' = ts_loading s \<and>
   ts_trees s' = filter (\<lambda>kt. \<not> (of_host host (fst kt) \<and> fst kt \<in> fst ` set kts)) (ts_trees s)"
proof (induction kts arbitrary: s)
  case (Cons kt kts)
  show ?case
  proof (cases "of_host host (fst kt)")
    case False
    with Cons.prems Cons.IH [of s] show ?thesis
      by (auto intro!: filter_cong)
  next
    case True
    obtain k t where kt: "kt = (k, t)" by (cases kt)
    have m: "map_of (ts_trees s) k = Some t"
      using Cons.prems(1,3) kt by (auto simp: trees_ok_def)
    let ?d = "drop_tree k s"
    have step: "s\<lparr>ts_nodes := ts_nodes s - tr_count (snd kt),
        ts_trees := AList.delete (fst kt) (ts_trees s),
        ts_used := AList.delete (fst kt) (ts_used s)\<rparr> = ?d"
      by (simp add: drop_tree_def m kt)
    have "set kts \<subseteq> set (ts_trees ?d)"
      using Cons.prems(2,3) kt by (force simp: drop_tree_trees AList.delete_eq)
    from Cons.IH [OF drop_tree_ok [OF Cons.prems(1)] _ this] Cons.prems(2,4) step True
    have *: "trees_ok s' \<and> ts_loading s' = ts_loading s \<and>
      ts_trees s' = filter (\<lambda>kt. \<not> (of_host host (fst kt) \<and> fst kt \<in> fst ` set kts)) (ts_trees ?d)"
      by (simp add: drop_tree_trees)
    have "filter (\<lambda>kt. \<not> (of_host host (fst kt) \<and> fst kt \<in> fst ` set kts)) (ts_trees ?d) =
      filter (\<lambda>x. \<not> (of_host host (fst x) \<and> fst x \<in> fst ` set (kt # kts))) (ts_trees s)"
      using True kt by (auto simp: drop_tree_trees AList.delete_eq intro!: filter_cong)
    with * show ?thesis by simp
  qed
qed simp

lemma invalidate_spec:
  assumes "trees_ok ts"
  shows "trees_ok (invalidate_trees host ts) \<and>
    ts_loading (invalidate_trees host ts) = ts_loading ts \<and>
    ts_trees (invalidate_trees host ts) = filter (\<lambda>kt. \<not> of_host host (fst kt)) (ts_trees ts)"
proof -
  have "distinct (map fst (ts_trees ts))" using assms by (simp add: trees_ok_def)
  from invalidate_run [OF assms this subset_refl, of "invalidate_trees host ts" host]
  have "trees_ok (invalidate_trees host ts) \<and> ts_loading (invalidate_trees host ts) = ts_loading ts \<and>
    ts_trees (invalidate_trees host ts) =
      filter (\<lambda>kt. \<not> (of_host host (fst kt) \<and> fst kt \<in> fst ` set (ts_trees ts))) (ts_trees ts)"
    by (simp add: invalidate_trees_def)
  then show ?thesis by (auto intro!: filter_cong)
qed

lemma total_count_filter:
  "\<forall>(k, t)\<in>set xs. 0 \<le> tr_count t \<Longrightarrow> total_count (filter P xs) \<le> total_count xs"
  by (induction xs) (auto simp: total_count_def)

lemma invalidate_bounded:
  assumes "trees_ok ts" and "bounded ts"
  shows "bounded (invalidate_trees host ts)"
proof -
  let ?ts = "invalidate_trees host ts" and ?f = "\<lambda>kt. \<not> of_host host (fst kt)"
  have spec: "trees_ok ?ts" "ts_trees ?ts = filter ?f (ts_trees ts)"
    using invalidate_spec [OF assms(1)] by auto
  then have nodes: "ts_nodes ?ts = total_count (filter ?f (ts_trees ts))"
    by (simp add: trees_ok_def)
  from assms(2) consider "ts_nodes ts \<le> max_nodes" | x where "ts_trees ts = [x]"
    by (auto simp: bounded_def length_Suc_conv)
  then show ?thesis
  proof cases
    case 1
    with assms(1) nodes total_count_filter [of "ts_trees ts" ?f] show ?thesis
      by (simp add: bounded_def trees_ok_def)
  next
    case 2
    with spec(2) nodes show ?thesis
      by (auto simp: bounded_def total_count_def max_nodes_def)
  qed
qed

section \<open>Reachable states of the concurrent calls\<close>

lemma fetch_tree_count:
  assumes "fetch_tree srt run unjson now snap = Inr t"
  shows "0 \<le> tr_count t"
proof -
  obtain out where "t = sort_dirs srt (foldl add_node (empty_tree snap now) (listed_nodes unjson tree_limit out))"
    using fetch_tree_Inr [OF assms] by blast
  then show ?thesis by (simp add: sort_dirs_def count_foldl empty_tree_def)
qed

text \<open>The call that retrieves a key, from its registration to its release.\<close>

fun in_flight :: "call \<Rightarrow> string \<Rightarrow> bool" where
  "in_flight (Fetching h s) k \<longleftrightarrow> tree_key h s = k"
| "in_flight (Releasing h s r) k \<longleftrightarrow> tree_key h s = k"
| "in_flight _ k \<longleftrightarrow> False"

definition finished :: "call \<Rightarrow> bool" where
  "finished c \<longleftrightarrow> (\<exists>r. c = Finished r)"

definition registered :: "(string \<Rightarrow> nat option) \<Rightarrow> (nat \<Rightarrow> call) \<Rightarrow> bool" where
  "registered L C \<longleftrightarrow> (\<forall>i k. in_flight (C i) k \<longleftrightarrow> L k = Some i)"

definition fetch_new :: "string set \<Rightarrow> (nat \<Rightarrow> call) \<Rightarrow> bool" where
  "fetch_new K C \<longleftrightarrow> (\<forall>i h sn. C i = Fetching h sn \<longrightarrow> tree_key h sn \<notin> K)"

definition waits_ok :: "(nat \<Rightarrow> call) \<Rightarrow> bool" where
  "waits_ok C \<longleftrightarrow> (\<forall>i h sn w. C i = Waiting h sn w \<longrightarrow>
     in_flight (C w) (tree_key h sn) \<or> finished (C w))"

definition sys_ok :: "tree_sys \<Rightarrow> bool" where
  "sys_ok s \<longleftrightarrow> trees_ok (sy_ts s) \<and> bounded (sy_ts s) \<and>
     registered (map_of (ts_loading (sy_ts s))) (sy_call s) \<and>
     fetch_new (fst ` set (ts_trees (sy_ts s))) (sy_call s) \<and> waits_ok (sy_call s)"

lemma init_ok: "sys_ok tree_init"
  using new_trees_ok
  by (simp add: sys_ok_def tree_init_def registered_def fetch_new_def waits_ok_def bounded_def)
    (simp add: new_tree_store_def max_nodes_def)

lemma registered_same:
  "registered L C \<Longrightarrow> in_flight c = in_flight (C i) \<Longrightarrow> registered L (C(i := c))"
  by (simp add: registered_def)

lemma registered_load:
  "registered L C \<Longrightarrow> C i = Fresh \<Longrightarrow> L (tree_key h s) = None \<Longrightarrow>
   registered (L(tree_key h s \<mapsto> i)) (C(i := Fetching h s))"
  unfolding registered_def by (metis fun_upd_apply in_flight.simps(1,3) option.distinct(1) option.inject)

lemma registered_done:
  assumes "registered L C" and "C i = Releasing h s r"
  shows "registered (L(tree_key h s := None)) (C(i := Finished r))"
proof -
  have C: "in_flight (C j) k \<longleftrightarrow> L k = Some j" for j k
    using assms(1) by (simp add: registered_def)
  have i: "L k = Some i \<longleftrightarrow> k = tree_key h s" for k
    using C [of i k] assms(2) by auto
  show ?thesis
    unfolding registered_def
  proof (intro allI)
    fix j k
    show "in_flight ((C(i := Finished r)) j) k \<longleftrightarrow> (L(tree_key h s := None)) k = Some j"
      using C [of j k] i [of k] by (cases "j = i"; cases "k = tree_key h s") auto
  qed
qed

lemma fetch_new_upd:
  "fetch_new K C \<Longrightarrow> (\<And>h sn. c = Fetching h sn \<Longrightarrow> tree_key h sn \<notin> K) \<Longrightarrow> fetch_new K (C(i := c))"
  by (simp add: fetch_new_def)

lemma fetch_new_mono: "fetch_new K C \<Longrightarrow> K' \<subseteq> K \<Longrightarrow> fetch_new K' C"
  unfolding fetch_new_def by blast

lemma waits_ok_upd:
  assumes "waits_ok C" and "\<And>k. in_flight (C i) k \<Longrightarrow> in_flight c k \<or> finished c"
    and "finished (C i) \<Longrightarrow> finished c"
    and "\<And>h sn w. c = Waiting h sn w \<Longrightarrow> w \<noteq> i \<and> (in_flight (C w) (tree_key h sn) \<or> finished (C w))"
  shows "waits_ok (C(i := c))"
  unfolding waits_ok_def
proof (intro allI impI)
  fix j h sn w
  assume j: "(C(i := c)) j = Waiting h sn w"
  show "in_flight ((C(i := c)) w) (tree_key h sn) \<or> finished ((C(i := c)) w)"
  proof (cases "j = i")
    case True
    with j have "c = Waiting h sn w" by simp
    from assms(4) [OF this] show ?thesis by simp
  next
    case False
    with j have "C j = Waiting h sn w" by simp
    with assms(1) have "in_flight (C w) (tree_key h sn) \<or> finished (C w)"
      unfolding waits_ok_def by blast
    then show ?thesis
      using assms(2) [of "tree_key h sn"] assms(3) by (cases "w = i") auto
  qed
qed

lemma finished_simps [simp]: "finished (Finished r)" "\<not> finished Fresh"
  "\<not> finished (Waiting h s w)" "\<not> finished (Fetching h s)" "\<not> finished (Releasing h s r)"
  by (auto simp: finished_def)

lemma map_of_delete: "map_of (AList.delete k xs) = (map_of xs)(k := None)"
  by (simp add: AList.delete_conv')

lemma in_flight_idle: "in_flight Fresh = (\<lambda>k. False)" "in_flight (Waiting h s w) = (\<lambda>k. False)"
  "in_flight (Finished r) = (\<lambda>k. False)"
  "in_flight (Fetching h s) = (\<lambda>k. tree_key h s = k)" "in_flight (Releasing h s r) = (\<lambda>k. tree_key h s = k)"
  by (auto intro!: ext)

lemma lookup_cases:
  assumes "tree_lookup now me k ts = (r, ts')"
  obtains (hit) t where "r = Hit t" "ts_loading ts' = ts_loading ts"
  | (wait) w where "r = Wait w" "ts' = ts" "map_of (ts_loading ts) k = Some w"
  | (load) "r = Load" "map_of (ts_loading ts) k = None" "k \<notin> fst ` set (ts_trees ts)"
      "ts_loading ts' = AList.update k me (ts_loading ts)"
proof (cases "map_of (ts_trees ts) k")
  case (Some t)
  with assms show ?thesis by (intro hit [of t]) (auto simp: tree_lookup_def)
next
  case trees: None
  show ?thesis
  proof (cases "map_of (ts_loading ts) k")
    case (Some w)
    with assms trees show ?thesis by (intro wait [of w]) (auto simp: tree_lookup_def)
  next
    case None
    have "k \<notin> fst ` set (ts_trees ts)" using trees by (rule map_of_eq_None_iff [THEN iffD1])
    with None assms trees show ?thesis by (intro load) (auto simp: tree_lookup_def)
  qed
qed

lemma enter_ok:
  assumes "sys_ok s" and "sy_call s i = Fresh" and look: "tree_lookup now i (tree_key h sn) (sy_ts s) = (r, ts')"
  shows "sys_ok (s\<lparr>sy_ts := ts', sy_call := (sy_call s)(i := entered h sn r)\<rparr>)"
proof -
  have ok: "trees_ok (sy_ts s)" "bounded (sy_ts s)"
      "registered (map_of (ts_loading (sy_ts s))) (sy_call s)"
      "fetch_new (fst ` set (ts_trees (sy_ts s))) (sy_call s)" "waits_ok (sy_call s)"
    using assms(1) by (simp_all add: sys_ok_def)
  have ts: "trees_ok ts'" "bounded ts'" "ts_trees ts' = ts_trees (sy_ts s)"
    using lookup_ok [OF look ok(1)] ok(2) by auto
  from look show ?thesis
  proof (cases rule: lookup_cases)
    case (hit t)
    with ok ts assms(2) show ?thesis
      by (auto simp: sys_ok_def in_flight_idle intro!: registered_same fetch_new_upd waits_ok_upd)
  next
    case (wait w)
    then have "in_flight (sy_call s w) (tree_key h sn)" using ok(3) by (simp add: registered_def)
    moreover from this have "w \<noteq> i" using assms(2) by auto
    ultimately show ?thesis
      using wait ok assms(2)
      by (auto simp: sys_ok_def in_flight_idle intro!: registered_same fetch_new_upd waits_ok_upd)
  next
    case load
    with ok ts assms(2) show ?thesis
      by (auto simp: sys_ok_def update_conv' in_flight_idle intro!: registered_load fetch_new_upd waits_ok_upd)
  qed
qed

lemma fetched_ok:
  assumes "sys_ok s" and call: "sy_call s i = Fetching h sn" and "visits visit" and "0 \<le> tr_count t"
    and inst: "tree_install visit now (tree_key h sn) t (sy_ts s) = Some ts'"
  shows "sys_ok (s\<lparr>sy_ts := ts', sy_call := (sy_call s)(i := Releasing h sn (Inr t))\<rparr>)"
proof -
  let ?k = "tree_key h sn"
  have ok: "trees_ok (sy_ts s)" "registered (map_of (ts_loading (sy_ts s))) (sy_call s)"
      "fetch_new (fst ` set (ts_trees (sy_ts s))) (sy_call s)" "waits_ok (sy_call s)"
    using assms(1) by (simp_all add: sys_ok_def)
  have new: "?k \<notin> fst ` set (ts_trees (sy_ts s))"
    using ok(3) call unfolding fetch_new_def by blast
  from install_ok [OF assms(3) ok(1) new key_nonempty assms(4), of now] inst
  have ts: "trees_ok ts'" "bounded ts'" "ts_loading ts' = ts_loading (sy_ts s)"
    "fst ` set (ts_trees ts') \<subseteq> insert ?k (fst ` set (ts_trees (sy_ts s)))"
    by auto
  have "fetch_new (fst ` set (ts_trees ts')) ((sy_call s)(i := Releasing h sn (Inr t)))"
    unfolding fetch_new_def
  proof (intro allI impI notI)
    fix j h' sn'
    assume j: "((sy_call s)(i := Releasing h sn (Inr t))) j = Fetching h' sn'"
      and k: "tree_key h' sn' \<in> fst ` set (ts_trees ts')"
    from j have "j \<noteq> i" and c: "sy_call s j = Fetching h' sn'" by (auto split: if_splits)
    have "tree_key h' sn' \<notin> fst ` set (ts_trees (sy_ts s))"
      using ok(3) c unfolding fetch_new_def by blast
    with k ts(4) have "tree_key h' sn' = ?k" by blast
    with c have "in_flight (sy_call s j) ?k" by simp
    moreover have "in_flight (sy_call s i) ?k" by (simp add: call)
    ultimately show False using ok(2) \<open>j \<noteq> i\<close> by (simp add: registered_def)
  qed
  with ok ts call show ?thesis
    by (auto simp: sys_ok_def in_flight_idle intro!: registered_same waits_ok_upd)
qed

lemma step_ok: "tree_step cfg s s' \<Longrightarrow> sys_ok s \<Longrightarrow> sys_ok s'"
proof (induction rule: tree_step.induct)
  case (unknown s i host)
  then show ?case
    by (auto simp: sys_ok_def in_flight_idle intro!: registered_same fetch_new_upd waits_ok_upd)
next
  case (enter s i host h now snap r ts')
  then show ?case by (intro enter_ok)
next
  case (fetched s i host snap srt run unjson built t visit now ts')
  then show ?case by (intro fetched_ok fetch_tree_count [OF fetched(2)])
next
  case (failed s i host snap srt run unjson built e)
  then show ?case
    by (auto simp: sys_ok_def in_flight_idle intro!: registered_same fetch_new_upd waits_ok_upd)
next
  case (release s i host snap res)
  then show ?case
    by (auto simp: sys_ok_def release_ok release_bounded in_flight_idle
        intro!: fetch_new_upd waits_ok_upd)
      (auto simp: tree_release_def map_of_delete intro!: registered_done)
next
  case (wake s i host snap w res)
  then show ?case
    by (auto simp: sys_ok_def in_flight_idle intro!: registered_same fetch_new_upd waits_ok_upd)
next
  case (invalidated s host)
  then have spec: "trees_ok (invalidate_trees host (sy_ts s))"
    "ts_loading (invalidate_trees host (sy_ts s)) = ts_loading (sy_ts s)"
    "fst ` set (ts_trees (invalidate_trees host (sy_ts s))) \<subseteq> fst ` set (ts_trees (sy_ts s))"
    "bounded (invalidate_trees host (sy_ts s))"
    using invalidate_spec [of "sy_ts s" host] invalidate_bounded [of "sy_ts s" host]
    by (auto simp: sys_ok_def)
  with invalidated fetch_new_mono [OF _ spec(3)] show ?case by (simp add: sys_ok_def)
qed

lemma reachable_ok: "tree_reachable cfg s \<Longrightarrow> sys_ok s"
  by (induction rule: tree_reachable.induct) (auto simp: init_ok intro: step_ok)

section \<open>Properties\<close>



text \<open>
  C17. The memory bound and its counter. In every reachable state the node counter is the sum of
  the counts of the trees kept, and it is at most 800000 unless a single tree is kept.
\<close>

theorem tree_memory_bound:
  assumes "tree_reachable cfg s"
  shows "ts_nodes (sy_ts s) = (\<Sum>(k, t)\<leftarrow>ts_trees (sy_ts s). tr_count t) \<and>
    (ts_nodes (sy_ts s) \<le> 800000 \<or> length (ts_trees (sy_ts s)) = 1)"
  using reachable_ok [OF assms]
  by (auto simp: sys_ok_def trees_ok_def total_count_def bounded_def max_nodes_def)

lemma demo_found: "find_host (default_config\<lparr>cfg_hosts := [h\<lparr>hc_name := ''web''\<rparr>]\<rparr>) ''web'' =
    Some (h\<lparr>hc_name := ''web''\<rparr>)"
  by (simp add: find_host_def)

definition demo_calls :: "nat \<Rightarrow> call" where
  "demo_calls = (\<lambda>_. Fresh)(0 := Fetching ''web'' ''s1'', 1 := Waiting ''web'' ''s1'' 0)"

definition demo_sys :: tree_sys where
  "demo_sys = \<lparr>sy_ts = new_tree_store\<lparr>ts_loading := [(''web|s1'', 0)]\<rparr>, sy_call = demo_calls\<rparr>"

definition demo_cfg :: config where
  "demo_cfg = default_config\<lparr>cfg_hosts := [\<lparr>hc_name = ''web'', hc_http_check = '''',
     hc_http_expect = 0, hc_addr = ''web'', hc_user = ''root'', hc_port = 22, hc_expect = 26 * hour,
     hc_disabled = False\<rparr>]\<rparr>"

lemma demo_sys_reachable: "tree_reachable demo_cfg demo_sys"
proof -
  obtain h where h: "find_host demo_cfg ''web'' = Some h"
    by (simp add: demo_cfg_def find_host_def)
  let ?s = "\<lparr>sy_ts = new_tree_store\<lparr>ts_loading := [(''web|s1'', 0)]\<rparr>,
      sy_call = (\<lambda>_. Fresh)(0 := Fetching ''web'' ''s1'')\<rparr>"
  have "tree_step demo_cfg tree_init
      (tree_init\<lparr>sy_ts := new_tree_store\<lparr>ts_loading := [(''web|s1'', 0)]\<rparr>,
        sy_call := (sy_call tree_init)(0 := entered ''web'' ''s1'' Load)\<rparr>)"
    by (rule enter [OF _ h, where now = 0])
      (simp_all add: tree_init_def tree_lookup_def new_tree_store_def tree_key_def)
  then have first: "tree_step demo_cfg tree_init ?s"
    by (simp add: tree_init_def)
  have "tree_step demo_cfg ?s
      (?s\<lparr>sy_ts := sy_ts ?s, sy_call := (sy_call ?s)(1 := entered ''web'' ''s1'' (Wait 0))\<rparr>)"
    by (rule enter [OF _ h, where now = 0])
      (simp_all add: tree_lookup_def new_tree_store_def tree_key_def)
  then have "tree_step demo_cfg ?s demo_sys"
    by (simp add: demo_sys_def demo_calls_def)
  with first show ?thesis by (meson start next_step)
qed

theorem tree_memory_bound_witness:
  "ts_nodes (sy_ts demo_sys) = 0 \<and>
   (ts_nodes (sy_ts demo_sys) \<le> 800000 \<or> length (ts_trees (sy_ts demo_sys)) = 1)"
proof
  show "ts_nodes (sy_ts demo_sys) = 0" by (simp add: demo_sys_def new_tree_store_def)
  show "ts_nodes (sy_ts demo_sys) \<le> 800000 \<or> length (ts_trees (sy_ts demo_sys)) = 1"
    by (rule tree_memory_bound [OF demo_sys_reachable, THEN conjunct2])
qed

text \<open>
  C18. One retrieval at a time. In every reachable state at most one call is retrieving, or about
  to release, a given key; a call that waits, waits for the one call in flight for its key or
  for one that has returned, in which case its own return is enabled: no wake-up is lost.
\<close>

theorem tree_single_flight:
  assumes "tree_reachable cfg s"
  shows "(in_flight (sy_call s i) k \<and> in_flight (sy_call s j) k \<longrightarrow> i = j) \<and>
    (sy_call s i = Waiting host snap w \<longrightarrow>
       in_flight (sy_call s w) (tree_key host snap) \<or>
       (\<exists>s' r. tree_step cfg s s' \<and> sy_call s' i = Finished r))"
proof -
  have ok: "registered (map_of (ts_loading (sy_ts s))) (sy_call s)" "waits_ok (sy_call s)"
    using reachable_ok [OF assms] by (simp_all add: sys_ok_def)
  have "\<exists>s' r. tree_step cfg s s' \<and> sy_call s' i = Finished r"
    if call: "sy_call s i = Waiting host snap w" and "finished (sy_call s w)"
  proof -
    from that(2) obtain res where "sy_call s w = Finished res" by (auto simp: finished_def)
    from wake [OF call this, of cfg] show ?thesis by fastforce
  qed
  moreover have "in_flight (sy_call s w) (tree_key host snap) \<or> finished (sy_call s w)"
    if "sy_call s i = Waiting host snap w"
    using ok(2) that unfolding waits_ok_def by blast
  moreover have "i = j" if "in_flight (sy_call s i) k" "in_flight (sy_call s j) k"
    using ok(1) that by (simp add: registered_def)
  ultimately show ?thesis by blast
qed

theorem tree_single_flight_witness:
  "sy_call demo_sys 1 = Waiting ''web'' ''s1'' 0 \<and>
   (in_flight (sy_call demo_sys 0) ''web|s1'' \<or>
    (\<exists>s' r. tree_step demo_cfg demo_sys s' \<and> sy_call s' 1 = Finished r))"
proof -
  have w: "sy_call demo_sys 1 = Waiting ''web'' ''s1'' 0"
    by (simp add: demo_sys_def demo_calls_def)
  with tree_single_flight [OF demo_sys_reachable, of 1 "''web|s1''" 0 "''web''" "''s1''" 0]
  show ?thesis by (simp add: tree_key_def)
qed

end
