(* ===== verification/Amarre_Probe.thy ===== *)
theory Amarre_Probe
  imports Amarre_Sante
begin

text \<open>
  The availability probe of package \<open>collector\<close> (\<open>probe.go\<close>): up to three spaced attempts at a
  page of the site, the first acceptable answer concluding that the site is up.

  What the HTTP client and the context do at attempt \<open>i\<close> is the argument \<open>att i\<close>.
\<close>

datatype http_outcome =
    BadRequest string
  | NoAnswer string
  | Answered int "time option"

record http_attempt =
  ha_outcome :: http_outcome
  ha_latency :: duration
  ha_cancelled :: bool

definition probe_attempts :: nat where "probe_attempts = 3"

definition accepts :: "int \<Rightarrow> int \<Rightarrow> bool" where
  "accepts want code \<longleftrightarrow> code = want \<or> (want = 200 \<and> code < 400)"

function probe_loop :: "(nat \<Rightarrow> http_attempt) \<Rightarrow> int \<Rightarrow> nat \<Rightarrow> probe \<Rightarrow> probe" where
  "probe_loop att want i p =
     (if i > probe_attempts then p
      else (let a = att i; p1 = p\<lparr>pr_attempts := int i\<rparr>;
                next_round = (\<lambda>q. if i < probe_attempts \<and> ha_cancelled a then q
                                  else probe_loop att want (i + 1) q)
            in case ha_outcome a of
                 BadRequest e \<Rightarrow> p1\<lparr>pr_err := e\<rparr>
               | NoAnswer e \<Rightarrow> next_round (p1\<lparr>pr_latency := ha_latency a, pr_err := e\<rparr>)
               | Answered code cert \<Rightarrow>
                   let p2 = p1\<lparr>pr_latency := ha_latency a, pr_status := code,
                     pr_cert_expiry := (case cert of None \<Rightarrow> pr_cert_expiry p | Some t \<Rightarrow> t)\<rparr>
                   in if accepts want code then p2\<lparr>pr_up := True, pr_err := ''''\<rparr>
                      else next_round (p2\<lparr>pr_err := ''code '' @ show_int code @ '', attendu '' @ show_int want\<rparr>)))"
  by pat_completeness auto
termination by (relation "measure (\<lambda>(att, want, i, p). Suc probe_attempts - i)") (auto simp: Let_def)

declare probe_loop.simps [simp del]

definition wanted :: "host_config \<Rightarrow> int" where
  "wanted h = (if hc_http_expect h = 0 then 200 else hc_http_expect h)"

definition probe_http :: "time \<Rightarrow> (nat \<Rightarrow> http_attempt) \<Rightarrow> host_config \<Rightarrow> probe option" where
  "probe_http now att h =
     (if hc_http_check h = '''' then None
      else Some (probe_loop att (wanted h) 1
        \<lparr>pr_url = hc_http_check h, pr_up = False, pr_status = 0, pr_latency = 0, pr_attempts = 0,
         pr_err = '''', pr_checked_at = now, pr_cert_expiry = zero_time\<rparr>))"

section \<open>When a site is down\<close>

definition good_attempt :: "int \<Rightarrow> http_attempt \<Rightarrow> bool" where
  "good_attempt want a \<longleftrightarrow> (case ha_outcome a of Answered code _ \<Rightarrow> accepts want code | _ \<Rightarrow> False)"

definition stops :: "http_attempt \<Rightarrow> bool" where
  "stops a \<longleftrightarrow> ha_cancelled a \<or> (case ha_outcome a of BadRequest _ \<Rightarrow> True | _ \<Rightarrow> False)"

lemma probe_step:
  assumes "i \<le> probe_attempts" and "\<not> good_attempt want (att i)"
  shows "if stops (att i) \<and> i < probe_attempts \<or> (\<exists>e. ha_outcome (att i) = BadRequest e)
      then pr_up (probe_loop att want i p) = pr_up p \<and> pr_attempts (probe_loop att want i p) = int i
      else (\<exists>q. probe_loop att want i p = probe_loop att want (i + 1) q \<and> pr_up q = pr_up p \<and>
             pr_attempts q = int i)"
proof (cases "ha_outcome (att i)")
  case (BadRequest e)
  with assms show ?thesis by (simp add: probe_loop.simps [of att want i p])
next
  case (NoAnswer e)
  with assms show ?thesis
    by (auto simp: probe_loop.simps [of att want i p] stops_def Let_def)
next
  case (Answered code cert)
  with assms show ?thesis
    by (auto simp: probe_loop.simps [of att want i p] stops_def good_attempt_def Let_def)
qed

lemma probe_good:
  "i \<le> probe_attempts \<Longrightarrow> good_attempt want (att i) \<Longrightarrow>
   pr_up (probe_loop att want i p) \<and> pr_attempts (probe_loop att want i p) = int i \<and>
   pr_err (probe_loop att want i p) = ''''"
  by (cases "ha_outcome (att i)") (auto simp: probe_loop.simps [of att want i p] good_attempt_def Let_def)

lemma probe_done: "probe_attempts < i \<Longrightarrow> probe_loop att want i p = p"
  by (simp add: probe_loop.simps)

text \<open>From any attempt on: \<open>k\<close> is the last one made.\<close>

lemma probe_from:
  assumes "i \<le> probe_attempts"
  shows "\<exists>k. i \<le> k \<and> k \<le> probe_attempts \<and> pr_attempts (probe_loop att w i p) = int k \<and>
    (pr_up (probe_loop att w i p) \<longleftrightarrow> pr_up p \<or> good_attempt w (att k)) \<and>
    (\<forall>j\<in>{i..<k}. \<not> good_attempt w (att j) \<and> \<not> stops (att j)) \<and>
    (good_attempt w (att k) \<or> stops (att k) \<or> k = probe_attempts)"
  using assms
proof (induction "probe_attempts - i" arbitrary: i p)
  case 0
  then have i: "i = probe_attempts" by simp
  show ?case
  proof (cases "good_attempt w (att i)")
    case True
    with probe_good [of i w att p] i show ?thesis by (intro exI [of _ i]) auto
  next
    case False
    with probe_step [of i w att p] probe_done [of "i + 1"] i show ?thesis
      by (intro exI [of _ i]) (auto split: if_splits)
  qed
next
  case (Suc n)
  show ?case
  proof (cases "good_attempt w (att i)")
    case True
    with probe_good [of i w att p] Suc.prems show ?thesis by (intro exI [of _ i]) auto
  next
    case bad: False
    show ?thesis
    proof (cases "stops (att i)")
      case True
      moreover have "i < probe_attempts" using Suc(2) by simp
      ultimately have "pr_up (probe_loop att w i p) = pr_up p" "pr_attempts (probe_loop att w i p) = int i"
        using bad probe_step [of i w att p] by simp_all
      with True bad Suc.prems show ?thesis by (intro exI [of _ i]) auto
    next
      case False
      with bad probe_step [of i w att p] Suc.prems obtain q where
        q: "probe_loop att w i p = probe_loop att w (i + 1) q" "pr_up q = pr_up p"
        by (auto simp: stops_def split: http_outcome.splits if_splits)
      have "n = probe_attempts - (i + 1)" "i + 1 \<le> probe_attempts" using Suc(2) by simp_all
      from Suc(1) [OF this, of q] obtain k where
        k: "i + 1 \<le> k" "k \<le> probe_attempts" "pr_attempts (probe_loop att w (i + 1) q) = int k"
        "pr_up (probe_loop att w (i + 1) q) \<longleftrightarrow> pr_up q \<or> good_attempt w (att k)"
        "\<forall>j\<in>{i + 1..<k}. \<not> good_attempt w (att j) \<and> \<not> stops (att j)"
        "good_attempt w (att k) \<or> stops (att k) \<or> k = probe_attempts" by auto
      have "{i..<k} = insert i {i + 1..<k}" using k(1) by auto
      with k q bad False show ?thesis by (intro exI [of _ k]) auto
    qed
  qed
qed

definition acceptable :: "host_config \<Rightarrow> http_attempt \<Rightarrow> bool" where
  "acceptable h a \<longleftrightarrow>
     (case ha_outcome a of
        Answered code _ \<Rightarrow> if hc_http_expect h \<in> {0, 200} then code < 400 else code = hc_http_expect h
      | _ \<Rightarrow> False)"

lemma acceptable_good: "good_attempt (wanted h) a \<longleftrightarrow> acceptable h a"
  by (auto simp: acceptable_def good_attempt_def accepts_def wanted_def split: http_outcome.splits)

text \<open>
  C32. No false alarm, no false calm. A site with a probe gets one to three attempts, and the number
  of those made is kept. It is reported up exactly when one of the attempts made answers
  acceptably, which is then the last one: with the code configured, or, when that is 200 or not
  given, with any code below 400. An attempt that is not acceptable is the last one only
  if it is the third, or if it stops the probe: its request could not be built, or its context
  ended. So, unless one stops the probe, a site is reported down only after three failures.
\<close>

theorem probe_verdict:
  assumes "hc_http_check h \<noteq> ''''"
  shows "\<exists>p k. probe_http now att h = Some p \<and> pr_attempts p = int k \<and> 1 \<le> k \<and> k \<le> 3 \<and>
    (pr_up p \<longleftrightarrow> (\<exists>i\<in>{1..k}. acceptable h (att i))) \<and>
    (\<forall>i\<in>{1..<k}. \<not> acceptable h (att i) \<and> \<not> stops (att i)) \<and>
    (\<not> pr_up p \<longrightarrow> k = 3 \<or> stops (att k))"
proof -
  define p0 where "p0 = \<lparr>pr_url = hc_http_check h, pr_up = False, pr_status = 0, pr_latency = 0,
    pr_attempts = 0, pr_err = '''', pr_checked_at = now, pr_cert_expiry = zero_time\<rparr>"
  have "probe_http now att h = Some (probe_loop att (wanted h) 1 p0)"
    using assms by (simp add: probe_http_def p0_def)
  moreover obtain k where k: "1 \<le> k" "k \<le> 3" "pr_attempts (probe_loop att (wanted h) 1 p0) = int k"
    "pr_up (probe_loop att (wanted h) 1 p0) \<longleftrightarrow> good_attempt (wanted h) (att k)"
    "\<forall>j\<in>{1..<k}. \<not> good_attempt (wanted h) (att j) \<and> \<not> stops (att j)"
    "good_attempt (wanted h) (att k) \<or> stops (att k) \<or> k = 3"
    using probe_from [of 1 att "wanted h" p0] by (auto simp: probe_attempts_def p0_def)
  moreover have "{1..k} = insert k {1..<k}" using k(1) by auto
  ultimately show ?thesis by (intro exI [of _ "probe_loop att (wanted h) 1 p0"] exI [of _ k])
    (auto simp: acceptable_good)
qed

definition demo_site :: host_config where
  "demo_site = \<lparr>hc_name = ''web'', hc_http_check = ''https://web/'', hc_http_expect = 0,
     hc_addr = ''web'', hc_user = ''root'', hc_port = 22, hc_expect = 26 * hour, hc_disabled = False\<rparr>"

definition demo_attempts :: "nat \<Rightarrow> http_attempt" where
  "demo_attempts i = \<lparr>ha_outcome = (if i = 2 then Answered 301 None else NoAnswer ''timeout''),
     ha_latency = 5, ha_cancelled = False\<rparr>"

theorem probe_verdict_witness:
  "\<exists>p. probe_http 0 demo_attempts demo_site = Some p \<and> pr_up p \<and> pr_attempts p = 2"
proof -
  have url: "hc_http_check demo_site \<noteq> ''''" by (simp add: demo_site_def)
  have good: "acceptable demo_site (demo_attempts i) \<longleftrightarrow> i = 2" "stops (demo_attempts i) \<longleftrightarrow> False" for i
    by (simp_all add: acceptable_def demo_site_def demo_attempts_def stops_def)
  from probe_verdict [OF url, of 0 demo_attempts, unfolded good] obtain p k where
    p: "probe_http 0 demo_attempts demo_site = Some p" "pr_attempts p = int k" "1 \<le> k" "k \<le> 3"
      "pr_up p \<longleftrightarrow> (\<exists>i\<in>{1..k}. i = 2)" "\<forall>i\<in>{1..<k}. i \<noteq> 2 \<and> \<not> False" "\<not> pr_up p \<longrightarrow> k = 3 \<or> False"
    by (elim exE conjE)
  have "k = 1 \<or> k = 2 \<or> k = 3" using p(3,4) by arith
  then have "k = 2" using p(5-7) by auto
  with p show ?thesis by auto
qed

end
