(* ===== verification/Amarre_Collector.thy ===== *)
theory Amarre_Collector
  imports Amarre_Probe Amarre_Cache Amarre_Trees
begin

text \<open>
  Package \<open>collector\<close>, the part that keeps state (\<open>collector.go\<close>): the spacing of attempts on a
  failing host (\<open>due\<close>, \<open>noteFailure\<close>, \<open>noteSuccess\<close>), the collection of a host and of the
  fleet, the host page composed from the database, the cached relays, and the operations an
  operator starts (\<open>Action\<close>, \<open>Busy\<close>).

  What a host answers during one visit, and the clock readings of that visit, are a record
  \<open>answers\<close>; JSON encoders and decoders are a record \<open>codec\<close> of parameters. A collection is
  one transition of the collector's state.
\<close>

section \<open>State\<close>

record backoff =
  bk_fails :: int
  bk_next :: time

datatype cached =
    CSnapshots "snapshot list"
  | CStats repo_stats
  | CExcludes "string list"
  | CPolicy "policy_entry list"

record collector =
  co_bo :: "string \<rightharpoonup> backoff"
  co_cache :: "cached cache"
  co_trees :: tree_store
  co_running :: "string \<rightharpoonup> string"
  co_db :: db

definition new_collector :: "db \<Rightarrow> collector" where
  "new_collector d =
     \<lparr>co_bo = Map.empty, co_cache = new_cache (90 * second), co_trees = new_tree_store,
      co_running = Map.empty, co_db = d\<rparr>"

record codec =
  enc_stats :: "repo_stats \<Rightarrow> string option"
  enc_snapshots :: "snapshot list \<Rightarrow> string option"
  enc_policy :: "policy_entry list \<Rightarrow> string option"
  enc_excludes :: "string list \<Rightarrow> string option"
  enc_health :: "health \<Rightarrow> string option"
  enc_probe :: "probe \<Rightarrow> string option"
  dec_stats :: "string \<Rightarrow> repo_stats option"
  dec_snapshots :: "string \<Rightarrow> snapshot list \<times> bool"
  dec_policy :: "string \<Rightarrow> policy_entry list \<times> bool"
  dec_excludes :: "string \<Rightarrow> string list \<times> bool"
  dec_health :: "string \<Rightarrow> health option"
  dec_probe :: "string \<Rightarrow> probe option"

section \<open>Spacing of attempts\<close>

definition max_backoff :: duration where "max_backoff = 6 * hour"

definition due :: "time \<Rightarrow> string \<Rightarrow> collector \<Rightarrow> bool" where
  "due now host c = (case co_bo c host of None \<Rightarrow> True | Some b \<Rightarrow> now > bk_next b)"

definition failure_delay :: "config \<Rightarrow> int \<Rightarrow> duration" where
  "failure_delay cfg fails =
     (let d = wrap64 (cfg_interval cfg * 2 ^ nat (min fails 8))
      in if d > max_backoff then max_backoff else d)"

definition note_failure :: "config \<Rightarrow> time \<Rightarrow> string \<Rightarrow> collector \<Rightarrow> collector" where
  "note_failure cfg now host c =
     (let fails = (case co_bo c host of None \<Rightarrow> 0 | Some b \<Rightarrow> bk_fails b) + 1
      in c\<lparr>co_bo := (co_bo c)(host \<mapsto>
             \<lparr>bk_fails = fails, bk_next = now + failure_delay cfg fails\<rparr>)\<rparr>)"

definition note_success :: "string \<Rightarrow> collector \<Rightarrow> collector" where
  "note_success host c = c\<lparr>co_bo := (co_bo c)(host := None)\<rparr>"

section \<open>Collection\<close>

record answers =
  an_start :: time
  an_later :: time
  an_status :: "fleet_error + status"
  an_stats :: "fleet_error + repo_stats"
  an_snapshots :: "fleet_error + snapshot list"
  an_policy :: "fleet_error + policy_entry list"
  an_excludes :: "fleet_error + string list"
  an_health :: "fleet_error + health"
  an_http :: "nat \<Rightarrow> http_attempt"

definition save_meta :: "time \<Rightarrow> string \<Rightarrow> string \<Rightarrow> string option \<Rightarrow> db \<Rightarrow> db" where
  "save_meta now host kind encoded d =
     (case encoded of
        None \<Rightarrow> d
      | Some payload \<Rightarrow> (case put_meta now host kind payload d of Inl e \<Rightarrow> d | Inr d' \<Rightarrow> d'))"

definition save_answer ::
  "time \<Rightarrow> string \<Rightarrow> string \<Rightarrow> ('a \<Rightarrow> string option) \<Rightarrow> fleet_error + 'a \<Rightarrow> db \<Rightarrow> db" where
  "save_answer now host kind enc r d = (case r of Inl e \<Rightarrow> d | Inr v \<Rightarrow> save_meta now host kind (enc v) d)"

definition failed_check :: "string \<Rightarrow> answers \<Rightarrow> fleet_error \<Rightarrow> check" where
  "failed_check host a e =
     \<lparr>ck_host = host, ck_collected = an_start a, ck_reachable = False, ck_err = error_text e,
      ck_snap_id = '''', ck_snap_at = zero_time, ck_size = 0, ck_repo_size = 0, ck_repo_raw = 0\<rparr>"

definition reached_check :: "string \<Rightarrow> answers \<Rightarrow> status \<Rightarrow> check" where
  "reached_check host a st =
     (let c = \<lparr>ck_host = host, ck_collected = an_start a, ck_reachable = True, ck_err = '''',
               ck_snap_id = st_snapshot_id st, ck_snap_at = st_time st, ck_size = st_size_bytes st,
               ck_repo_size = 0, ck_repo_raw = 0\<rparr>
      in case an_stats a of
           Inl e \<Rightarrow> c
         | Inr rs \<Rightarrow>
             c\<lparr>ck_repo_size := rp_total_size rs, ck_repo_raw := rp_uncompressed_size rs,
               ck_size := (if ck_size c = 0 \<and> rp_source_size rs > 0 then rp_source_size rs else ck_size c)\<rparr>)"

definition save_answers :: "codec \<Rightarrow> string \<Rightarrow> answers \<Rightarrow> db \<Rightarrow> db" where
  "save_answers cd host a d =
     (let t = an_later a;
          d1 = save_answer t host ''stats'' (enc_stats cd) (an_stats a) d;
          d2 = save_answer t host ''snapshots'' (enc_snapshots cd) (an_snapshots a) d1;
          d3 = save_answer t host ''policy'' (enc_policy cd) (an_policy a) d2;
          d4 = save_answer t host ''excludes'' (enc_excludes cd) (an_excludes a) d3
      in save_answer t host ''health'' (enc_health cd) (an_health a) d4)"

definition save_probe :: "codec \<Rightarrow> host_config \<Rightarrow> answers \<Rightarrow> db \<Rightarrow> db" where
  "save_probe cd h a d =
     (case probe_http (an_later a) (an_http a) h of
        Some p \<Rightarrow> save_meta (an_later a) (hc_name h) ''probe'' (enc_probe cd p) d
      | None \<Rightarrow> (case delete_meta (hc_name h) ''probe'' d of Inl e \<Rightarrow> d | Inr d' \<Rightarrow> d'))"

definition collect_one :: "codec \<Rightarrow> config \<Rightarrow> answers \<Rightarrow> host_config \<Rightarrow> collector \<Rightarrow> collector" where
  "collect_one cd cfg a h c =
     (let host = hc_name h;
          (chk, c1) =
            (case an_status a of
               Inl e \<Rightarrow> (failed_check host a e, note_failure cfg (an_later a) host c)
             | Inr st \<Rightarrow>
                 (reached_check host a st,
                  (note_success host c)\<lparr>co_db := save_answers cd host a (co_db c)\<rparr>));
          d2 = save_probe cd h a (co_db c1)
      in c1\<lparr>co_cache := cache_invalidate host (co_cache c1),
            co_db := (case record_check chk d2 of Inl e \<Rightarrow> d2 | Inr d3 \<Rightarrow> d3)\<rparr>)"

text \<open>
  \<open>CollectAll\<close> starts the due hosts; they run concurrently, four at a time, on disjoint keys of
  every shared map. \<open>sched\<close> is the order in which the collections take effect.
\<close>

definition due_hosts :: "config \<Rightarrow> time \<Rightarrow> collector \<Rightarrow> host_config list" where
  "due_hosts cfg now c = filter (\<lambda>h. \<not> hc_disabled h \<and> due now (hc_name h) c) (cfg_hosts cfg)"

type_synonym schedule = "host_config list \<Rightarrow> host_config list"

definition collect_all ::
  "schedule \<Rightarrow> codec \<Rightarrow> config \<Rightarrow> time \<Rightarrow> (string \<Rightarrow> answers) \<Rightarrow> collector \<Rightarrow> collector" where
  "collect_all sched cd cfg now ans c =
     foldl (\<lambda>c h. collect_one cd cfg (ans (hc_name h)) h c) c (sched (due_hosts cfg now c))"

text \<open>\<open>RecordHealthSnapshot\<close>: errors of single records are only logged.\<close>

definition record_health_snapshot :: "codec \<Rightarrow> config \<Rightarrow> time \<Rightarrow> collector \<Rightarrow> collector" where
  "record_health_snapshot cd cfg now c =
     (case sante_fleet (dec_health cd) (dec_probe cd) now cfg (co_db c) of
        Inl e \<Rightarrow> c
      | Inr ss \<Rightarrow>
          c\<lparr>co_db := foldl (\<lambda>d s. case record_health (sa_name s) now (sante_state s) (sa_crit s)
                                       (sa_warn s) (summary s) d of
                                  Inl e \<Rightarrow> d | Inr d' \<Rightarrow> d') (co_db c) ss\<rparr>)"

text \<open>One round of the loop of \<open>Run\<close> after the first; reaping is the pool's.\<close>

definition run_round ::
  "schedule \<Rightarrow> codec \<Rightarrow> config \<Rightarrow> time \<Rightarrow> (string \<Rightarrow> answers) \<Rightarrow> collector \<Rightarrow> collector" where
  "run_round sched cd cfg now ans c =
     (let c1 = record_health_snapshot cd cfg now (collect_all sched cd cfg now ans c);
          d1 = (case purge_expired_sessions now (co_db c1) of Inl e \<Rightarrow> co_db c1 | Inr d \<Rightarrow> d);
          d2 = (case purge_health_history now (15 * 24 * hour) d1 of Inl e \<Rightarrow> d1 | Inr d \<Rightarrow> d)
      in c1\<lparr>co_db := d2\<rparr>)"

section \<open>The host page\<close>

record detail =
  de_host :: host_config
  de_view :: "host_view option"
  de_snapshots :: "snapshot list"
  de_stats :: "repo_stats option"
  de_policy :: "policy_entry list"
  de_excludes :: "string list"
  de_health :: "health option"
  de_probe :: "probe option"
  de_history :: "check list"
  de_err :: string
  de_meta_at :: time

datatype collector_error =
    UnknownHost string
  | BadVerb string
  | ErrBusy string string
  | RemoteError fleet_error
  | TreeError tree_error

definition load_list :: "(string \<Rightarrow> 'a list \<times> bool) \<Rightarrow> string \<Rightarrow> string \<Rightarrow> db \<Rightarrow> 'a list \<times> bool" where
  "load_list dec host kind d =
     (case get_meta host kind d of Inl e \<Rightarrow> ([], False) | Inr (payload, _) \<Rightarrow> dec payload)"

definition host_detail ::
  "codec \<Rightarrow> time \<Rightarrow> config \<Rightarrow> string \<Rightarrow> collector \<Rightarrow> collector_error + detail" where
  "host_detail cd now cfg name c =
     (case find_host cfg name of
        None \<Rightarrow> Inl (UnknownHost name)
      | Some hc \<Rightarrow>
          let d = co_db c;
              snaps = load_list (dec_snapshots cd) name ''snapshots'' d;
              pr = load_meta (dec_probe cd) name ''probe'' d
          in Inr \<lparr>de_host = hc,
               de_view = (case fleet_view now cfg d of
                  Inl e \<Rightarrow> None | Inr vs \<Rightarrow> find (\<lambda>v. hv_name v = name) (rev vs)),
               de_snapshots = fst snaps,
               de_stats = load_meta (dec_stats cd) name ''stats'' d,
               de_policy = fst (load_list (dec_policy cd) name ''policy'' d),
               de_excludes = fst (load_list (dec_excludes cd) name ''excludes'' d),
               de_health = load_meta (dec_health cd) name ''health'' d,
               de_probe = (case pr of None \<Rightarrow> None | Some p \<Rightarrow> if pr_url p \<noteq> '''' then Some p else None),
               de_history = (case history name 30 d of Inl e \<Rightarrow> [] | Inr cs \<Rightarrow> cs),
               de_err = (if snd snaps then '''' else fr ''aucune collecte encore aboutie pour cet h^ote''),
               de_meta_at = (case get_meta name ''snapshots'' d of Inl e \<Rightarrow> zero_time | Inr (_, t) \<Rightarrow> t)\<rparr>)"

section \<open>Cached relays\<close>

text \<open>
  \<open>snapshotsCached\<close> and its three siblings: the cached value, else the host's answer, which is
  then cached. The key ends in the kind, so the type of the value is the one expected.
\<close>

definition relay ::
  "time \<Rightarrow> string \<Rightarrow> (cached \<Rightarrow> 'a option) \<Rightarrow> ('a \<Rightarrow> cached) \<Rightarrow> fleet_error + 'a \<Rightarrow> string
     \<Rightarrow> collector \<Rightarrow> (collector_error + 'a) \<times> collector" where
  "relay now kind proj pack answer host c =
     (case Option.bind (cache_get now (host @ ''|'' @ kind) (co_cache c)) proj of
        Some v \<Rightarrow> (Inr v, c)
      | None \<Rightarrow>
          (case answer of
             Inl e \<Rightarrow> (Inl (RemoteError e), c)
           | Inr v \<Rightarrow> (Inr v, c\<lparr>co_cache := cache_put now (host @ ''|'' @ kind) (pack v) (co_cache c)\<rparr>)))"

definition snapshots_of ::
  "time \<Rightarrow> config \<Rightarrow> (host_config \<Rightarrow> fleet_error + snapshot list) \<Rightarrow> string \<Rightarrow> collector
     \<Rightarrow> (collector_error + snapshot list) \<times> collector" where
  "snapshots_of now cfg ask host c =
     (case find_host cfg host of
        None \<Rightarrow> (Inl (UnknownHost host), c)
      | Some h \<Rightarrow> relay now ''snapshots'' (\<lambda>v. case v of CSnapshots s \<Rightarrow> Some s | _ \<Rightarrow> None) CSnapshots
                    (ask h) (hc_name h) c)"

definition policy_of ::
  "time \<Rightarrow> config \<Rightarrow> (host_config \<Rightarrow> fleet_error + policy_entry list) \<Rightarrow> string \<Rightarrow> collector
     \<Rightarrow> (collector_error + policy_entry list) \<times> collector" where
  "policy_of now cfg ask host c =
     (case find_host cfg host of
        None \<Rightarrow> (Inl (UnknownHost host), c)
      | Some h \<Rightarrow> relay now ''policy'' (\<lambda>v. case v of CPolicy p \<Rightarrow> Some p | _ \<Rightarrow> None) CPolicy
                    (ask h) (hc_name h) c)"

text \<open>\<open>Browse\<close>: the result of \<open>Tree\<close> and, on its failure, of a plain listing.\<close>

definition browse ::
  "config \<Rightarrow> tree_error + tree \<Rightarrow> fleet_error + node list \<times> bool \<Rightarrow> string \<Rightarrow> string
     \<Rightarrow> collector_error + node list \<times> bool \<times> host_config" where
  "browse cfg tree_result listing host path =
     (case find_host cfg host of
        None \<Rightarrow> Inl (UnknownHost host)
      | Some hc \<Rightarrow>
          (case tree_result of
             Inr t \<Rightarrow> Inr (children t path, False, hc)
           | Inl _ \<Rightarrow>
               (case listing of
                  Inl e \<Rightarrow> Inl (RemoteError e)
                | Inr (nodes, truncated) \<Rightarrow> Inr (nodes, truncated, hc))))"

section \<open>Operations\<close>

definition verbs :: "string list" where
  "verbs = [''check'', ''backup'', ''unlock'', ''refresh'']"

text \<open>The synchronous half: refusals, then the reservation of the host.\<close>

definition action_begin ::
  "time \<Rightarrow> config \<Rightarrow> string \<Rightarrow> string \<Rightarrow> string \<Rightarrow> string \<Rightarrow> collector
     \<Rightarrow> collector_error + host_config \<times> collector" where
  "action_begin now cfg host verb actor ip c =
     (case find_host cfg host of
        None \<Rightarrow> Inl (UnknownHost host)
      | Some hc \<Rightarrow>
          if verb \<notin> set verbs then Inl (BadVerb verb)
          else (case co_running c host of
                  Some cur \<Rightarrow> Inl (ErrBusy host cur)
                | None \<Rightarrow>
                    Inr (hc, c\<lparr>co_running := (co_running c)(host \<mapsto> verb),
                               co_db := audit now actor ip verb host (fr ''demand~e'') (co_db c)\<rparr>)))"

text \<open>
  The goroutine: the remote command, or an immediate collection for \<open>refresh\<close>; the audit of the
  outcome; on success fresh data. \<open>again\<close> is the visit of the final collection.
\<close>

definition forget_host :: "string \<Rightarrow> collector \<Rightarrow> collector" where
  "forget_host host c =
     c\<lparr>co_cache := cache_invalidate host (co_cache c), co_trees := invalidate_trees host (co_trees c)\<rparr>"

definition action_run ::
  "codec \<Rightarrow> config \<Rightarrow> (string \<Rightarrow> fleet_error option) \<Rightarrow> answers \<Rightarrow> answers \<Rightarrow> time \<Rightarrow> host_config
     \<Rightarrow> string \<Rightarrow> string \<Rightarrow> string \<Rightarrow> collector \<Rightarrow> collector" where
  "action_run cd cfg command first again now h verb actor ip c =
     (let host = hc_name h;
          (err, c1) =
            (if verb = ''refresh'' then (None, collect_one cd cfg first h (forget_host host c))
             else (command verb, c))
      in case err of
           Some e \<Rightarrow>
             c1\<lparr>co_db := audit now actor ip verb host (fr ''~echec : '' @ error_text e) (co_db c1)\<rparr>
         | None \<Rightarrow>
             (let c2 = c1\<lparr>co_db := audit now actor ip verb host (fr ''succ`es'') (co_db c1)\<rparr>
              in collect_one cd cfg again h (forget_host host c2)))"

definition action_end :: "host_config \<Rightarrow> collector \<Rightarrow> collector" where
  "action_end h c = c\<lparr>co_running := (co_running c)(hc_name h := None)\<rparr>"

definition busy :: "string \<Rightarrow> collector \<Rightarrow> string option" where
  "busy host c = co_running c host"

definition collector_error_text :: "collector_error \<Rightarrow> string" where
  "collector_error_text e =
     (case e of
        UnknownHost h \<Rightarrow> fr ''h^ote inconnu : '' @ h
      | BadVerb v \<Rightarrow> fr ''op~eration non propos~ee : '' @ v
      | ErrBusy h v \<Rightarrow> fr ''une op~eration << '' @ v @ fr '' >> est d~ej`a en cours sur '' @ h @
          fr '' -- attendre qu'elle se termine''
      | RemoteError f \<Rightarrow> error_text f
      | TreeError t \<Rightarrow>
          (case t of TreeUnknownHost h \<Rightarrow> fr ''h^ote inconnu : '' @ h
           | TreeFetch f \<Rightarrow> error_text f
           | TreeFailed h \<Rightarrow> fr ''r~ecup~eration de l'arborescence de '' @ h @ fr '' en ~echec''))"

section \<open>Concurrent operations\<close>

text \<open>
  Operators press buttons while the periodic round runs. A request is an \<open>action_begin\<close>; an
  accepted one is a goroutine that runs and ends later, at any time.
\<close>

datatype task = NoTask | Running host_config string | Ending host_config string | Over

record act_sys =
  ac_co :: collector
  ac_task :: "nat \<Rightarrow> task"

definition act_init :: "db \<Rightarrow> act_sys" where
  "act_init d = \<lparr>ac_co = new_collector d, ac_task = (\<lambda>_. NoTask)\<rparr>"

inductive act_step :: "codec \<Rightarrow> config \<Rightarrow> act_sys \<Rightarrow> act_sys \<Rightarrow> bool" for cd cfg where
  accept: "ac_task s i = NoTask \<Longrightarrow>
    action_begin now cfg host verb actor ip (ac_co s) = Inr (h, c') \<Longrightarrow>
    act_step cd cfg s (s\<lparr>ac_co := c', ac_task := (ac_task s)(i := Running h verb)\<rparr>)"
| refuse: "action_begin now cfg host verb actor ip (ac_co s) = Inl e \<Longrightarrow> act_step cd cfg s s"
| work: "ac_task s i = Running h verb \<Longrightarrow>
    act_step cd cfg s (s\<lparr>ac_co := action_run cd cfg command first again now h verb actor ip (ac_co s),
      ac_task := (ac_task s)(i := Ending h verb)\<rparr>)"
| leave: "ac_task s i = Ending h verb \<Longrightarrow>
    act_step cd cfg s (s\<lparr>ac_co := action_end h (ac_co s), ac_task := (ac_task s)(i := Over)\<rparr>)"
| tick: "act_step cd cfg s (s\<lparr>ac_co := run_round sched cd cfg now ans (ac_co s)\<rparr>)"

inductive act_reachable :: "codec \<Rightarrow> config \<Rightarrow> act_sys \<Rightarrow> bool" for cd cfg where
  act_start: "act_reachable cd cfg (act_init d)"
| act_next: "act_reachable cd cfg s \<Longrightarrow> act_step cd cfg s s' \<Longrightarrow> act_reachable cd cfg s'"

end
