(* ===== verification/Amarre_Collector_Facts.thy ===== *)
theory Amarre_Collector_Facts
  imports Amarre_Collector Amarre_Interleave
begin

text \<open>
  What the collector guarantees: a collection is a sequence of database statements and its
  result is what the pages show; the schedule of attempts on a failing host; one visit per due
  host and round; one operation at a time per host.
\<close>

section \<open>A collection on the database\<close>

definition visit_check :: "host_config \<Rightarrow> answers \<Rightarrow> check" where
  "visit_check h a =
     (case an_status a of
        Inl e \<Rightarrow> failed_check (hc_name h) a e
      | Inr st \<Rightarrow> reached_check (hc_name h) a st)"

definition visit_db :: "codec \<Rightarrow> host_config \<Rightarrow> answers \<Rightarrow> db \<Rightarrow> db" where
  "visit_db cd h a d =
     save_probe cd h a (case an_status a of Inl e \<Rightarrow> d | Inr st \<Rightarrow> save_answers cd (hc_name h) a d)"

lemma collect_one_db:
  "co_db (collect_one cd cfg a h c) =
   (case record_check (visit_check h a) (visit_db cd h a (co_db c)) of
      Inl e \<Rightarrow> visit_db cd h a (co_db c) | Inr d \<Rightarrow> d)"
  by (cases "an_status a")
    (simp_all add: collect_one_def Let_def visit_check_def visit_db_def note_failure_def note_success_def
      split: sum.splits)

lemma collect_one_bo:
  "co_bo (collect_one cd cfg a h c) =
   (case an_status a of
      Inl e \<Rightarrow> co_bo (note_failure cfg (an_later a) (hc_name h) c)
    | Inr st \<Rightarrow> co_bo (note_success (hc_name h) c))"
  by (cases "an_status a") (simp_all add: collect_one_def Let_def)

lemma collect_one_running [simp]: "co_running (collect_one cd cfg a h c) = co_running c"
  by (cases "an_status a")
    (simp_all add: collect_one_def Let_def note_failure_def note_success_def)

lemma visit_check_host [simp]: "ck_host (visit_check h a) = hc_name h"
  by (simp add: visit_check_def failed_check_def reached_check_def Let_def split: sum.splits)

text \<open>The metadata statements of a visit change the metadata only.\<close>

definition meta_only :: "db \<Rightarrow> db \<Rightarrow> bool" where
  "meta_only d d' \<longleftrightarrow> (\<exists>m. d' = d\<lparr>db_meta := m\<rparr>) \<and> (store_reachable d \<longrightarrow> store_reachable d') \<and>
     (store_inv d \<longrightarrow> store_inv d')"

lemma meta_only_refl [simp]: "meta_only d d"
  unfolding meta_only_def by (metis db.surjective db.update_convs(4))

lemma meta_only_trans: "meta_only d d' \<Longrightarrow> meta_only d' d'' \<Longrightarrow> meta_only d d''"
  unfolding meta_only_def by fastforce

lemma meta_only_save: "meta_only d (save_meta now host kind e d)"
proof (cases e)
  case (Some p)
  show ?thesis
  proof (cases "put_meta now host kind p d")
    case (Inr d')
    then have "\<exists>m. d' = d\<lparr>db_meta := m\<rparr>" by (auto simp: put_meta_def err_iff)
    with Inr Some show ?thesis
      by (auto simp: save_meta_def meta_only_def intro: reach_step st_put put_meta_inv)
  qed (simp add: save_meta_def Some)
qed (simp add: save_meta_def)

lemma meta_only_answer: "meta_only d (save_answer now host kind enc r d)"
  by (cases r) (simp_all add: save_answer_def meta_only_save)

lemma meta_only_answer_on: "meta_only d x \<Longrightarrow> meta_only d (save_answer now host kind enc r x)"
  by (rule meta_only_trans [OF _ meta_only_answer])

lemma meta_only_answers: "meta_only d (save_answers cd host a d)"
  unfolding save_answers_def Let_def
  by (intro meta_only_answer_on) (rule meta_only_refl)

lemma meta_only_delete: "delete_meta h k d = Inr d' \<Longrightarrow> meta_only d d'"
  unfolding meta_only_def
proof (intro conjI impI)
  assume del: "delete_meta h k d = Inr d'"
  then show "\<exists>m. d' = d\<lparr>db_meta := m\<rparr>" by (auto simp: delete_meta_def err_iff)
  show "store_reachable d'" if "store_reachable d" using that del by (blast intro: reach_step st_delete)
  show "store_inv d'" if "store_inv d" using that del by (rule delete_meta_inv [rotated])
qed

lemma meta_only_probe: "meta_only d (save_probe cd h a d)"
  by (auto simp: save_probe_def meta_only_save meta_only_delete split: option.splits sum.splits)

lemma visit_db_meta: "meta_only d (visit_db cd h a d)"
  unfolding visit_db_def
  by (cases "an_status a") (auto intro: meta_only_probe meta_only_trans [OF meta_only_answers])

lemma visit_db_frame [simp]:
  "db_checks (visit_db cd h a d) = db_checks d" "db_fails (visit_db cd h a d) = db_fails d"
  "db_audit (visit_db cd h a d) = db_audit d" "db_users (visit_db cd h a d) = db_users d"
  using visit_db_meta [of d cd h a] by (auto simp: meta_only_def)

lemma collect_one_reach:
  "store_reachable (co_db c) \<Longrightarrow> store_reachable (co_db (collect_one cd cfg a h c))"
  using visit_db_meta [of "co_db c" cd h a]
  by (auto simp: collect_one_db meta_only_def intro: reach_step st_check split: sum.splits)

lemma collect_one_fails [simp]: "db_fails (co_db (collect_one cd cfg a h c)) = db_fails (co_db c)"
  by (auto simp: collect_one_db record_check_def)

lemma collect_one_row:
  assumes "\<not> db_fails (co_db c) SInsertCheck"
  shows "\<exists>r. db_checks (co_db (collect_one cd cfg a h c)) = db_checks (co_db c) @ [r] \<and>
    cr_host r = hc_name h \<and> check_of r = stored_check (visit_check h a)"
proof -
  obtain d' where d': "record_check (visit_check h a) (visit_db cd h a (co_db c)) = Inr d'"
    using assms by (simp add: record_check_def)
  from record_check_rows [OF this] d' show ?thesis by (auto simp: collect_one_db)
qed

section \<open>Properties of a collection\<close>

text \<open>
  C9. What is collected is what is shown. After a visit of a host, in any reachable database
  whose engine accepts the two statements, the fleet view shows that host according to the
  outcome of this visit (unreachable with its error, or the snapshot found, times in whole
  seconds), and every other host as before.
\<close>

theorem collected_is_shown:
  assumes "store_reachable (co_db c)" and "\<not> db_fails (co_db c) SInsertCheck"
    and "\<not> db_fails (co_db c) SLatestChecks"
  shows "fleet_view now cfg (co_db (collect_one cd cfg a h c)) =
    Inr (map (\<lambda>h'. view_of now h'
      (if hc_name h' = hc_name h then Some (stored_check (visit_check h a))
       else map_option check_of (last_row (hc_name h') (db_checks (co_db c))))) (cfg_hosts cfg))"
proof -
  let ?d = "co_db (collect_one cd cfg a h c)"
  have inv: "store_inv ?d" by (rule reachable_inv [OF collect_one_reach [OF assms(1)]])
  obtain r where r: "db_checks ?d = db_checks (co_db c) @ [r]" "cr_host r = hc_name h"
      "check_of r = stored_check (visit_check h a)"
    using collect_one_row [OF assms(2)] by blast
  have "\<not> db_fails ?d SLatestChecks" using assms(3) by simp
  then show ?thesis
    by (subst fleet_view_Inr [OF inv]) (auto simp: r)
qed

definition unit_codec :: codec where
  "unit_codec = \<lparr>
     enc_stats = (\<lambda>x. if x = zero_stats then Some ''s'' else None),
     enc_snapshots = (\<lambda>x. if x = [] then Some ''n'' else None),
     enc_policy = (\<lambda>x. if x = [] then Some ''p'' else None),
     enc_excludes = (\<lambda>x. if x = [] then Some ''e'' else None),
     enc_health = (\<lambda>x. if x = zero_health then Some ''h'' else None),
     enc_probe = (\<lambda>x. None),
     dec_stats = (\<lambda>s. Some zero_stats), dec_snapshots = (\<lambda>s. ([], True)),
     dec_policy = (\<lambda>s. ([], True)), dec_excludes = (\<lambda>s. ([], True)),
     dec_health = (\<lambda>s. Some zero_health), dec_probe = (\<lambda>s. None)\<rparr>"

definition demo_answers :: answers where
  "demo_answers = \<lparr>an_start = 5 * second, an_later = 6 * second, an_status = Inl PolicyMissing,
     an_stats = Inl PolicyMissing, an_snapshots = Inl PolicyMissing, an_policy = Inl PolicyMissing,
     an_excludes = Inl PolicyMissing, an_health = Inl PolicyMissing,
     an_http = (\<lambda>_. \<lparr>ha_outcome = NoAnswer ''timeout'', ha_latency = 0, ha_cancelled = False\<rparr>)\<rparr>"

theorem collected_is_shown_witness:
  "fleet_view (7 * second) (default_config\<lparr>cfg_hosts := [demo_site]\<rparr>)
     (co_db (collect_one unit_codec default_config demo_answers demo_site (new_collector empty_db))) =
   Inr [view_of (7 * second) demo_site (Some (stored_check (failed_check ''web'' demo_answers PolicyMissing)))]"
proof -
  let ?c = "new_collector empty_db"
  let ?cfg = "default_config\<lparr>cfg_hosts := [demo_site]\<rparr>"
  have "store_reachable (co_db ?c)" by (simp add: new_collector_def empty_reachable)
  moreover have "\<not> db_fails (co_db ?c) SInsertCheck" "\<not> db_fails (co_db ?c) SLatestChecks"
    by (simp_all add: new_collector_def empty_db_def)
  moreover have "co_db (collect_one unit_codec default_config demo_answers demo_site ?c) =
      co_db (collect_one unit_codec ?cfg demo_answers demo_site ?c)"
    by (simp add: collect_one_db)
  ultimately show ?thesis
    using collected_is_shown [of ?c "7 * second" ?cfg unit_codec demo_answers demo_site]
    by (simp add: visit_check_def demo_answers_def demo_site_def)
qed

section \<open>Spacing of attempts\<close>

definition delay_after :: "config \<Rightarrow> nat \<Rightarrow> duration" where
  "delay_after cfg n = min (cfg_interval cfg * 2 ^ min n 8) (6 * hour)"

lemma failure_delay_spec:
  assumes "0 < cfg_interval cfg" and "cfg_interval cfg * 2 ^ 8 < 2 ^ 63"
  shows "failure_delay cfg (int n) = delay_after cfg n"
proof -
  have n: "nat (min (int n) 8) = min n 8" by (simp add: min_def)
  have "(2::int) ^ min n 8 \<le> 2 ^ 8" by (rule power_increasing) simp_all
  then have "cfg_interval cfg * 2 ^ min n 8 \<le> cfg_interval cfg * 2 ^ 8"
    using assms(1) by (intro mult_left_mono) simp_all
  moreover have "0 < cfg_interval cfg * 2 ^ min n 8" using assms(1) by simp
  ultimately have "in_int64 (cfg_interval cfg * 2 ^ min n 8)"
    using assms(2) unfolding in_int64_def by linarith
  then have "wrap64 (cfg_interval cfg * 2 ^ min n 8) = cfg_interval cfg * 2 ^ min n 8" by (rule wrap64_id)
  then show ?thesis
    unfolding failure_delay_def delay_after_def n Let_def max_backoff_def by (simp only: min_def) auto
qed

lemma failures_in_a_row:
  assumes "0 < cfg_interval cfg" and "cfg_interval cfg * 2 ^ 8 < 2 ^ 63" and "co_bo c host = None"
  shows "co_bo (foldl (\<lambda>c t. note_failure cfg t host c) c ts) host =
    (if ts = [] then None
     else Some \<lparr>bk_fails = int (length ts), bk_next = last ts + delay_after cfg (length ts)\<rparr>)"
proof (induction ts rule: rev_induct)
  case (snoc t ts)
  have "int (length ts) + 1 = int (length (ts @ [t]))" by simp
  then show ?case
    using snoc failure_delay_spec [OF assms(1,2), of "Suc (length ts)"]
    by (cases "ts = []") (simp_all add: note_failure_def Let_def add.commute)
qed (simp add: assms(3))

text \<open>
  C21. A failing host is left alone. With a positive interval of less than 2 to the 55
  nanoseconds (417 days), after the first failures of a host at the times \<open>ts\<close>, with no success
  in between, the host is due again only once the interval doubled per failure (eight times at
  most), or six hours if that is less, has passed since the last one; a success makes it due at
  once.
\<close>

theorem backoff_schedule:
  assumes "0 < cfg_interval cfg" and "cfg_interval cfg * 2 ^ 8 < 2 ^ 63" and "co_bo c host = None"
    and "ts \<noteq> []"
  shows "(due now host (foldl (\<lambda>c t. note_failure cfg t host c) c ts) \<longleftrightarrow>
      last ts + min (cfg_interval cfg * 2 ^ min (length ts) 8) (6 * hour) < now) \<and>
    due now host (note_success host (foldl (\<lambda>c t. note_failure cfg t host c) c ts))"
  using assms(4) failures_in_a_row [OF assms(1-3), of ts]
  by (auto simp: due_def note_success_def delay_after_def)

theorem backoff_schedule_witness:
  "\<not> due (3 * hour) ''web'' (foldl (\<lambda>c t. note_failure default_config t ''web'' c) (new_collector empty_db)
      [0, 1 * hour, 2 * hour]) \<and>
   due (4 * hour + 1) ''web'' (foldl (\<lambda>c t. note_failure default_config t ''web'' c) (new_collector empty_db)
      [0, 1 * hour, 2 * hour])"
proof -
  have i: "0 < cfg_interval default_config" "cfg_interval default_config * 2 ^ 8 < 2 ^ 63"
    by (simp_all add: default_config_def go_time)
  have n: "co_bo (new_collector empty_db) ''web'' = None" by (simp add: new_collector_def)
  note b = backoff_schedule [OF i n, of "[0, 1 * hour, 2 * hour]"]
  show ?thesis
    using b [of "3 * hour"] b [of "4 * hour + 1"]
    by (simp add: default_config_def go_time min_def)
qed

section \<open>A round over the fleet\<close>

definition rows_of :: "string \<Rightarrow> collector \<Rightarrow> check_row list" where
  "rows_of n c = filter (\<lambda>r. cr_host r = n) (db_checks (co_db c))"

lemma collect_one_others:
  assumes "hc_name h \<noteq> n"
  shows "rows_of n (collect_one cd cfg a h c) = rows_of n c" "co_bo (collect_one cd cfg a h c) n = co_bo c n"
proof -
  show "rows_of n (collect_one cd cfg a h c) = rows_of n c"
    using assms record_check_rows [of "visit_check h a" "visit_db cd h a (co_db c)"]
    by (auto simp: rows_of_def collect_one_db split: sum.splits)
  show "co_bo (collect_one cd cfg a h c) n = co_bo c n"
    using assms by (simp add: collect_one_bo note_failure_def note_success_def Let_def split: sum.splits)
qed

lemma collect_run:
  assumes "\<not> db_fails (co_db c) SInsertCheck" and "distinct (map hc_name hs)"
  shows "\<exists>new. rows_of n (foldl (\<lambda>c h. collect_one cd cfg (ans (hc_name h)) h c) c hs) = rows_of n c @ new \<and>
    map check_of new =
      map (\<lambda>h. stored_check (visit_check h (ans n))) (filter (\<lambda>h. hc_name h = n) hs) \<and>
    (n \<notin> set (map hc_name hs) \<longrightarrow>
      co_bo (foldl (\<lambda>c h. collect_one cd cfg (ans (hc_name h)) h c) c hs) n = co_bo c n)"
  using assms
proof (induction hs arbitrary: c)
  case (Cons h hs)
  let ?c = "collect_one cd cfg (ans (hc_name h)) h c"
  from Cons.IH [of ?c] Cons.prems obtain new where
    new: "rows_of n (foldl (\<lambda>c h. collect_one cd cfg (ans (hc_name h)) h c) ?c hs) = rows_of n ?c @ new"
    "map check_of new = map (\<lambda>h. stored_check (visit_check h (ans n))) (filter (\<lambda>h. hc_name h = n) hs)"
    "n \<notin> set (map hc_name hs) \<longrightarrow>
      co_bo (foldl (\<lambda>c h. collect_one cd cfg (ans (hc_name h)) h c) ?c hs) n = co_bo ?c n"
    by auto
  show ?case
  proof (cases "hc_name h = n")
    case True
    obtain r where "db_checks (co_db ?c) = db_checks (co_db c) @ [r]" "cr_host r = n"
      "check_of r = stored_check (visit_check h (ans n))"
      using collect_one_row [OF Cons.prems(1)] True by blast
    with new True show ?thesis by (intro exI [of _ "r # new"]) (auto simp: rows_of_def)
  next
    case False
    with new collect_one_others [OF False] show ?thesis by (intro exI [of _ new]) auto
  qed
qed simp

text \<open>The checks a host gains in a round.\<close>

lemma collect_all_rows:
  assumes "config_ok cfg" and "\<And>hs. mset (sched hs) = mset hs" and "\<not> db_fails (co_db c) SInsertCheck"
    and "h \<in> set (cfg_hosts cfg)"
  shows "\<exists>new. rows_of (hc_name h) (collect_all sched cd cfg now ans c) = rows_of (hc_name h) c @ new \<and>
    (if \<not> hc_disabled h \<and> due now (hc_name h) c
     then map check_of new = [stored_check (visit_check h (ans (hc_name h)))]
     else new = [] \<and> co_bo (collect_all sched cd cfg now ans c) (hc_name h) = co_bo c (hc_name h))"
proof -
  let ?due = "due_hosts cfg now c" and ?n = "hc_name h"
  have dist: "distinct (map hc_name (cfg_hosts cfg))" using assms(1) by (simp add: config_ok_def)
  have m: "mset (map hc_name (sched ?due)) = mset (map hc_name ?due)" using assms(2) by simp
  have "distinct (map hc_name ?due)"
    using distinct_map_filterI [OF dist] by (simp add: due_hosts_def)
  with m have "distinct (map hc_name (sched ?due))" using mset_eq_imp_distinct_iff by blast
  from collect_run [OF assms(3) this, of ?n cd cfg ans] obtain new where
    new: "rows_of ?n (collect_all sched cd cfg now ans c) = rows_of ?n c @ new"
    "map check_of new = map (\<lambda>h. stored_check (visit_check h (ans ?n))) (filter (\<lambda>h. hc_name h = ?n) (sched ?due))"
    "?n \<notin> set (map hc_name (sched ?due)) \<longrightarrow> co_bo (collect_all sched cd cfg now ans c) ?n = co_bo c ?n"
    by (auto simp: collect_all_def)
  have only: "h' = h" if "h' \<in> set (cfg_hosts cfg)" "hc_name h' = ?n" for h'
    using that assms(4) dist by (auto simp: distinct_map dest: inj_onD)
  have set: "set (sched ?due) = set ?due" using assms(2) by (metis set_mset_mset)
  have sub: "set ?due \<subseteq> set (cfg_hosts cfg)" by (auto simp: due_hosts_def)
  show ?thesis
  proof (cases "h \<in> set ?due")
    case True
    have "mset (filter (\<lambda>h'. hc_name h' = ?n) (sched ?due)) = mset (filter (\<lambda>h'. hc_name h' = ?n) ?due)"
      using assms(2) by (metis mset_filter)
    moreover have "filter (\<lambda>h'. hc_name h' = ?n) ?due = filter (\<lambda>h'. h' = h) ?due"
      using only sub by (intro filter_cong) auto
    moreover have "distinct ?due" using \<open>distinct (map hc_name ?due)\<close> by (simp add: distinct_map)
    then have "filter (\<lambda>h'. h' = h) ?due = [h]" using True by (rule filter_only)
    ultimately have "mset (filter (\<lambda>h'. hc_name h' = ?n) (sched ?due)) = {#h#}" by simp
    then have "filter (\<lambda>h'. hc_name h' = ?n) (sched ?due) = [h]" by (rule mset_single_iff [THEN iffD1])
    with new True show ?thesis by (intro exI [of _ new]) (simp add: due_hosts_def)
  next
    case False
    then have "?n \<notin> set (map hc_name (sched ?due))" using only sub set by auto
    moreover from this have "filter (\<lambda>h'. hc_name h' = ?n) (sched ?due) = []"
      by (auto simp: filter_empty_conv) (metis imageI)
    ultimately show ?thesis
      using new False assms(4) by (intro exI [of _ new]) (auto simp: due_hosts_def)
  qed
qed

text \<open>
  C22. One visit per due host and round. In a round, whatever the order in which the concurrent
  collections take effect, a configured host gains exactly one check, that of its visit, when
  it is enabled and due, and otherwise none, its schedule untouched. (Host names are distinct
  in a validated configuration; the database accepts the insertions of checks.)
\<close>

theorem one_visit_per_round:
  assumes "config_ok cfg" and "\<And>hs. mset (sched hs) = mset hs" and "\<not> db_fails (co_db c) SInsertCheck"
    and "h \<in> set (cfg_hosts cfg)"
  shows "\<exists>new. rows_of (hc_name h) (collect_all sched cd cfg now ans c) = rows_of (hc_name h) c @ new \<and>
    (if \<not> hc_disabled h \<and> due now (hc_name h) c
     then map check_of new = [stored_check (visit_check h (ans (hc_name h)))]
     else new = [] \<and> co_bo (collect_all sched cd cfg now ans c) (hc_name h) = co_bo c (hc_name h))"
  by (rule collect_all_rows [OF assms])

definition demo_config :: config where
  "demo_config = default_config\<lparr>cfg_fleet_key := ''key'', cfg_hosts := [demo_site]\<rparr>"

lemma demo_config_ok: "config_ok demo_config"
  by (simp add: config_ok_def demo_config_def demo_site_def go_time)

theorem one_visit_per_round_witness:
  "map check_of (rows_of ''web''
     (collect_all rev unit_codec demo_config 0 (\<lambda>_. demo_answers) (new_collector empty_db))) =
   [stored_check (visit_check demo_site demo_answers)]"
proof -
  have e: "\<not> db_fails (co_db (new_collector empty_db)) SInsertCheck"
    by (simp add: new_collector_def empty_db_def)
  have h: "demo_site \<in> set (cfg_hosts demo_config)" by (simp add: demo_config_def)
  have "mset (rev hs) = mset hs" for hs :: "host_config list" by simp
  from one_visit_per_round [OF demo_config_ok this e h, of unit_codec 0 "\<lambda>_. demo_answers"]
  show ?thesis
    by (simp add: demo_site_def due_def new_collector_def rows_of_def empty_db_def)
qed

section \<open>The host page\<close>

text \<open>What is asked of the JSON package: what an encoder writes, its decoder reads back.\<close>

definition codec_ok :: "codec \<Rightarrow> bool" where
  "codec_ok cd \<longleftrightarrow>
     (\<forall>x s. enc_stats cd x = Some s \<longrightarrow> dec_stats cd s = Some x) \<and>
     (\<forall>x s. enc_snapshots cd x = Some s \<longrightarrow> dec_snapshots cd s = (x, True)) \<and>
     (\<forall>x s. enc_policy cd x = Some s \<longrightarrow> dec_policy cd s = (x, True)) \<and>
     (\<forall>x s. enc_excludes cd x = Some s \<longrightarrow> dec_excludes cd s = (x, True)) \<and>
     (\<forall>x s. enc_health cd x = Some s \<longrightarrow> dec_health cd s = Some x) \<and>
     (\<forall>x s. enc_probe cd x = Some s \<longrightarrow> dec_probe cd s = Some x)"

definition meta_up :: "db \<Rightarrow> bool" where
  "meta_up d \<longleftrightarrow> \<not> db_fails d SPutMeta \<and> \<not> db_fails d SGetMeta"

lemma meta_only_up: "meta_only d d' \<Longrightarrow> meta_up d' = meta_up d"
  by (auto simp: meta_only_def meta_up_def)

text \<open>Reading back one kind through the statements of a visit.\<close>

lemma get_save_same:
  "meta_up d \<Longrightarrow> enc v = Some s \<Longrightarrow>
   get_meta host kind (save_answer now host kind enc (Inr v) d) = Inr (s, of_unix (unix_sec now))"
  using meta.get_put [of d now host kind s]
  by (auto simp: save_answer_def save_meta_def meta_up_def put_meta_def)

lemma get_save_other:
  "kind' \<noteq> kind \<Longrightarrow> get_meta host kind' (save_answer now host kind enc r d) = get_meta host kind' d"
  using meta.get_put_other [of now host kind _ d _ host kind']
  by (auto simp: save_answer_def save_meta_def split: sum.splits option.splits)

lemma get_save_probe: "kind \<noteq> ''probe'' \<Longrightarrow>
    get_meta (hc_name h) kind (save_probe cd h a d) = get_meta (hc_name h) kind d"
  using meta.get_put_other [of "an_later a" "hc_name h" "''probe''" _ d _ "hc_name h" kind]
    meta.get_del_other [of "hc_name h" "''probe''" d _ "hc_name h" kind]
  by (auto simp: save_probe_def save_meta_def split: sum.splits option.splits)

lemma get_meta_record: "record_check chk d = Inr d' \<Longrightarrow> get_meta h k d' = get_meta h k d"
  by (auto simp: record_check_def get_meta_def err_iff)

lemma get_meta_visit:
  "kind \<noteq> ''probe'' \<Longrightarrow> an_status a = Inr st \<Longrightarrow>
   get_meta (hc_name h) kind (co_db (collect_one cd cfg a h c)) =
   get_meta (hc_name h) kind (save_answers cd (hc_name h) a (co_db c))"
  by (auto simp: collect_one_db visit_db_def get_save_probe get_meta_record split: sum.splits)

lemma saved_kinds:
  assumes "meta_up d"
    and "an_stats a = Inr rs" "an_snapshots a = Inr sn" "an_policy a = Inr po" "an_excludes a = Inr ex"
      "an_health a = Inr hl"
    and "enc_stats cd rs = Some s1" "enc_snapshots cd sn = Some s2" "enc_policy cd po = Some s3"
      "enc_excludes cd ex = Some s4" "enc_health cd hl = Some s5"
  shows "get_meta host ''stats'' (save_answers cd host a d) = Inr (s1, of_unix (unix_sec (an_later a)))"
    and "get_meta host ''snapshots'' (save_answers cd host a d) = Inr (s2, of_unix (unix_sec (an_later a)))"
    and "get_meta host ''policy'' (save_answers cd host a d) = Inr (s3, of_unix (unix_sec (an_later a)))"
    and "get_meta host ''excludes'' (save_answers cd host a d) = Inr (s4, of_unix (unix_sec (an_later a)))"
    and "get_meta host ''health'' (save_answers cd host a d) = Inr (s5, of_unix (unix_sec (an_later a)))"
  using assms
  by (simp_all add: save_answers_def Let_def get_save_other get_save_same meta_only_up [OF meta_only_answer])


definition full_answers :: answers where
  "full_answers = demo_answers\<lparr>
     an_status := Inr \<lparr>st_snapshot_id = ''ab'', st_time = 4 * second, st_size_bytes = 7,
       st_hostname = ''web'', st_paths = []\<rparr>,
     an_stats := Inr zero_stats, an_snapshots := Inr [], an_policy := Inr [], an_excludes := Inr [],
     an_health := Inr zero_health\<rparr>"


section \<open>One operation at a time\<close>

text \<open>The goroutine that holds a host, from its acceptance to its end.\<close>

definition holds :: "act_sys \<Rightarrow> nat \<Rightarrow> string \<Rightarrow> string \<Rightarrow> bool" where
  "holds s i host verb \<longleftrightarrow>
     (\<exists>h. hc_name h = host \<and> (ac_task s i = Running h verb \<or> ac_task s i = Ending h verb))"

definition locks_ok :: "act_sys \<Rightarrow> bool" where
  "locks_ok s \<longleftrightarrow>
     (\<forall>host verb. co_running (ac_co s) host = Some verb \<longleftrightarrow> (\<exists>i. holds s i host verb)) \<and>
     (\<forall>i j host v w. holds s i host v \<longrightarrow> holds s j host w \<longrightarrow> i = j)"

lemma round_running: "co_running (run_round sched cd cfg now ans c) = co_running c"
proof -
  have "co_running (foldl (\<lambda>c h. collect_one cd cfg (ans (hc_name h)) h c) c hs) = co_running c" for hs
    by (induction hs arbitrary: c) simp_all
  then have "co_running (collect_all sched cd cfg now ans c) = co_running c"
    by (simp add: collect_all_def)
  then show ?thesis
    by (simp add: run_round_def Let_def record_health_snapshot_def split: sum.splits)
qed

lemma run_running [simp]: "co_running (action_run cd cfg command first again now h verb actor ip c) = co_running c"
  by (simp add: action_run_def Let_def forget_host_def split: option.splits)

lemma begin_Inr: "action_begin now cfg host verb actor ip c = Inr (h, c') \<longleftrightarrow>
    find_host cfg host = Some h \<and> verb \<in> set verbs \<and> co_running c host = None \<and>
    c' = c\<lparr>co_running := (co_running c)(host \<mapsto> verb),
           co_db := audit now actor ip verb host (fr ''demand~e'') (co_db c)\<rparr>"
  by (auto simp: action_begin_def split: option.splits)

lemma step_locks: "act_step cd cfg s s' \<Longrightarrow> locks_ok s \<Longrightarrow> locks_ok s'"
proof (induction rule: act_step.induct)
  case (accept s i now host verb actor ip h c')
  then have free: "co_running (ac_co s) host = None" and h: "hc_name h = host"
    and c': "co_running c' = (co_running (ac_co s))(host \<mapsto> verb)"
    using find_host_Some by (auto simp: begin_Inr)
  let ?s = "s\<lparr>ac_co := c', ac_task := (ac_task s)(i := Running h verb)\<rparr>"
  have none: "\<not> holds s j host v" for j v
    using accept(3) free by (auto simp: locks_ok_def) (metis option.distinct(1))
  have holds: "holds ?s j k v \<longleftrightarrow> (if j = i then k = host \<and> v = verb else holds s j k v)" for j k v
    using accept(1) h by (auto simp: holds_def)
  have idle: "\<not> holds s i k v" for k v using accept(1) by (simp add: holds_def)
  have busy: "co_running (ac_co s) k = Some v \<longleftrightarrow> (\<exists>j. holds s j k v)" for k v
    using accept(3) unfolding locks_ok_def by blast
  have one: "j = j'" if "holds s j k v" "holds s j' k w" for j j' k v w
    using accept(3) that unfolding locks_ok_def by blast
  have "co_running (ac_co ?s) k = Some v \<longleftrightarrow> (\<exists>j. holds ?s j k v)" for k v
  proof (cases "k = host")
    case True
    with none show ?thesis unfolding holds by (auto simp: c')
  next
    case False
    with idle busy [of k v] show ?thesis unfolding holds by (auto simp: c') metis
  qed
  moreover have "j = j'" if "holds ?s j k v" "holds ?s j' k w" for j j' k v w
    using that none one [of j k v j' w] unfolding holds by (auto split: if_splits)
  ultimately show ?case unfolding locks_ok_def by blast
next
  case (work s i h verb command first again now actor ip)
  let ?s = "s\<lparr>ac_co := action_run cd cfg command first again now h verb actor ip (ac_co s),
      ac_task := (ac_task s)(i := Ending h verb)\<rparr>"
  have "holds ?s j k v = holds s j k v" for j k v
    using work(1) by (auto simp: holds_def)
  with work(2) show ?case by (simp add: locks_ok_def)
next
  case (leave s i h verb)
  let ?s = "s\<lparr>ac_co := action_end h (ac_co s), ac_task := (ac_task s)(i := Over)\<rparr>"
  have mine: "holds s i (hc_name h) verb" using leave(1) by (auto simp: holds_def)
  have holds: "holds ?s j k v \<longleftrightarrow> j \<noteq> i \<and> holds s j k v" for j k v
    by (auto simp: holds_def)
  have only: "k = hc_name h" if "holds s i k v" for k v
    using that leave(1) by (auto simp: holds_def)
  have busy: "co_running (ac_co s) k = Some v \<longleftrightarrow> (\<exists>j. holds s j k v)" for k v
    using leave(2) unfolding locks_ok_def by blast
  have one: "j = j'" if "holds s j k v" "holds s j' k w" for j j' k v w
    using leave(2) that unfolding locks_ok_def by blast
  have "co_running (ac_co ?s) k = Some v \<longleftrightarrow> (\<exists>j. holds ?s j k v)" for k v
  proof (cases "k = hc_name h")
    case True
    with one mine have "\<not> (\<exists>j. j \<noteq> i \<and> holds s j k v)" by blast
    with True show ?thesis unfolding holds by (simp add: action_end_def)
  next
    case False
    then have "\<not> holds s i k v" using only by blast
    then have "(\<exists>j. j \<noteq> i \<and> holds s j k v) \<longleftrightarrow> (\<exists>j. holds s j k v)" by metis
    with False busy [of k v] show ?thesis unfolding holds by (simp add: action_end_def)
  qed
  moreover have "j = j'" if "holds ?s j k v" "holds ?s j' k w" for j j' k v w
    using that one unfolding holds by blast
  ultimately show ?case unfolding locks_ok_def by blast
next
  case (tick s sched now ans)
  then show ?case by (simp add: locks_ok_def holds_def round_running)
qed simp

lemma reachable_locks: "act_reachable cd cfg s \<Longrightarrow> locks_ok s"
proof (induction rule: act_reachable.induct)
  case (act_start d)
  then show ?case by (simp add: locks_ok_def act_init_def new_collector_def holds_def)
qed (rule step_locks)

text \<open>
  One operation at a time. In every state reachable by any interleaving of requests,
  running and ending operations and periodic rounds, two goroutines never hold the same host;
  \<open>Busy\<close> names exactly the verb of the one that does; a request for a held host is refused
  with that verb, and one for a known free host and a known verb is accepted.
\<close>

theorem one_operation_per_host:
  assumes "act_reachable cd cfg s"
  shows "(holds s i host v \<and> holds s j host w \<longrightarrow> i = j \<and> v = w) \<and>
    (busy host (ac_co s) = Some v \<longleftrightarrow> (\<exists>i. holds s i host v)) \<and>
    (find_host cfg host \<noteq> None \<and> verb \<in> set verbs \<longrightarrow>
       (if \<exists>i u. holds s i host u
        then \<exists>u. busy host (ac_co s) = Some u \<and>
          action_begin now cfg host verb actor ip (ac_co s) = Inl (ErrBusy host u)
        else \<exists>h c'. action_begin now cfg host verb actor ip (ac_co s) = Inr (h, c')))"
proof -
  have ok: "locks_ok s" using assms by (rule reachable_locks)
  have busy: "co_running (ac_co s) k = Some u \<longleftrightarrow> (\<exists>i. holds s i k u)" for k u
    using ok unfolding locks_ok_def by blast
  have one: "i = j \<and> v = w" if "holds s i host v" "holds s j host w"
  proof
    show "i = j" using ok that unfolding locks_ok_def by blast
    have "Some v = Some w" using busy that by metis
    then show "v = w" by simp
  qed
  have "if \<exists>i u. holds s i host u
      then \<exists>u. busy host (ac_co s) = Some u \<and>
        action_begin now cfg host verb actor ip (ac_co s) = Inl (ErrBusy host u)
      else \<exists>h c'. action_begin now cfg host verb actor ip (ac_co s) = Inr (h, c')"
    if known: "find_host cfg host \<noteq> None" "verb \<in> set verbs"
  proof (cases "co_running (ac_co s) host")
    case None
    then have "\<not> (\<exists>i u. holds s i host u)" using busy by (metis option.distinct(1))
    with None known show ?thesis by (auto simp: action_begin_def)
  next
    case (Some u)
    then have "\<exists>i u. holds s i host u" using busy by blast
    with Some known show ?thesis by (auto simp: action_begin_def busy_def)
  qed
  with one busy show ?thesis unfolding busy_def by blast
qed

theorem one_operation_per_host_demo:
  "busy ''web'' (ac_co (act_init empty_db)) = None \<and>
   (\<exists>h c'. action_begin 0 demo_config ''web'' ''check'' ''root'' ''::1'' (ac_co (act_init empty_db)) = Inr (h, c'))"
proof -
  have f: "find_host demo_config ''web'' \<noteq> None"
    by (simp add: find_host_def demo_config_def demo_site_def)
  have v: "''check'' \<in> set verbs" by (simp add: verbs_def)
  have none: "\<not> holds (act_init empty_db) i ''web'' u" for i u by (simp add: holds_def act_init_def)
  have r: "act_reachable unit_codec demo_config (act_init empty_db)" by (rule act_start)
  have "\<exists>h c'. action_begin 0 demo_config ''web'' ''check'' ''root'' ''::1'' (ac_co (act_init empty_db)) = Inr (h, c')"
    using one_operation_per_host [OF r, where host = "''web''" and verb = "''check''" and now = 0
        and actor = "''root''" and ip = "''::1''"] f v none by auto
  moreover have "busy ''web'' (ac_co (act_init empty_db)) = None"
    by (simp add: busy_def act_init_def new_collector_def)
  ultimately show ?thesis by blast
qed

end
