(* ===== verification/Amarre_Timeline.thy ===== *)
theory Amarre_Timeline
  imports Amarre_Sante
begin

text \<open>
  The history page of package \<open>collector\<close> (\<open>timeline.go\<close>): windows cut into buckets that show
  the worst state seen, the episodes out of the normal, and the fourteen-day balance with its
  percentages in \<open>float64\<close>.

  \<open>fmt\<close> is \<open>Time.Format\<close> in the server's time zone.
\<close>

section \<open>Windows\<close>

record window =
  wi_key :: string
  wi_label :: string
  wi_duration :: duration
  wi_bucket :: duration
  wi_format :: string

definition windows :: "window list" where
  "windows =
     [\<lparr>wi_key = ''24h'', wi_label = ''24 heures'', wi_duration = 24 * hour, wi_bucket = hour, wi_format = ''15h''\<rparr>,
      \<lparr>wi_key = ''7j'', wi_label = ''7 jours'', wi_duration = 7 * 24 * hour, wi_bucket = 4 * hour, wi_format = ''02/01''\<rparr>,
      \<lparr>wi_key = ''14j'', wi_label = ''14 jours'', wi_duration = 14 * 24 * hour, wi_bucket = 6 * hour, wi_format = ''02/01''\<rparr>]"

definition window_by_key :: "string \<Rightarrow> window" where
  "window_by_key k = (case find (\<lambda>w. wi_key w = k) windows of None \<Rightarrow> windows ! 0 | Some w \<Rightarrow> w)"

record cell =
  ce_from :: time
  ce_state :: string
  ce_samples :: int
  ce_title :: string

record row =
  ro_name :: string
  ro_cells :: "cell list"
  ro_oks :: int
  ro_warns :: int
  ro_crits :: int
  ro_gaps :: int
  ro_coverage :: int

record episode =
  ep_host :: string
  ep_start :: time
  ep_end :: time
  ep_ongoing :: bool
  ep_state :: string
  ep_cause :: string
  ep_duration :: duration

record axis =
  ax_index :: int
  ax_label :: string

record bar =
  ba_host :: string
  ba_pct_ok :: int
  ba_pct_warn :: int
  ba_pct_crit :: int
  ba_measured :: int
  ba_total :: int
  ba_coverage :: int
  ba_dur_ok :: duration
  ba_dur_warn :: duration
  ba_dur_crit :: duration

record timeline_data =
  td_window :: window
  td_rows :: "row list"
  td_axis :: "axis list"
  td_episodes :: "episode list"
  td_buckets :: int
  td_depuis :: time
  td_mesures :: int
  td_tronquee :: bool
  td_bars :: "bar list"
  td_bar_days :: int

text \<open>The two maps of the source; a key that is absent reads as zero.\<close>

definition rank :: "string \<Rightarrow> int" where
  "rank s = (if s = ''ok'' then 1 else if s = ''warn'' then 2 else if s = ''crit'' then 3 else 0)"

definition state_name :: "string \<Rightarrow> string" where
  "state_name s =
     (if s = ''ok'' then ''tout va bien'' else if s = ''warn'' then fr ''`a surveiller''
      else if s = ''crit'' then ''critique'' else if s = ''unknown'' then ''aucune mesure'' else '''')"

section \<open>Rows\<close>

definition slot_of :: "time \<Rightarrow> duration \<Rightarrow> health_point \<Rightarrow> int" where
  "slot_of start step p = go_div (time_sub (hp_at p) start) step"

definition see_cell :: "(string \<Rightarrow> time \<Rightarrow> string) \<Rightarrow> health_point \<Rightarrow> cell \<Rightarrow> cell" where
  "see_cell fmt p c0 =
     (let c = c0\<lparr>ce_samples := ce_samples c0 + 1\<rparr>
      in if rank (hp_state p) > rank (ce_state c)
         then c\<lparr>ce_state := hp_state p,
                ce_title := fmt ''02/01 15h04'' (ce_from c) @ fr '' -- '' @ state_name (hp_state p) @
                  (if hp_summary p \<noteq> '''' then '' : '' @ hp_summary p else '''')\<rparr>
         else c)"

definition see_point ::
  "(string \<Rightarrow> time \<Rightarrow> string) \<Rightarrow> time \<Rightarrow> duration \<Rightarrow> cell list \<Rightarrow> health_point \<Rightarrow> cell list" where
  "see_point fmt start step cells p =
     (let i = slot_of start step p
      in if i < 0 \<or> i \<ge> int (length cells) then cells
         else cells[nat i := see_cell fmt p (cells ! nat i)])"

definition empty_cell :: "(string \<Rightarrow> time \<Rightarrow> string) \<Rightarrow> time \<Rightarrow> cell" where
  "empty_cell fmt t =
     \<lparr>ce_from = t, ce_state = ''unknown'', ce_samples = 0,
      ce_title = fmt ''02/01 15h04'' t @ fr '' -- aucune mesure''\<rparr>"

definition count_cell :: "row \<Rightarrow> cell \<Rightarrow> row" where
  "count_cell r c =
     (if ce_state c = ''ok'' then r\<lparr>ro_oks := ro_oks r + 1\<rparr>
      else if ce_state c = ''warn'' then r\<lparr>ro_warns := ro_warns r + 1\<rparr>
      else if ce_state c = ''crit'' then r\<lparr>ro_crits := ro_crits r + 1\<rparr>
      else r\<lparr>ro_gaps := ro_gaps r + 1\<rparr>)"

definition make_row ::
  "(string \<Rightarrow> time \<Rightarrow> string) \<Rightarrow> time \<Rightarrow> duration \<Rightarrow> nat \<Rightarrow> string \<Rightarrow> health_point list \<Rightarrow> row" where
  "make_row fmt start step buckets name pts =
     (let cells0 = map (\<lambda>i. empty_cell fmt (start + int i * step)) [0..<buckets];
          cells = foldl (see_point fmt start step) cells0 pts;
          r = foldl count_cell
                \<lparr>ro_name = name, ro_cells = cells, ro_oks = 0, ro_warns = 0, ro_crits = 0,
                 ro_gaps = 0, ro_coverage = 0\<rparr> cells
      in if buckets > 0
         then r\<lparr>ro_coverage := go_div ((int buckets - ro_gaps r) * 100) (int buckets)\<rparr> else r)"

section \<open>Episodes\<close>

definition close_episode :: "time \<Rightarrow> episode \<Rightarrow> episode" where
  "close_episode t e = e\<lparr>ep_end := t, ep_duration := time_sub t (ep_start e)\<rparr>"

definition open_episode :: "string \<Rightarrow> health_point \<Rightarrow> episode" where
  "open_episode host p =
     \<lparr>ep_host = host, ep_start = hp_at p, ep_end = zero_time, ep_ongoing = False,
      ep_state = hp_state p, ep_cause = hp_summary p, ep_duration = 0\<rparr>"

definition worsen :: "health_point \<Rightarrow> episode \<Rightarrow> episode" where
  "worsen p e =
     (let e1 = (if hp_state p = ''crit'' \<and> ep_state e \<noteq> ''crit''
                then e\<lparr>ep_state := ''crit'', ep_cause := hp_summary p\<rparr> else e)
      in if ep_cause e1 = '''' then e1\<lparr>ep_cause := hp_summary p\<rparr> else e1)"

definition calm :: "health_point \<Rightarrow> bool" where
  "calm p \<longleftrightarrow> hp_state p = ''ok'' \<or> hp_state p = ''unknown''"

definition episode_step ::
  "string \<Rightarrow> episode list \<times> episode option \<Rightarrow> health_point \<Rightarrow> episode list \<times> episode option" where
  "episode_step host s p =
     (case s of (out, cur) \<Rightarrow>
        if calm p
        then (case cur of None \<Rightarrow> (out, None) | Some e \<Rightarrow> (out @ [close_episode (hp_at p) e], None))
        else (case cur of
                None \<Rightarrow> (out, Some (open_episode host p))
              | Some e \<Rightarrow> (out, Some (worsen p e))))"

definition episodes :: "time \<Rightarrow> string \<Rightarrow> health_point list \<Rightarrow> episode list" where
  "episodes now host pts =
     (case foldl (episode_step host) ([], None) pts of
        (out, None) \<Rightarrow> out
      | (out, Some e) \<Rightarrow> out @ [(close_episode now e)\<lparr>ep_ongoing := True\<rparr>])"

section \<open>Balance\<close>

definition see_slot :: "time \<Rightarrow> duration \<Rightarrow> string list \<Rightarrow> health_point \<Rightarrow> string list" where
  "see_slot start step slots p =
     (let i = slot_of start step p
      in if i < 0 \<or> i \<ge> int (length slots) then slots
         else if rank (hp_state p) > rank (slots ! nat i) then slots[nat i := hp_state p] else slots)"

definition time_in :: "string \<Rightarrow> string list \<Rightarrow> duration" where
  "time_in st slots = int (length (filter (\<lambda>s. s = st) slots)) * hour"

definition percent :: "duration \<Rightarrow> duration \<Rightarrow> int" where
  "percent part whole = trunc (f64 (f64 (f64 (of_int part) / f64 (of_int whole)) * 100))"

definition make_bar :: "time \<Rightarrow> nat \<Rightarrow> string \<Rightarrow> health_point list \<Rightarrow> bar" where
  "make_bar start nslots host pts =
     (let slots = foldl (see_slot start hour) (replicate nslots '''') pts;
          ok = time_in ''ok'' slots; wa = time_in ''warn'' slots; cr = time_in ''crit'' slots;
          measured = go_div (ok + wa + cr) hour;
          pc = (if measured > 0 then percent cr (ok + wa + cr) else 0);
          pw = (if measured > 0 then percent wa (ok + wa + cr) else 0)
      in \<lparr>ba_host = host, ba_pct_ok = (if measured > 0 then 100 - pc - pw else 0),
          ba_pct_warn = pw, ba_pct_crit = pc, ba_measured = measured, ba_total = int nslots,
          ba_coverage = (if nslots > 0 then go_div (measured * 100) (int nslots) else 0),
          ba_dur_ok = ok, ba_dur_warn = wa, ba_dur_crit = cr\<rparr>)"

definition less_healthy :: "bar \<Rightarrow> bar \<Rightarrow> bool" where
  "less_healthy a b =
     (if ba_pct_crit a \<noteq> ba_pct_crit b then ba_pct_crit a > ba_pct_crit b
      else ba_pct_warn a > ba_pct_warn b)"

text \<open>A host whose series cannot be read is left out.\<close>

definition bars :: "time \<Rightarrow> config \<Rightarrow> int \<Rightarrow> db \<Rightarrow> bar list" where
  "bars now cfg days d =
     (let fin = time_truncate now hour + hour; start = fin - days * 24 * hour;
          nslots = nat (go_div (time_sub fin start) hour)
      in slice_stable less_healthy
           (List.map_filter (\<lambda>h.
              if hc_disabled h then None
              else (case health_series (hc_name h) start d of
                      Inl e \<Rightarrow> None
                    | Inr pts \<Rightarrow> Some (make_bar start nslots (hc_name h) pts))) (cfg_hosts cfg)))"

section \<open>The page\<close>

definition graver_row :: "row \<Rightarrow> row \<Rightarrow> bool" where
  "graver_row a b =
     (if ro_crits a \<noteq> ro_crits b then ro_crits a > ro_crits b
      else if ro_warns a \<noteq> ro_warns b then ro_warns a > ro_warns b
      else ro_name a < ro_name b)"

definition later_episode :: "episode \<Rightarrow> episode \<Rightarrow> bool" where
  "later_episode a b \<longleftrightarrow> ep_start a > ep_start b"

type_synonym episode_order = "(episode \<Rightarrow> episode \<Rightarrow> bool) \<Rightarrow> episode list \<Rightarrow> episode list"

fun rows_and_episodes ::
  "(string \<Rightarrow> time \<Rightarrow> string) \<Rightarrow> time \<Rightarrow> time \<Rightarrow> duration \<Rightarrow> nat \<Rightarrow> db \<Rightarrow> host_config list
     \<Rightarrow> store_error + row list \<times> episode list" where
  "rows_and_episodes fmt now start step buckets d [] = Inr ([], [])"
| "rows_and_episodes fmt now start step buckets d (h # hs) =
     (if hc_disabled h then rows_and_episodes fmt now start step buckets d hs
      else (case health_series (hc_name h) start d of
              Inl e \<Rightarrow> Inl e
            | Inr pts \<Rightarrow>
                (case rows_and_episodes fmt now start step buckets d hs of
                   Inl e \<Rightarrow> Inl e
                 | Inr (rs, es) \<Rightarrow>
                     Inr (make_row fmt start step buckets (hc_name h) pts # rs,
                          episodes now (hc_name h) pts @ es))))"

definition graduations :: "(string \<Rightarrow> time \<Rightarrow> string) \<Rightarrow> window \<Rightarrow> time \<Rightarrow> int \<Rightarrow> axis list" where
  "graduations fmt w start buckets =
     (let step = (let s = go_div buckets 8 in if s < 1 then 1 else s)
      in map (\<lambda>i. \<lparr>ax_index = int i, ax_label = fmt (wi_format w) (start + int i * wi_bucket w)\<rparr>)
           (filter (\<lambda>i. int i mod step = 0) [0..<nat buckets]))"

definition timeline ::
  "episode_order \<Rightarrow> (string \<Rightarrow> time \<Rightarrow> string) \<Rightarrow> time \<Rightarrow> config \<Rightarrow> string \<Rightarrow> db
     \<Rightarrow> store_error + timeline_data" where
  "timeline srt fmt now cfg key d =
     (let w = window_by_key key
      in case health_coverage d of
           Inl e \<Rightarrow> Inl e
         | Inr (first, _, n) \<Rightarrow>
             (let fin = time_truncate now (wi_bucket w) + wi_bucket w;
                  start = fin - wi_duration w;
                  buckets = go_div (wi_duration w) (wi_bucket w)
              in case rows_and_episodes fmt now start (wi_bucket w) (nat buckets) d (cfg_hosts cfg) of
                   Inl e \<Rightarrow> Inl e
                 | Inr (rs, es) \<Rightarrow>
                     Inr \<lparr>td_window = w, td_rows = slice_stable graver_row rs,
                       td_axis = graduations fmt w start buckets,
                       td_episodes = srt later_episode es, td_buckets = buckets,
                       td_depuis = first, td_mesures = n,
                       td_tronquee = (\<not> is_zero first \<and> first > start),
                       td_bars = bars now cfg 14 d, td_bar_days = 14\<rparr>))"

end
