(* ===== verification/Amarre_Timeline_Facts.thy ===== *)
theory Amarre_Timeline_Facts
  imports Amarre_Timeline
begin

text \<open>
  What the history page guarantees: a bucket shows the worst state measured in it, the counts
  partition the buckets, the episodes are the maximal runs of abnormal readings, and the
  percentages, although computed in floating point, are a partition of one hundred.
\<close>

section \<open>Severities\<close>

text \<open>The order behind \<open>rank\<close>: what is not one of the three states is not measured.\<close>

datatype severity = Unmeasured | Fine | Warning | Critical

instantiation severity :: linorder
begin

fun level :: "severity \<Rightarrow> nat" where
  "level Unmeasured = 0" | "level Fine = 1" | "level Warning = 2" | "level Critical = 3"

definition less_eq_severity :: "severity \<Rightarrow> severity \<Rightarrow> bool" where
  "less_eq_severity a b \<longleftrightarrow> level a \<le> level b"

definition less_severity :: "severity \<Rightarrow> severity \<Rightarrow> bool" where
  "less_severity a b \<longleftrightarrow> level a < level b"

instance
proof
  fix a b c :: severity
  show "a < b \<longleftrightarrow> a \<le> b \<and> \<not> b \<le> a" by (auto simp: less_eq_severity_def less_severity_def)
  show "a \<le> a" by (simp add: less_eq_severity_def)
  show "a \<le> b \<Longrightarrow> b \<le> c \<Longrightarrow> a \<le> c" by (simp add: less_eq_severity_def)
  show "a \<le> b \<Longrightarrow> b \<le> a \<Longrightarrow> a = b" by (cases a; cases b) (auto simp: less_eq_severity_def)
  show "a \<le> b \<or> b \<le> a" by (auto simp: less_eq_severity_def)
qed

end

definition severity :: "string \<Rightarrow> severity" where
  "severity s = (if s = ''ok'' then Fine else if s = ''warn'' then Warning
     else if s = ''crit'' then Critical else Unmeasured)"

lemma rank_severity: "rank s = int (level (severity s))"
  by (simp add: rank_def severity_def)

lemma rank_less_iff: "rank s < rank t \<longleftrightarrow> severity s < severity t"
  by (simp add: rank_severity less_severity_def)

lemma severity_least [simp]: "Unmeasured \<le> s"
  by (simp add: less_eq_severity_def)

section \<open>Cells\<close>

definition in_slot :: "time \<Rightarrow> duration \<Rightarrow> nat \<Rightarrow> health_point \<Rightarrow> bool" where
  "in_slot start step i p \<longleftrightarrow> slot_of start step p = int i"

text \<open>
  The interval of a bucket: from its beginning to that of the next. For readings from \<open>start\<close> on,
  which are those \<open>HealthSeries\<close> selects, the code's index is that of the interval.
\<close>

definition falls_in :: "time \<Rightarrow> duration \<Rightarrow> nat \<Rightarrow> health_point \<Rightarrow> bool" where
  "falls_in start step i p \<longleftrightarrow> start + int i * step \<le> hp_at p \<and> hp_at p < start + (int i + 1) * step"

lemma in_slot_falls:
  assumes "0 < step" and "int n * step < 2 ^ 63" and "i < n" and "start \<le> hp_at p"
  shows "in_slot start step i p \<longleftrightarrow> falls_in start step i p"
proof -
  let ?x = "hp_at p - start"
  have x: "0 \<le> ?x" using assms(4) by simp
  have bucket: "y div step = int i \<longleftrightarrow> int i * step \<le> y \<and> y < (int i + 1) * step" for y
    using assms(1) by (smt (verit) div_mult_self4 div_pos_pos_trivial minus_mod_eq_div_mult pos_mod_bound
        pos_mod_sign mult.commute distrib_left nonzero_mult_div_cancel_right zdiv_mono1)
  show ?thesis
  proof (cases "?x < 2 ^ 63")
    case True
    then have "time_sub (hp_at p) start = ?x" using x by (simp add: time_sub_def)
    with x bucket [of ?x] assms(1) show ?thesis by (auto simp: in_slot_def slot_of_def falls_in_def)
  next
    case False
    have "(int i + 1) * step \<le> int n * step" using assms(1,3) by (intro mult_right_mono) auto
    then have top: "(int i + 1) * step < 2 ^ 63" using assms(2) by linarith
    have "time_sub (hp_at p) start = 2 ^ 63 - 1" using False by (simp add: time_sub_def)
    moreover have "\<not> (2 ^ 63 - 1) div step = int i" using bucket [of "2 ^ 63 - 1"] top by linarith
    moreover have "\<not> hp_at p < start + (int i + 1) * step" using top False by linarith
    ultimately show ?thesis using assms(1) by (simp add: in_slot_def slot_of_def falls_in_def)
  qed
qed

lemma series_from:
  "health_series host since d = Inr pts \<Longrightarrow> of_unix (unix_sec since) = since \<Longrightarrow> p \<in> set pts \<Longrightarrow> since \<le> hp_at p"
  by (auto simp: health_series_def point_of_def go_time split: if_splits)

lemma see_point_length [simp]: "length (see_point fmt start step cells p) = length cells"
  by (simp add: see_point_def Let_def)

lemma foldl_see_length [simp]: "length (foldl (see_point fmt start step) cells pts) = length cells"
  by (induction pts arbitrary: cells) auto

lemma see_point_nth:
  "i < length cells \<Longrightarrow> see_point fmt start step cells p ! i =
     (if in_slot start step i p then see_cell fmt p (cells ! i) else cells ! i)"
  by (auto simp: see_point_def Let_def in_slot_def nth_list_update)

lemma foldl_see_nth:
  "i < length cells \<Longrightarrow> foldl (see_point fmt start step) cells pts ! i =
     foldl (\<lambda>c p. see_cell fmt p c) (cells ! i) (filter (in_slot start step i) pts)"
  by (induction pts arbitrary: cells) (auto simp: see_point_nth)

lemma see_cell_state: "severity (ce_state (see_cell fmt p c)) = max (severity (ce_state c)) (severity (hp_state p))"
  by (auto simp: see_cell_def Let_def rank_less_iff max_def)

lemma foldl_cell:
  "severity (ce_state (foldl (\<lambda>c p. see_cell fmt p c) c pts)) =
     foldl max (severity (ce_state c)) (map (\<lambda>p. severity (hp_state p)) pts) \<and>
   ce_samples (foldl (\<lambda>c p. see_cell fmt p c) c pts) = ce_samples c + int (length pts) \<and>
   ce_from (foldl (\<lambda>c p. see_cell fmt p c) c pts) = ce_from c"
proof (induction pts arbitrary: c)
  case (Cons p pts)
  have "ce_samples (see_cell fmt p c) = ce_samples c + 1" "ce_from (see_cell fmt p c) = ce_from c"
    by (simp_all add: see_cell_def Let_def)
  with Cons [of "see_cell fmt p c"] show ?case by (simp add: see_cell_state)
qed simp

lemma foldl_max_Max: "foldl max m xs = Max (insert m (set xs))" for m :: "'a::linorder"
proof (induction xs arbitrary: m)
  case (Cons x xs)
  have "Max (insert (max m x) (set xs)) = Max (insert m (insert x (set xs)))"
    by (cases "xs = []") (simp_all add: max.assoc)
  with Cons show ?case by simp
qed simp

definition counts_of :: "row \<Rightarrow> int \<times> int \<times> int \<times> int" where
  "counts_of r = (ro_oks r, ro_warns r, ro_crits r, ro_gaps r)"

lemma count_cells:
  "counts_of (foldl count_cell r cs) =
     (ro_oks r + int (length (filter (\<lambda>c. ce_state c = ''ok'') cs)),
      ro_warns r + int (length (filter (\<lambda>c. ce_state c = ''warn'') cs)),
      ro_crits r + int (length (filter (\<lambda>c. ce_state c = ''crit'') cs)),
      ro_gaps r + int (length (filter (\<lambda>c. ce_state c \<notin> {''ok'', ''warn'', ''crit''}) cs)))"
  by (induction cs arbitrary: r) (auto simp: counts_of_def count_cell_def)

lemma count_cells_frame:
  "ro_cells (foldl count_cell r cs) = ro_cells r" "ro_name (foldl count_cell r cs) = ro_name r"
  by (induction cs arbitrary: r) (auto simp: count_cell_def)

lemma length_partition:
  "length (filter (\<lambda>c. ce_state c = ''ok'') cs) + length (filter (\<lambda>c. ce_state c = ''warn'') cs) +
   length (filter (\<lambda>c. ce_state c = ''crit'') cs) +
   length (filter (\<lambda>c. ce_state c \<notin> {''ok'', ''warn'', ''crit''}) cs) = length cs"
  by (induction cs) auto

text \<open>
  C24. A failure of ten minutes is not hidden. For readings from the beginning of the window on,
  which are those the table is asked for, each bucket of a host's row shows a state whose
  severity is the greatest of the readings from the bucket's beginning to that of the next one
  (not measured when there is none) and their number; the four counts add up to the number of
  buckets, and the coverage is the truncated percentage of the measured ones. The window is
  shorter than the 292 years a duration can hold.
\<close>

theorem row_shows_worst:
  assumes "0 < n" and "0 < step" and "int n * step < 2 ^ 63" and "\<forall>p\<in>set pts. start \<le> hp_at p"
  shows "let r = make_row fmt start step n name pts in
    length (ro_cells r) = n \<and>
    (\<forall>i<n. severity (ce_state (ro_cells r ! i)) =
        Max (insert Unmeasured ((\<lambda>p. severity (hp_state p)) `
          {p \<in> set pts. start + int i * step \<le> hp_at p \<and> hp_at p < start + (int i + 1) * step})) \<and>
      ce_samples (ro_cells r ! i) =
        int (length (filter (\<lambda>p. start + int i * step \<le> hp_at p \<and> hp_at p < start + (int i + 1) * step) pts)) \<and>
      ce_from (ro_cells r ! i) = start + int i * step) \<and>
    ro_oks r + ro_warns r + ro_crits r + ro_gaps r = int n \<and>
    ro_coverage r = (int n - ro_gaps r) * 100 div int n"
proof -
  define cells where "cells = foldl (see_point fmt start step)
      (map (\<lambda>i. empty_cell fmt (start + int i * step)) [0..<n]) pts"
  define r0 where "r0 = \<lparr>ro_name = name, ro_cells = cells, ro_oks = 0, ro_warns = 0, ro_crits = 0,
      ro_gaps = 0, ro_coverage = 0\<rparr>"
  have row: "make_row fmt start step n name pts =
      (foldl count_cell r0 cells)\<lparr>ro_coverage := go_div ((int n - ro_gaps (foldl count_cell r0 cells)) * 100) (int n)\<rparr>"
    using assms by (simp add: make_row_def Let_def r0_def cells_def)
  have len: "length cells = n" by (simp add: cells_def)
  have cell: "severity (ce_state (cells ! i)) =
        Max (insert Unmeasured ((\<lambda>p. severity (hp_state p)) ` {p \<in> set pts. in_slot start step i p})) \<and>
      ce_samples (cells ! i) = int (length (filter (in_slot start step i) pts)) \<and>
      ce_from (cells ! i) = start + int i * step" if "i < n" for i
  proof -
    let ?c = "empty_cell fmt (start + int i * step)"
    have "cells ! i = foldl (\<lambda>c p. see_cell fmt p c) ?c (filter (in_slot start step i) pts)"
      using that by (simp add: cells_def foldl_see_nth)
    moreover have "severity (ce_state ?c) = Unmeasured" "ce_samples ?c = 0" "ce_from ?c = start + int i * step"
      by (simp_all add: empty_cell_def severity_def)
    ultimately show ?thesis
      using foldl_cell [of fmt ?c "filter (in_slot start step i) pts"]
      by (simp add: foldl_max_Max)
  qed
  have counts: "ro_oks (foldl count_cell r0 cells) + ro_warns (foldl count_cell r0 cells) +
      ro_crits (foldl count_cell r0 cells) + ro_gaps (foldl count_cell r0 cells) = int n"
    "ro_gaps (foldl count_cell r0 cells) \<le> int n"
    using count_cells [of r0 cells] length_partition [of cells] len
    by (auto simp: counts_of_def r0_def)
  then have "go_div ((int n - ro_gaps (foldl count_cell r0 cells)) * 100) (int n) =
      (int n - ro_gaps (foldl count_cell r0 cells)) * 100 div int n"
    using assms by simp
  moreover have "{p \<in> set pts. in_slot start step i p} =
        {p \<in> set pts. start + int i * step \<le> hp_at p \<and> hp_at p < start + (int i + 1) * step}"
      "filter (in_slot start step i) pts =
        filter (\<lambda>p. start + int i * step \<le> hp_at p \<and> hp_at p < start + (int i + 1) * step) pts" if "i < n" for i
    using in_slot_falls [OF assms(2,3) that assms(4) [rule_format]] unfolding falls_in_def by (auto intro: filter_cong)
  ultimately show ?thesis using cell counts len
    by (simp add: row Let_def count_cells_frame) (simp add: r0_def)
qed

definition demo_points :: "health_point list" where
  "demo_points = [\<lparr>hp_at = 10 * minute, hp_state = ''ok'', hp_crit = 0, hp_warn = 0, hp_summary = ''''\<rparr>,
     \<lparr>hp_at = 20 * minute, hp_state = ''crit'', hp_crit = 1, hp_warn = 0, hp_summary = ''disk''\<rparr>,
     \<lparr>hp_at = 90 * minute, hp_state = ''ok'', hp_crit = 0, hp_warn = 0, hp_summary = ''''\<rparr>]"

theorem row_shows_worst_witness:
  "let r = make_row (\<lambda>l t. l) 0 hour 2 ''web'' demo_points in
     severity (ce_state (ro_cells r ! 0)) = Critical \<and>
     ro_oks r + ro_warns r + ro_crits r + ro_gaps r = 2"
proof -
  let ?r = "make_row (\<lambda>l t. l) 0 hour 2 ''web'' demo_points"
  have step: "(0::nat) < 2" "0 < hour" "int 2 * hour < 2 ^ 63" by (simp_all add: go_time)
  have late: "\<forall>p\<in>set demo_points. 0 \<le> hp_at p" by (auto simp: demo_points_def go_time)
  note row = row_shows_worst [OF step late, of "\<lambda>l t. l" "''web''", unfolded Let_def]
  have slots: "{p \<in> set demo_points. 0 + int 0 * hour \<le> hp_at p \<and> hp_at p < 0 + (int 0 + 1) * hour} = set (take 2 demo_points)"
    by (auto simp: demo_points_def go_time)
  have "severity (ce_state (ro_cells ?r ! 0)) = Max (insert Unmeasured ((\<lambda>p. severity (hp_state p)) `
      {p \<in> set demo_points. 0 + int 0 * hour \<le> hp_at p \<and> hp_at p < 0 + (int 0 + 1) * hour}))"
    using row by (elim conjE) (erule allE [of _ 0], simp)
  then have "severity (ce_state (ro_cells ?r ! 0)) = Critical"
    unfolding slots by (simp add: demo_points_def severity_def max_def less_eq_severity_def)
  moreover have "ro_oks ?r + ro_warns ?r + ro_crits ?r + ro_gaps ?r = 2"
    using row by simp
  ultimately show ?thesis by (simp add: Let_def)
qed

section \<open>Episodes\<close>

text \<open>The maximal runs of readings that are not calm, each with the calm reading that ends it.\<close>

function bad_runs :: "health_point list \<Rightarrow> (health_point list \<times> health_point option) list" where
  "bad_runs [] = []"
| "bad_runs (p # ps) =
     (if calm p then bad_runs ps
      else (let rest = dropWhile (\<lambda>q. \<not> calm q) ps
            in (p # takeWhile (\<lambda>q. \<not> calm q) ps, if rest = [] then None else Some (hd rest))
               # bad_runs (tl rest)))"
  by pat_completeness auto
termination
proof (relation "measure length")
  fix p ps rest
  assume "rest = dropWhile (\<lambda>q. \<not> calm q) (ps :: health_point list)"
  then have "length (tl rest) \<le> length ps"
    using length_dropWhile_le [of "\<lambda>q. \<not> calm q" ps] by simp
  then show "(tl rest, p # ps) \<in> measure length" by simp
qed auto

definition first_text :: "string list \<Rightarrow> string" where
  "first_text ss = (case find (\<lambda>s. s \<noteq> '''') ss of None \<Rightarrow> '''' | Some s \<Rightarrow> s)"

text \<open>
  An episode told from its run: it begins at the first reading, is critical when one reading
  is, and its cause is the first explanation given from the reading that set its level on.
\<close>

definition run_episode :: "time \<Rightarrow> string \<Rightarrow> health_point list \<times> health_point option \<Rightarrow> episode" where
  "run_episode now host r =
     (case r of (run, closing) \<Rightarrow>
        let fin = (case closing of None \<Rightarrow> now | Some q \<Rightarrow> hp_at q);
            critical = (\<exists>p\<in>set run. hp_state p = ''crit'');
            telling = (if critical then dropWhile (\<lambda>p. hp_state p \<noteq> ''crit'') run else run)
        in \<lparr>ep_host = host, ep_start = hp_at (hd run), ep_end = fin, ep_ongoing = (closing = None),
            ep_state = (if critical then ''crit'' else hp_state (hd run)),
            ep_cause = first_text (map hp_summary telling),
            ep_duration = time_sub fin (hp_at (hd run))\<rparr>)"

lemma bad_runs_calm: "calm p \<Longrightarrow> bad_runs (p # ps) = bad_runs ps"
  by simp

text \<open>The open episode after a non-empty run, whatever followed before.\<close>

definition running :: "string \<Rightarrow> health_point list \<Rightarrow> episode" where
  "running host run = (run_episode zero_time host (run, None))
     \<lparr>ep_end := zero_time, ep_ongoing := False, ep_duration := 0\<rparr>"

lemma running_open: "running host [p] = open_episode host p"
  by (simp add: running_def run_episode_def open_episode_def first_text_def Let_def)

lemma first_text_append: "first_text (as @ bs) = (if first_text as = '''' then first_text bs else first_text as)"
proof (cases "find (\<lambda>s. s \<noteq> '''') as")
  case None
  then have "find (\<lambda>s. s \<noteq> '''') (as @ bs) = find (\<lambda>s. s \<noteq> '''') bs"
    by (induction as) (auto split: if_splits)
  with None show ?thesis by (simp add: first_text_def)
next
  case (Some x)
  then have "find (\<lambda>s. s \<noteq> '''') (as @ bs) = Some x" by (induction as) (auto split: if_splits)
  moreover have "x \<noteq> ''''" using Some by (auto dest: find_SomeD)
  ultimately show ?thesis using Some by (simp add: first_text_def)
qed

lemma first_text_one [simp]: "first_text [s] = s"
  by (simp add: first_text_def)

lemma first_text_Nil [simp]: "first_text [] = ''''"
  by (simp add: first_text_def)

lemma running_worsen:
  assumes "run \<noteq> []" and "\<not> calm p"
  shows "running host (run @ [p]) = worsen p (running host run)"
proof (cases "\<exists>q\<in>set run. hp_state q = ''crit''")
  case True
  then have "dropWhile (\<lambda>q. hp_state q \<noteq> ''crit'') (run @ [p]) =
      dropWhile (\<lambda>q. hp_state q \<noteq> ''crit'') run @ [p]"
    by (auto simp: dropWhile_append)
  with True assms show ?thesis
    by (simp add: running_def run_episode_def worsen_def Let_def first_text_append)
next
  case False
  then have d: "dropWhile (\<lambda>q. hp_state q \<noteq> ''crit'') run = []" by (auto simp: dropWhile_eq_Nil_conv)
  have hd: "hp_state (hd run) \<noteq> ''crit''" using False assms(1) by auto
  show ?thesis
  proof (cases "hp_state p = ''crit''")
    case True
    with False d hd assms show ?thesis
      by (simp add: running_def run_episode_def worsen_def Let_def dropWhile_append)
  next
    case noncrit: False
    with False assms show ?thesis
      by (simp add: running_def run_episode_def worsen_def Let_def first_text_append)
  qed
qed

lemma running_run:
  "run \<noteq> [] \<Longrightarrow> (\<forall>p\<in>set ps. \<not> calm p) \<Longrightarrow>
   foldl (episode_step host) (out, Some (running host run)) ps = (out, Some (running host (run @ ps)))"
proof (induction ps arbitrary: run)
  case (Cons p ps)
  then show ?case
    using running_worsen [of run p host] Cons.IH [of "run @ [p]"] by (simp add: episode_step_def)
qed simp

lemma running_close:
  "close_episode (hp_at q) (running host run) = run_episode now host (run, Some q)"
  "(close_episode now (running host run))\<lparr>ep_ongoing := True\<rparr> = run_episode now host (run, None)"
  by (simp_all add: running_def run_episode_def close_episode_def Let_def)

definition finish :: "time \<Rightarrow> episode list \<times> episode option \<Rightarrow> episode list" where
  "finish now s = (case s of (out, None) \<Rightarrow> out
     | (out, Some e) \<Rightarrow> out @ [(close_episode now e)\<lparr>ep_ongoing := True\<rparr>])"

lemma episodes_run:
  "finish now (foldl (episode_step host) (out, None) pts) = out @ map (run_episode now host) (bad_runs pts)"
proof (induction pts arbitrary: out rule: bad_runs.induct)
  case 1
  then show ?case by (simp add: finish_def)
next
  case (2 p ps)
  show ?case
  proof (cases "calm p")
    case True
    with 2(1) show ?thesis by (simp add: episode_step_def)
  next
    case False
    let ?bad = "takeWhile (\<lambda>q. \<not> calm q) ps" and ?rest = "dropWhile (\<lambda>q. \<not> calm q) ps"
    have "foldl (episode_step host) (out, None) (p # ps) =
        foldl (episode_step host) (out, Some (running host [p])) (?bad @ ?rest)"
      using False by (simp add: episode_step_def running_open)
    also have "\<dots> = foldl (episode_step host) (out, Some (running host (p # ?bad))) ?rest"
      using running_run [of "[p]" ?bad host out] set_takeWhileD [of _ "\<lambda>q. \<not> calm q" ps]
      unfolding foldl_append by auto
    finally have run: "foldl (episode_step host) (out, None) (p # ps) =
        foldl (episode_step host) (out, Some (running host (p # ?bad))) ?rest" .
    show ?thesis
    proof (cases ?rest)
      case Nil
      have "bad_runs (p # ps) = [(p # ?bad, None)]" using False Nil by (simp del: dropWhile_eq_Nil_conv)
      then show ?thesis
        unfolding run Nil by (simp add: finish_def running_close del: bad_runs.simps)
    next
      case (Cons q qs)
      then have "calm q" by (metis (mono_tags) hd_dropWhile list.discI list.sel(1))
      with Cons run have "foldl (episode_step host) (out, None) (p # ps) =
          foldl (episode_step host) (out @ [run_episode now host (p # ?bad, Some q)], None) qs"
        by (simp add: episode_step_def running_close [where now = now])
      with 2(2) [OF False refl, of "out @ [run_episode now host (p # ?bad, Some q)]"] Cons False
      show ?thesis by simp
    qed
  qed
qed

text \<open>
  C25. Episodes are the runs out of the normal. The one-pass loop over a host's readings yields
  one episode for each maximal run of readings that are neither healthy nor unmeasured, in
  order, with its start, its end (the reading that closes it, or now), its level and its cause.
\<close>

theorem episodes_are_runs:
  "episodes now host pts = map (run_episode now host) (bad_runs pts)"
  using episodes_run [of now host "[]" pts] by (simp add: episodes_def finish_def)

section \<open>The balance\<close>

lemma time_in_slots: "time_in s xs = int (count_list xs s) * hour"
  unfolding time_in_def by (induction xs) (auto simp: distrib_right)

lemma see_slot_length [simp]: "length (see_slot start step slots p) = length slots"
  by (simp add: see_slot_def Let_def)

lemma foldl_slot_length [simp]: "length (foldl (see_slot start step) slots pts) = length slots"
  by (induction pts arbitrary: slots) auto

lemma count_three: "count_list xs ''ok'' + count_list xs ''warn'' + count_list xs ''crit'' \<le> length xs"
  by (induction xs) auto

text \<open>A truncated percentage of a share of hours never exceeds the exact one.\<close>

lemma percent_hours:
  assumes "j \<le> k" and "0 < k" and "k < 10000"
  shows "0 \<le> percent (int j * hour) (int k * hour)"
    and "percent (int j * hour) (int k * hour) \<le> int (100 * j div k)"
proof -
  let ?c = "of_int (int j * hour) :: rat" and ?t = "of_int (int k * hour) :: rat"
  let ?p = "f64 (f64 (f64 ?c / f64 ?t) * 100)"
  have h: "0 < (of_int hour :: rat)" by (simp add: go_time)
  have pre: "0 \<le> ?c" "?c \<le> ?t" "0 < ?t"
    using assms(1,2) h by (simp_all add: mult_right_mono)
  have ratio: "?c / ?t = of_nat j / of_nat k" using h by simp
  have lo: "0 \<le> ?p" by (rule f64_ratio(1) [OF pre])
  have hi: "?p \<le> 100 * (of_nat j / of_nat k) + 1 / 10000"
    using f64_ratio(2) [OF pre] by (simp only: ratio)
  show "0 \<le> percent (int j * hour) (int k * hour)"
    using lo by (simp add: percent_def trunc_def)
  have "100 * j < k * (100 * j div k) + k"
    using assms(2) by (metis add_less_cancel_left mod_less_divisor mult_div_mod_eq)
  then have "100 * j + 1 \<le> k * (100 * j div k) + k" by simp
  then have "(of_nat (100 * j + 1) :: rat) \<le> of_nat (k * (100 * j div k) + k)"
    by (simp only: of_nat_le_iff)
  then have "(100 * of_nat j + 1 :: rat) \<le> of_nat k * (of_nat (100 * j div k) + 1)"
    by (simp only: of_nat_add of_nat_mult of_nat_1 of_nat_numeral distrib_left mult_1_right)
  then have "(100 * of_nat j + 1) / of_nat k \<le> (of_nat (100 * j div k) + 1 :: rat)"
    using assms(2) by (simp add: pos_divide_le_eq mult.commute)
  then have "100 * (of_nat j / of_nat k) + 1 / of_nat k \<le> (of_nat (100 * j div k) + 1 :: rat)"
    by (simp only: add_divide_distrib times_divide_eq_right)
  moreover have "(1 / 10000 :: rat) < 1 / of_nat k"
  proof -
    have "(of_nat k :: rat) < 10000" using assms(3) by (metis of_nat_less_iff of_nat_numeral)
    then show ?thesis using assms(2) by (intro divide_strict_left_mono) auto
  qed
  ultimately have "?p < of_int (int (100 * j div k)) + 1" using hi by simp
  then show "percent (int j * hour) (int k * hour) \<le> int (100 * j div k)"
    using lo unfolding percent_def trunc_def by (simp add: floor_le_iff)
qed

lemma div_sum_le: "0 < k \<Longrightarrow> a div k + b div k \<le> (a + b) div (k :: nat)"
proof -
  assume k: "0 < k"
  have "a div k * k \<le> a" "b div k * k \<le> b" by (rule div_times_less_eq_dividend)+
  then have "(a div k + b div k) * k \<le> a + b" by (simp add: distrib_right add_mono)
  with k show ?thesis by (simp add: less_eq_div_iff_mult_less_eq)
qed

lemma go_div_hours: "go_div (int n * hour) hour = int n"
  by (simp add: go_time)

text \<open>
  The balance adds up. For fewer than ten thousand hours and at least one measured, the
  three percentages of a host, two of them truncated floating point quotients and the third
  the rest, lie between 0 and 100 and add up to 100; the three durations add up to the
  measured hours, of which there are at most as many as hours in the period; with nothing
  measured all percentages are 0.
\<close>

lemma bar_adds_up:
  assumes "n < 10000"
  shows "let b = make_bar start n host pts in
    ba_dur_ok b + ba_dur_warn b + ba_dur_crit b = ba_measured b * hour \<and>
    0 \<le> ba_measured b \<and> ba_measured b \<le> ba_total b \<and> ba_total b = int n \<and>
    0 \<le> ba_pct_ok b \<and> 0 \<le> ba_pct_warn b \<and> 0 \<le> ba_pct_crit b \<and>
    ba_pct_ok b + ba_pct_warn b + ba_pct_crit b = (if ba_measured b > 0 then 100 else 0)"
proof -
  define xs where "xs = foldl (see_slot start hour) (replicate n '''') pts"
  define a w c where "a = count_list xs ''ok''" and "w = count_list xs ''warn''" and "c = count_list xs ''crit''"
  define k where "k = a + w + c"
  have k: "k \<le> n" using count_three [of xs] by (simp add: k_def a_def w_def c_def xs_def)
  have times: "time_in ''ok'' xs = int a * hour" "time_in ''warn'' xs = int w * hour"
    "time_in ''crit'' xs = int c * hour"
    by (simp_all add: time_in_slots a_def w_def c_def)
  have whole: "int a * hour + int w * hour + int c * hour = int k * hour"
    by (simp add: k_def distrib_right)
  let ?pw = "if 0 < int k then percent (int w * hour) (int k * hour) else 0"
  let ?pc = "if 0 < int k then percent (int c * hour) (int k * hour) else 0"
  have bar: "make_bar start n host pts =
      \<lparr>ba_host = host, ba_pct_ok = (if 0 < int k then 100 - ?pc - ?pw else 0),
       ba_pct_warn = ?pw, ba_pct_crit = ?pc, ba_measured = int k, ba_total = int n,
       ba_coverage = (if n > 0 then go_div (int k * 100) (int n) else 0),
       ba_dur_ok = int a * hour, ba_dur_warn = int w * hour, ba_dur_crit = int c * hour\<rparr>"
    unfolding make_bar_def Let_def xs_def [symmetric] times whole go_div_hours by (rule refl)
  have "0 \<le> ?pw \<and> 0 \<le> ?pc \<and> ?pw + ?pc \<le> 100" if pos: "0 < k"
  proof -
    have "k < 10000" using k assms by simp
    then have p: "0 \<le> ?pw" "0 \<le> ?pc" "?pw \<le> int (100 * w div k)" "?pc \<le> int (100 * c div k)"
      using percent_hours [of w k] percent_hours [of c k] pos by (simp_all add: k_def)
    have "100 * w div k + 100 * c div k \<le> (100 * w + 100 * c) div k" by (rule div_sum_le [OF pos])
    also have "\<dots> \<le> (100 * k) div k" by (rule div_le_mono) (simp add: k_def)
    also have "\<dots> = 100" using pos by simp
    finally show ?thesis using p by linarith
  qed
  then show ?thesis
    unfolding bar Let_def using k whole by auto
qed

lemma bar_adds_up_demo:
  "let b = make_bar 0 2 ''web'' demo_points in ba_pct_ok b + ba_pct_warn b + ba_pct_crit b = 100"
proof -
  have "severity (hp_state (demo_points ! 1)) = Critical" by (simp add: demo_points_def severity_def)
  have "foldl (see_slot 0 hour) (replicate 2 '''') demo_points = [''crit'', ''ok'']"
    by (simp add: demo_points_def see_slot_def slot_of_def time_sub_def go_time rank_def Let_def
        numeral_2_eq_2)
  then have "ba_measured (make_bar 0 2 ''web'' demo_points) = 2"
    by (simp add: make_bar_def Let_def time_in_def go_time)
  with bar_adds_up [of 2 0 "''web''" demo_points] show ?thesis by (simp add: Let_def)
qed

end
