(* ===== verification/Amarre_Web.thy ===== *)
theory Amarre_Web
  imports Amarre_Auth Amarre_Limiter Amarre_Collector Amarre_Timeline
begin

text \<open>
  Package \<open>web\<close>, the console's HTTP server (\<open>server.go\<close>): the chain of protections
  (\<open>ipAllowlist\<close>, \<open>requireAuth\<close>, \<open>checkCSRF\<close>), login and logout, and every page handler.

  A handler maps a request, the environment of its execution and the server's state to a
  response and a new state. The environment holds the clock reading, the random bytes of the
  successive tokens, the outcome of a tree retrieval, and the functions of packages that are
  not part of the repository's own logic (Argon2, HMAC, address parsing and printing, JSON,
  time formats). A page is the data handed to its template; templates are not modelled.

  A handler behind \<open>requireAuth\<close> looks the session up a second time, at its own moment:
  \<open>ev_again\<close> is the clock that lookup reads, or nothing when it fails or finds the session gone,
  so that the two lookups of a request may differ. A handler that panics (the key derivation of
  Argon2 on parameters it refuses, an account that is not there) is the answer \<open>Panic\<close>:
  \<open>net/http\<close> then drops the connection and the console goes on.
\<close>

section \<open>Requests, responses, state\<close>

record request =
  rq_remote :: string
  rq_tls :: bool
  rq_method :: string
  rq_path :: string
  rq_session :: "string option"
  rq_csrf :: "string option"
  rq_form_ok :: bool
  rq_form :: "string \<Rightarrow> string"
  rq_query :: "string \<Rightarrow> string"

record crumb =
  cb_name :: string
  cb_path :: string

record rail =
  ra_page :: string
  ra_user :: "user option"
  ra_csrf :: string
  ra_nhosts :: int
  ra_nalerts :: int
  ra_crit :: int
  ra_warn :: int

datatype page =
    LoginPage string "string option"
  | FleetPage rail "host_view list" "string \<rightharpoonup> sante" totals "string \<rightharpoonup> int list"
  | HostPage rail detail string string "crumb list" "bool option" "bool option"
      "audit_entry list" "audit_entry list" string
  | TreePage string string string "crumb list" "node list" "string option"
  | AlertsPage rail "host_view list" "host_view list"
  | SantePage rail "sante list" int int
  | HistoryPage rail timeline_data "window list"
  | AuditPage rail "audit_entry list"

datatype answer =
    NotFound
  | Redirect string
  | MovedTo string
  | HttpError int string
  | Page int page
  | Static
  | MethodNotAllowed
  | Panic

datatype same_site = SameSiteDefault | SameSiteLax | SameSiteStrict | SameSiteNone

record cookie =
  cookie_name :: string
  cookie_value :: string
  cookie_path :: string
  cookie_max_age :: int
  cookie_http_only :: bool
  cookie_secure :: bool
  cookie_same_site :: same_site

record response =
  rs_answer :: answer
  rs_cookies :: "cookie list"

record server =
  sv_col :: collector
  sv_lim :: limiter

record env =
  ev_now :: time
  ev_again :: "time option"
  ev_random :: "nat \<Rightarrow> bytes option"
  ev_idkey :: argon2
  ev_hmac :: mac
  ev_split :: "string \<Rightarrow> string option"
  ev_parse_addr :: "string \<Rightarrow> addr option"
  ev_show_addr :: "addr \<Rightarrow> string"
  ev_codec :: codec
  ev_audit_order :: audit_order
  ev_episode_order :: episode_order
  ev_format :: "string \<Rightarrow> time \<Rightarrow> string"
  ev_tree :: "string \<Rightarrow> string \<Rightarrow> tree_error + tree"
  ev_list :: "string \<Rightarrow> string \<Rightarrow> string \<Rightarrow> fleet_error + node list \<times> bool"

definition session_ttl :: duration where "session_ttl = 8 * hour"

definition new_server :: "collector \<Rightarrow> server" where
  "new_server c = \<lparr>sv_col = c, sv_lim = new_limiter 5 (15 * minute)\<rparr>"

abbreviation sv_db :: "server \<Rightarrow> db" where
  "sv_db s \<equiv> co_db (sv_col s)"

definition set_db :: "db \<Rightarrow> server \<Rightarrow> server" where
  "set_db d s = s\<lparr>sv_col := (sv_col s)\<lparr>co_db := d\<rparr>\<rparr>"

definition log_audit :: "env \<Rightarrow> string \<Rightarrow> string \<Rightarrow> string \<Rightarrow> string \<Rightarrow> string \<Rightarrow> server \<Rightarrow> server" where
  "log_audit ev actor ip action target outcome s =
     set_db (audit (ev_now ev) actor ip action target outcome (sv_db s)) s"

definition reply :: "answer \<Rightarrow> response" where
  "reply a = \<lparr>rs_answer = a, rs_cookies = []\<rparr>"

definition set_cookie :: "request \<Rightarrow> string \<Rightarrow> string \<Rightarrow> duration \<Rightarrow> response \<Rightarrow> response" where
  "set_cookie r name val ttl rs =
     rs\<lparr>rs_cookies := rs_cookies rs @
       [\<lparr>cookie_name = name, cookie_value = val, cookie_path = ''/'', cookie_max_age = go_div ttl second,
         cookie_http_only = True, cookie_secure = rq_tls r, cookie_same_site = SameSiteStrict\<rparr>]\<rparr>"

definition session_cookie :: string where "session_cookie = ''amarre_session''"
definition csrf_cookie :: string where "csrf_cookie = ''amarre_csrf''"

definition internal_error :: answer where
  "internal_error = HttpError 500 ''erreur interne''"

definition bad_token :: answer where
  "bad_token = HttpError 403 ''jeton invalide''"

section \<open>Source address\<close>

text \<open>\<open>net.SplitHostPort\<close> gives the host part, or fails; then the text is taken whole.\<close>

definition remote_addr :: "env \<Rightarrow> request \<Rightarrow> addr option" where
  "remote_addr ev r =
     (let host = (case ev_split ev (rq_remote r) of None \<Rightarrow> rq_remote r | Some h \<Rightarrow> h)
      in map_option unmap (ev_parse_addr ev host))"

text \<open>Callers that drop the error print the zero address.\<close>

definition remote_ip :: "env \<Rightarrow> request \<Rightarrow> string" where
  "remote_ip ev r = ev_show_addr ev (case remote_addr ev r of None \<Rightarrow> NoAddr | Some a \<Rightarrow> a)"

section \<open>Sessions and forms\<close>

definition current_user :: "env \<Rightarrow> request \<Rightarrow> server \<Rightarrow> (user \<times> string) option" where
  "current_user ev r s =
     (case rq_session r of
        None \<Rightarrow> None
      | Some tok \<Rightarrow>
          (case remote_addr ev r of
             None \<Rightarrow> None
           | Some a \<Rightarrow>
               (case session_user (ev_now ev) tok (ev_show_addr ev a) (sv_db s) of
                  Inl e \<Rightarrow> None
                | Inr u \<Rightarrow> Some (u, tok))))"

text \<open>The second lookup, by the handler itself.\<close>

definition handler_user :: "env \<Rightarrow> request \<Rightarrow> server \<Rightarrow> (user \<times> string) option" where
  "handler_user ev r s =
     (case ev_again ev of None \<Rightarrow> None | Some t \<Rightarrow> current_user (ev\<lparr>ev_now := t\<rparr>) r s)"

definition check_csrf :: "request \<Rightarrow> server \<Rightarrow> bool" where
  "check_csrf r s =
     (let got = rq_form r ''csrf'';
          fallback = (case rq_csrf r of None \<Rightarrow> False | Some c \<Rightarrow> c = got)
      in if got = '''' then False
         else (case rq_session r of
                 None \<Rightarrow> fallback
               | Some tok \<Rightarrow>
                   (case session_csrf tok (sv_db s) of
                      Inl e \<Rightarrow> fallback
                    | Inr want \<Rightarrow> if want \<noteq> '''' then want = got else fallback)))"

definition token_text :: "auth_error + string \<Rightarrow> string" where
  "token_text t = (case t of Inl e \<Rightarrow> '''' | Inr x \<Rightarrow> x)"

definition get_login :: "env \<Rightarrow> request \<Rightarrow> server \<Rightarrow> response \<times> server" where
  "get_login ev r s =
     (if current_user ev r s \<noteq> None then (reply (Redirect ''/''), s)
      else (case new_token (ev_random ev 0) of
              Inl e \<Rightarrow> (reply internal_error, s)
            | Inr tok \<Rightarrow>
                (set_cookie r csrf_cookie tok (30 * minute) (reply (Page 200 (LoginPage tok None))), s)))"

definition login_error :: "env \<Rightarrow> request \<Rightarrow> string \<Rightarrow> response" where
  "login_error ev r msg =
     (let tok = token_text (new_token (ev_random ev 0))
      in set_cookie r csrf_cookie tok (30 * minute) (reply (Page 401 (LoginPage tok (Some msg)))))"

text \<open>
  The second half of \<open>postLogin\<close>, once the credentials hold: session, limiter, cookie, audit.
\<close>

definition open_session :: "env \<Rightarrow> request \<Rightarrow> string \<Rightarrow> user \<Rightarrow> server \<Rightarrow> response \<times> server" where
  "open_session ev r username u s =
     (let ip = remote_ip ev r in
      case new_token (ev_random ev 0) of
        Inl e \<Rightarrow> (reply internal_error, s)
      | Inr tok \<Rightarrow>
          (case new_token (ev_random ev 1) of
             Inl e \<Rightarrow> (reply internal_error, s)
           | Inr csrf \<Rightarrow>
               (case create_session (ev_now ev) tok (usr_id u) ip csrf session_ttl (sv_db s) of
                  Inl e \<Rightarrow> (reply internal_error, s)
                | Inr d \<Rightarrow>
                    (set_cookie r session_cookie tok session_ttl (reply (Redirect ''/'')),
                     log_audit ev username ip ''login'' '''' (fr ''succ`es'')
                       ((set_db d s)\<lparr>sv_lim := lim_reset ip (sv_lim s)\<rparr>)))))"

definition password_ok :: "env \<Rightarrow> request \<Rightarrow> user \<Rightarrow> bool" where
  "password_ok ev r u = (verify_password (ev_idkey ev) (rq_form r ''password'') (usr_hash u) = Inr True)"

definition password_panics :: "env \<Rightarrow> request \<Rightarrow> user \<Rightarrow> bool" where
  "password_panics ev r u =
     (verify_password (ev_idkey ev) (rq_form r ''password'') (usr_hash u) = Inl Panicked)"

text \<open>The key derived for an account that does not exist, so that the answer takes as long.\<close>

definition dummy_panics :: "env \<Rightarrow> bool" where
  "dummy_panics ev =
     (hash_password (ev_idkey ev) (ev_random ev 2) ''comparaison-factice-pour-egaliser-le-temps'' = Inl Panicked)"

definition totp_ok :: "env \<Rightarrow> request \<Rightarrow> user \<Rightarrow> bool" where
  "totp_ok ev r u = (usr_totp u = '''' \<or>
     verify_totp (ev_hmac ev) (usr_totp u) (trim_space (rq_form r ''totp'')) (ev_now ev))"

definition post_login :: "env \<Rightarrow> request \<Rightarrow> server \<Rightarrow> response \<times> server" where
  "post_login ev r s =
     (let ip = remote_ip ev r in
      if \<not> rq_form_ok r then (reply (HttpError 400 (fr ''requ^ete invalide'')), s)
      else if \<not> check_csrf r s
      then (reply bad_token, log_audit ev ''?'' ip ''login'' '''' ''csrf-invalide'' s)
      else (case allow (ev_now ev) ip (sv_lim s) of
        (granted, lim') \<Rightarrow>
          let s1 = s\<lparr>sv_lim := lim'\<rparr>; username = trim_space (rq_form r ''username'')
          in if \<not> granted
             then (login_error ev r (fr ''Trop de tentatives. R~eessaie dans quinze minutes.''),
                   log_audit ev (rq_form r ''username'') ip ''login'' '''' ''trop-de-tentatives'' s1)
             else (case user_by_name username (sv_db s1) of
                     Inl e \<Rightarrow>
                       if e = ErrNoUser \<and> dummy_panics ev then (reply Panic, s1)
                       else (login_error ev r ''Identifiants invalides.'',
                             log_audit ev username ip ''login'' '''' ''identifiants-invalides'' s1)
                   | Inr u \<Rightarrow>
                       if password_panics ev r u then (reply Panic, s1)
                       else if \<not> password_ok ev r u
                       then (login_error ev r ''Identifiants invalides.'',
                             log_audit ev username ip ''login'' '''' ''identifiants-invalides'' s1)
                       else if \<not> totp_ok ev r u
                       then (login_error ev r (fr ''Code `a usage unique invalide.''),
                             log_audit ev username ip ''login'' '''' ''totp-invalide'' s1)
                       else open_session ev r username u s1)))"

definition post_logout :: "env \<Rightarrow> request \<Rightarrow> server \<Rightarrow> response \<times> server" where
  "post_logout ev r s =
     (if \<not> check_csrf r s then (reply bad_token, s)
      else (let who = handler_user ev r s;
                tok = (case who of None \<Rightarrow> '''' | Some (u, t) \<Rightarrow> t);
                s1 = (case delete_session tok (sv_db s) of Inl e \<Rightarrow> s | Inr d \<Rightarrow> set_db d s);
                s2 = (case who of None \<Rightarrow> s1
                      | Some (u, t) \<Rightarrow> log_audit ev (usr_name u) (remote_ip ev r) ''logout'' '''' (fr ''succ`es'') s1)
            in (set_cookie r session_cookie '''' (- hour) (reply (Redirect ''/login'')), s2)))"

section \<open>Pages\<close>

definition firing :: "host_view list \<Rightarrow> host_view list" where
  "firing hosts = filter (\<lambda>h. hv_state h \<noteq> StateOK) hosts"

definition alert_counts :: "sante list \<Rightarrow> int \<times> int" where
  "alert_counts ss =
     (let as = concat (map sa_alertes ss);
          c = length (filter (\<lambda>a. al_niveau a = ''crit'') as)
      in (int c, int (length as) - int c))"

definition server_sante :: "env \<Rightarrow> config \<Rightarrow> server \<Rightarrow> store_error + sante list" where
  "server_sante ev cfg s =
     sante_fleet (dec_health (ev_codec ev)) (dec_probe (ev_codec ev)) (ev_now ev) cfg (sv_db s)"

text \<open>\<open>page\<close>: the data of the side rail; a session without a form token is given one.\<close>

definition make_rail :: "env \<Rightarrow> config \<Rightarrow> string \<Rightarrow> request \<Rightarrow> server \<Rightarrow> rail \<times> server" where
  "make_rail ev cfg name r s =
     (let who = handler_user ev r s;
          tok = (case who of None \<Rightarrow> '''' | Some (u, t) \<Rightarrow> t);
          have_csrf = (case session_csrf tok (sv_db s) of Inl e \<Rightarrow> '''' | Inr c \<Rightarrow> c);
          fresh = token_text (new_token (ev_random ev 0));
          csrf = (if have_csrf = '''' then fresh else have_csrf);
          s1 = (if have_csrf = ''''
                then (case set_session_csrf tok csrf (sv_db s) of Inl e \<Rightarrow> s | Inr d \<Rightarrow> set_db d s)
                else s);
          hosts = (case fleet_view (ev_now ev) cfg (sv_db s1) of Inl e \<Rightarrow> [] | Inr vs \<Rightarrow> vs);
          counts = (case server_sante ev cfg s1 of Inl e \<Rightarrow> (0, 0) | Inr ss \<Rightarrow> alert_counts ss)
      in (\<lparr>ra_page = name, ra_user = map_option fst who, ra_csrf = csrf,
           ra_nhosts = int (length hosts), ra_nalerts = int (length (firing hosts)),
           ra_crit = fst counts, ra_warn = snd counts\<rparr>, s1))"

definition sante_map :: "sante list \<Rightarrow> string \<rightharpoonup> sante" where
  "sante_map ss = foldl (\<lambda>m x. m(sa_name x \<mapsto> x)) Map.empty ss"

definition spark_map :: "host_view list \<Rightarrow> db \<Rightarrow> string \<rightharpoonup> int list" where
  "spark_map hosts d =
     foldl (\<lambda>m h. case history (hv_name h) 20 d of
                    Inl e \<Rightarrow> m | Inr cs \<Rightarrow> m(hv_name h \<mapsto> map ck_size cs)) Map.empty hosts"

definition get_fleet :: "env \<Rightarrow> config \<Rightarrow> request \<Rightarrow> server \<Rightarrow> response \<times> server" where
  "get_fleet ev cfg r s =
     (case fleet_view (ev_now ev) cfg (sv_db s) of
        Inl e \<Rightarrow> (reply internal_error, s)
      | Inr hosts \<Rightarrow>
          let sante = (case server_sante ev cfg s of Inl e \<Rightarrow> Map.empty | Inr ss \<Rightarrow> sante_map ss);
              (ra, s1) = make_rail ev cfg ''parc'' r s
          in (reply (Page 200 (FleetPage ra hosts sante (sum_fleet hosts) (spark_map hosts (sv_db s1)))), s1))"

fun crumbs_from :: "string \<Rightarrow> string list \<Rightarrow> crumb list" where
  "crumbs_from cur [] = []"
| "crumbs_from cur (seg # segs) =
     (if seg = '''' then crumbs_from cur segs
      else (let cur' = cur @ ''/'' @ seg
            in \<lparr>cb_name = seg, cb_path = cur'\<rparr> # crumbs_from cur' segs))"

definition crumbs :: "string \<Rightarrow> crumb list" where
  "crumbs p = \<lparr>cb_name = ''/'', cb_path = ''/''\<rparr> #
     crumbs_from '''' (split_on (CHR ''/'') (trim_char (CHR ''/'') p))"

definition policy_flag :: "string \<Rightarrow> policy_entry list \<Rightarrow> bool option" where
  "policy_flag k es = map_option pe_allowed (find (\<lambda>e. pe_key e = k) (rev es))"

definition path_or_root :: "request \<Rightarrow> string" where
  "path_or_root r = (if rq_query r ''path'' = '''' then ''/'' else rq_query r ''path'')"

definition get_host :: "env \<Rightarrow> config \<Rightarrow> string \<Rightarrow> request \<Rightarrow> server \<Rightarrow> response \<times> server" where
  "get_host ev cfg name r s =
     (let (ra, s1) = make_rail ev cfg ''parc'' r s in
      case host_detail (ev_codec ev) (ev_now ev) cfg name (sv_col s1) of
        Inl e \<Rightarrow> (reply NotFound, s1)
      | Inr det \<Rightarrow>
          let snap = (if rq_query r ''snap'' = '''' \<and> de_snapshots det \<noteq> []
                      then sn_id (hd (de_snapshots det)) else rq_query r ''snap'');
              path = path_or_root r;
              acts = (case actions_for (ev_audit_order ev) name 6 (sv_db s1) of Inl e \<Rightarrow> [] | Inr es \<Rightarrow> es);
              journal = (case audit_for (ev_audit_order ev) name 25 (sv_db s1) of Inl e \<Rightarrow> [] | Inr es \<Rightarrow> es)
          in (reply (Page 200 (HostPage ra det snap path (crumbs path)
                (policy_flag ''SHIM_ALLOW_RESTORE'' (de_policy det))
                (policy_flag ''SHIM_STREAM_TO_CONSOLE'' (de_policy det))
                acts journal (rq_query r ''done''))), s1))"

definition get_tree :: "env \<Rightarrow> config \<Rightarrow> string \<Rightarrow> request \<Rightarrow> server \<Rightarrow> response \<times> server" where
  "get_tree ev cfg name r s =
     (let snap = rq_query r ''snap''; path = path_or_root r;
          (nodes, err) =
            (case browse cfg (ev_tree ev name snap) (ev_list ev name snap path) name path of
               Inl e \<Rightarrow> ([], Some (collector_error_text e))
             | Inr (ns, long, _) \<Rightarrow> if long then ([], Some ''bufio.Scanner: token too long'') else (ns, None))
      in (reply (Page 200 (TreePage name snap path (crumbs path) nodes err)), s))"

definition get_alerts :: "env \<Rightarrow> config \<Rightarrow> request \<Rightarrow> server \<Rightarrow> response \<times> server" where
  "get_alerts ev cfg r s =
     (case fleet_view (ev_now ev) cfg (sv_db s) of
        Inl e \<Rightarrow> (reply internal_error, s)
      | Inr hosts \<Rightarrow>
          let (ra, s1) = make_rail ev cfg ''alertes'' r s
          in (reply (Page 200 (AlertsPage ra (firing hosts) hosts)), s1))"

definition get_sante :: "env \<Rightarrow> config \<Rightarrow> request \<Rightarrow> server \<Rightarrow> response \<times> server" where
  "get_sante ev cfg r s =
     (case server_sante ev cfg s of
        Inl e \<Rightarrow> (reply internal_error, s)
      | Inr ss \<Rightarrow>
          let (ra, s1) = make_rail ev cfg ''sante'' r s
          in (reply (Page 200 (SantePage ra ss (fst (alert_counts ss)) (snd (alert_counts ss)))), s1))"

definition get_history :: "env \<Rightarrow> config \<Rightarrow> request \<Rightarrow> server \<Rightarrow> response \<times> server" where
  "get_history ev cfg r s =
     (case timeline (ev_episode_order ev) (ev_format ev) (ev_now ev) cfg (rq_query r ''w'') (sv_db s) of
        Inl e \<Rightarrow> (reply internal_error, s)
      | Inr td \<Rightarrow>
          let (ra, s1) = make_rail ev cfg ''historique'' r s
          in (reply (Page 200 (HistoryPage ra td windows)), s1))"

definition get_audit :: "env \<Rightarrow> config \<Rightarrow> request \<Rightarrow> server \<Rightarrow> response \<times> server" where
  "get_audit ev cfg r s =
     (case recent_audit (ev_audit_order ev) 200 (sv_db s) of
        Inl e \<Rightarrow> (reply internal_error, s)
      | Inr es \<Rightarrow>
          let (ra, s1) = make_rail ev cfg ''journal'' r s
          in (reply (Page 200 (AuditPage ra es)), s1))"

text \<open>\<open>url.QueryEscape\<close>\<close>

definition hex_digit :: "nat \<Rightarrow> char" where
  "hex_digit n = ''0123456789ABCDEF'' ! n"

definition plain_char :: "char \<Rightarrow> bool" where
  "plain_char c \<longleftrightarrow> (let n = (of_char c :: nat) in 48 \<le> n \<and> n \<le> 57 \<or> 65 \<le> n \<and> n \<le> 90 \<or>
     97 \<le> n \<and> n \<le> 122 \<or> c \<in> set ''-_.~'')"

definition query_escape :: "string \<Rightarrow> string" where
  "query_escape s = concat (map (\<lambda>c.
     if plain_char c then [c] else if c = CHR '' '' then ''+''
     else [CHR ''%'', hex_digit (of_char c div 16), hex_digit (of_char c mod 16)]) s)"

definition post_action :: "env \<Rightarrow> config \<Rightarrow> string \<Rightarrow> request \<Rightarrow> server \<Rightarrow> response \<times> server" where
  "post_action ev cfg name r s =
     (if \<not> rq_form_ok r \<or> \<not> check_csrf r s then (reply bad_token, s)
      else (case handler_user ev r s of
              None \<Rightarrow> (reply Panic, s)
            | Some (u, _) \<Rightarrow>
                let verb = rq_form r ''verb''; ip = remote_ip ev r
                in (case action_begin (ev_now ev) cfg name verb (usr_name u) ip (sv_col s) of
                      Inl e \<Rightarrow>
                        (reply (Redirect (''/host/'' @ name @ ''?busy='' @ query_escape (collector_error_text e))),
                         log_audit ev (usr_name u) ip verb name (fr ''refus~e : '' @ collector_error_text e) s)
                    | Inr (h, c) \<Rightarrow>
                        (reply (Redirect (''/host/'' @ name @ ''?done='' @ query_escape verb)), s\<lparr>sv_col := c\<rparr>))))"

section \<open>Routing\<close>

datatype route =
    GetLogin | PostLogin | PostLogout | GetFleet | GetHost string | GetTree string | GetStatic | StaticDir
  | GetAlerts | GetSante | GetHistory | GetExplorer | PostAction string | GetAudit | WrongMethod

text \<open>
  \<open>url.PathUnescape\<close>: the multiplexer decodes the segments of the path as it was sent, and
  takes one that is badly encoded as it is.
\<close>

definition hex_val :: "char \<Rightarrow> nat option" where
  "hex_val c =
     (let n = (of_char c :: nat)
      in if 48 \<le> n \<and> n \<le> 57 then Some (n - 48) else if 97 \<le> n \<and> n \<le> 102 then Some (n - 87)
         else if 65 \<le> n \<and> n \<le> 70 then Some (n - 55) else None)"

fun percent_decode :: "string \<Rightarrow> string option" where
  "percent_decode [] = Some []"
| "percent_decode (c # cs) =
     (if c \<noteq> CHR ''%'' then map_option (Cons c) (percent_decode cs)
      else (case cs of
              a # b # rest \<Rightarrow>
                (case (hex_val a, hex_val b) of
                   (Some m, Some n) \<Rightarrow> map_option (Cons (char_of (16 * m + n))) (percent_decode rest)
                 | _ \<Rightarrow> None)
            | _ \<Rightarrow> None))"

definition path_unescape :: "string \<Rightarrow> string" where
  "path_unescape s = (case percent_decode s of None \<Rightarrow> s | Some t \<Rightarrow> t)"

text \<open>
  The patterns of the multiplexer on a path it has cleaned: a pattern of \<open>GET\<close> also serves
  \<open>HEAD\<close>, \<open>GET /\<close> catches every other path, and only \<open>POST\<close> has other patterns. A wildcard
  matches neither the end of a path nor its trailing slash. \<open>/static\<close> is sent to \<open>/static/\<close>.
\<close>

definition route_of :: "string \<Rightarrow> string \<Rightarrow> route" where
  "route_of m path =
     (let segs = map path_unescape (tl (split_on (CHR ''/'') path)) in
      if m = ''GET'' \<or> m = ''HEAD''
      then (if segs = [''login''] then GetLogin
            else if segs = [''alerts''] then GetAlerts
            else if segs = [''sante''] then GetSante
            else if segs = [''historique''] then GetHistory
            else if segs = [''explorer''] then GetExplorer
            else if segs = [''audit''] then GetAudit
            else if segs = [''static''] then StaticDir
            else (case segs of
                    [a, b] \<Rightarrow>
                      if a = ''host'' \<and> b \<notin> {'''', ''/''} then GetHost b
                      else if a = ''static'' then GetStatic else GetFleet
                  | [a, b, c] \<Rightarrow>
                      if a = ''host'' \<and> b \<notin> {'''', ''/''} \<and> c = ''tree'' then GetTree b
                      else if a = ''static'' then GetStatic else GetFleet
                  | a # b # _ \<Rightarrow> if a = ''static'' then GetStatic else GetFleet
                  | _ \<Rightarrow> GetFleet))
      else if m = ''POST''
      then (if segs = [''login''] then PostLogin
            else if segs = [''logout''] then PostLogout
            else (case segs of
                    [a, b, c] \<Rightarrow>
                      if a = ''host'' \<and> b \<notin> {'''', ''/''} \<and> c = ''action'' then PostAction b else WrongMethod
                  | _ \<Rightarrow> WrongMethod))
      else WrongMethod)"

definition open_route :: "route \<Rightarrow> bool" where
  "open_route rt \<longleftrightarrow> rt \<in> {GetLogin, PostLogin, GetStatic, StaticDir, WrongMethod}"

definition require_auth ::
  "env \<Rightarrow> (request \<Rightarrow> server \<Rightarrow> response \<times> server) \<Rightarrow> request \<Rightarrow> server \<Rightarrow> response \<times> server" where
  "require_auth ev next_handler r s =
     (if current_user ev r s = None then (reply (Redirect ''/login''), s) else next_handler r s)"

definition get_explorer :: "request \<Rightarrow> server \<Rightarrow> response \<times> server" where
  "get_explorer r s =
     (if rq_query r ''host'' \<noteq> '''' then (reply (Redirect (''/host/'' @ rq_query r ''host'')), s)
      else (reply (Redirect ''/''), s))"

definition serve :: "env \<Rightarrow> config \<Rightarrow> request \<Rightarrow> server \<Rightarrow> response \<times> server" where
  "serve ev cfg r s =
     (case route_of (rq_method r) (rq_path r) of
        GetLogin \<Rightarrow> get_login ev r s
      | PostLogin \<Rightarrow> post_login ev r s
      | PostLogout \<Rightarrow> require_auth ev (post_logout ev) r s
      | GetFleet \<Rightarrow> require_auth ev (get_fleet ev cfg) r s
      | GetHost name \<Rightarrow> require_auth ev (get_host ev cfg name) r s
      | GetTree name \<Rightarrow> require_auth ev (get_tree ev cfg name) r s
      | GetStatic \<Rightarrow> (reply Static, s)
      | StaticDir \<Rightarrow> (reply (MovedTo ''/static/''), s)
      | GetAlerts \<Rightarrow> require_auth ev (get_alerts ev cfg) r s
      | GetSante \<Rightarrow> require_auth ev (get_sante ev cfg) r s
      | GetHistory \<Rightarrow> require_auth ev (get_history ev cfg) r s
      | GetExplorer \<Rightarrow> require_auth ev get_explorer r s
      | PostAction name \<Rightarrow> require_auth ev (post_action ev cfg name) r s
      | GetAudit \<Rightarrow> require_auth ev (get_audit ev cfg) r s
      | WrongMethod \<Rightarrow> (reply MethodNotAllowed, s))"

text \<open>The outermost barrier.\<close>

definition handle :: "env \<Rightarrow> config \<Rightarrow> request \<Rightarrow> server \<Rightarrow> response \<times> server" where
  "handle ev cfg r s =
     (case remote_addr ev r of
        None \<Rightarrow> (reply NotFound, s)
      | Some ip \<Rightarrow> if \<not> ip_allowed cfg ip then (reply NotFound, s) else serve ev cfg r s)"

text \<open>The headers set on every answer given to an admitted source.\<close>

definition security_headers :: "request \<Rightarrow> (string \<times> string) list" where
  "security_headers r =
     [(''Content-Security-Policy'',
       ''default-src 'none'; script-src 'self'; connect-src 'self'; '' @
       ''style-src 'unsafe-inline'; img-src data:; form-action 'self'; '' @
       ''frame-ancestors 'none'; base-uri 'none'' @ [CHR 0x27]),
      (''X-Content-Type-Options'', ''nosniff''),
      (''Referrer-Policy'', ''no-referrer''),
      (''X-Frame-Options'', ''DENY''),
      (''Permissions-Policy'', ''geolocation=(), microphone=(), camera=()'')] @
     (if rq_tls r then [(''Strict-Transport-Security'', ''max-age=63072000; includeSubDomains'')] else [])"

definition served_headers :: "env \<Rightarrow> config \<Rightarrow> request \<Rightarrow> (string \<times> string) list" where
  "served_headers ev cfg r =
     (case remote_addr ev r of
        None \<Rightarrow> []
      | Some ip \<Rightarrow> if \<not> ip_allowed cfg ip then [] else security_headers r)"

end
