(* ===== verification/Amarre_Sessions.thy ===== *)
theory Amarre_Sessions
  imports Amarre_Store_Facts
begin

text \<open>
  The sessions table as the server uses it: a contract between whoever opens, looks up, ends
  and purges sessions and the table that keeps them, proved of the model of the store.
\<close>

section \<open>The contract\<close>

text \<open>
  \<open>create\<close>, \<open>find\<close>, \<open>remove\<close> and \<open>purge\<close> are the statements, \<open>account\<close> the user of an identifier.
  A session found is the one created under that token, from its address and before its end;
  removing ends it, and purging ends only what has already ended.
\<close>

locale session_store =
  fixes create :: "time \<Rightarrow> string \<Rightarrow> int \<Rightarrow> string \<Rightarrow> string \<Rightarrow> duration \<Rightarrow> 's \<Rightarrow> 'e + 's"
    and find_user :: "time \<Rightarrow> string \<Rightarrow> string \<Rightarrow> 's \<Rightarrow> 'e + user"
    and remove :: "string \<Rightarrow> 's \<Rightarrow> 'e + 's"
    and purge :: "time \<Rightarrow> 's \<Rightarrow> 'e + 's"
    and account :: "int \<Rightarrow> 's \<Rightarrow> user option"
    and ok :: "'s \<Rightarrow> bool" and up :: "'s \<Rightarrow> bool" and unknown :: 'e
  assumes find_created: "ok s \<Longrightarrow> up s \<Longrightarrow> create t tok uid ip csrf ttl s = Inr s' \<Longrightarrow> account uid s = Some u \<Longrightarrow>
      find_user now tok ip' s' = (if ip' = ip \<and> unix_sec now < unix_sec (t + ttl) then Inr u else Inl unknown)"
    and find_created_other: "create t tok uid ip csrf ttl s = Inr s' \<Longrightarrow> tok' \<noteq> tok \<Longrightarrow>
      find_user now tok' ip' s' = find_user now tok' ip' s"
    and find_removed: "up s \<Longrightarrow> remove tok s = Inr s' \<Longrightarrow> find_user now tok ip s' = Inl unknown"
    and find_removed_other: "remove tok s = Inr s' \<Longrightarrow> tok' \<noteq> tok \<Longrightarrow>
      find_user now tok' ip s' = find_user now tok' ip s"
    and find_purged: "purge t s = Inr s' \<Longrightarrow> t \<le> now \<Longrightarrow> find_user now tok ip s' = find_user now tok ip s"
    and up_kept: "create t tok uid ip csrf ttl s = Inr s' \<Longrightarrow> up s' = up s" "remove tok s = Inr s' \<Longrightarrow> up s' = up s"
      "purge t s = Inr s' \<Longrightarrow> up s' = up s"
begin

lemmas find_laws = find_created find_created_other find_removed find_removed_other find_purged

text \<open>A purge between login and use changes nothing; after removal no later purge revives.\<close>

lemma created_purged:
  assumes "ok s" "up s" "create t tok uid ip csrf ttl s = Inr s1" "account uid s = Some u"
    and "purge t' s1 = Inr s2" "t' \<le> now"
  shows "find_user now tok ip' s2 = (if ip' = ip \<and> unix_sec now < unix_sec (t + ttl) then Inr u else Inl unknown)"
  using find_created [OF assms(1-4)] find_purged [OF assms(5,6)] by simp

lemma removed_purged:
  assumes "up s" "remove tok s = Inr s1" "purge t' s1 = Inr s2" "t' \<le> now"
  shows "find_user now tok ip s2 = Inl unknown"
  using find_removed [OF assms(1,2)] find_purged [OF assms(3,4)] by simp

lemma expired_is_unknown:
  assumes "ok s" "up s" "create t tok uid ip csrf ttl s = Inr s'" "account uid s = Some u" "t + ttl \<le> now"
  shows "find_user now tok ip' s' = Inl unknown"
proof -
  have "unix_sec (t + ttl) \<le> unix_sec now" using assms(5) by (simp add: go_time zdiv_mono1)
  then show ?thesis using find_created [OF assms(1-4)] by simp
qed

end

section \<open>The table keeps it\<close>

definition account :: "int \<Rightarrow> db \<Rightarrow> user option" where
  "account i d = map_option user_of (find (\<lambda>r. us_id r = i) (db_users d))"

lemma user_of_id [simp]: "usr_id (user_of row) = us_id row"
  by (simp add: user_of_def)

lemma account_of_row: "store_inv d \<Longrightarrow> u \<in> set (db_users d) \<Longrightarrow> account (us_id u) d = Some (user_of u)"
proof -
  assume inv: "store_inv d" and u: "u \<in> set (db_users d)"
  then have "distinct (map us_id (db_users d))"
    by (auto simp: store_inv_def ascending_def strict_sorted_iff)
  with u find_map_of [of us_id "db_users d" u] show ?thesis by (simp add: account_def)
qed

lemma session_row_found:
  assumes "store_inv d" and "row \<in> set (db_sessions d)" and "u \<in> set (db_users d)"
    and "se_user row = us_id u" and "\<not> db_fails d SSelectSession"
  shows "session_user now (se_token row) ip d =
    (if unix_sec now < se_expires row \<and> se_ip row = ip then Inr (user_of u) else Inl ErrNoUser)"
proof (cases "unix_sec now < se_expires row \<and> se_ip row = ip")
  case True
  then have "session_grants now (se_token row) ip d u"
    using assms(2-4) by (auto simp: session_grants_def)
  with True assms(1,5) show ?thesis by (simp add: session_user_complete)
next
  case False
  have tokens: "distinct (map se_token (db_sessions d))" using assms(1) by (simp add: store_inv_def)
  have "\<not> session_grants now (se_token row) ip d r" for r
  proof
    assume "session_grants now (se_token row) ip d r"
    then obtain row' where "row' \<in> set (db_sessions d)" "se_token row' = se_token row"
        "unix_sec now < se_expires row'" "se_ip row' = ip"
      by (auto simp: session_grants_def)
    moreover from this tokens assms(2) have "row' = row" by (auto simp: distinct_map dest: inj_onD)
    ultimately show False using False by simp
  qed
  with False assms(5) show ?thesis by (simp add: session_user_None)
qed

lemma session_rows_deleted:
  assumes "delete_session tok d = Inr d'"
  shows "session_user now t ip d' =
    (if t = tok then (if db_fails d SSelectSession then Inl ErrEngine else Inl ErrNoUser)
     else session_user now t ip d)"
proof -
  have d': "d' = d\<lparr>db_sessions := filter (\<lambda>r. se_token r \<noteq> tok) (db_sessions d)\<rparr>"
    using assms by (auto simp: delete_session_def split: if_splits)
  have "filter (session_matches now t ip) (db_sessions d') =
      (if t = tok then [] else filter (session_matches now t ip) (db_sessions d))"
    by (auto simp: d' session_matches_def filter_empty_conv intro!: filter_cong)
  then have "session_rows now t ip d' = (if t = tok then [] else session_rows now t ip d)"
    by (simp add: session_rows_def d')
  moreover have "db_fails d' = db_fails d" by (simp add: d')
  ultimately show ?thesis by (cases "t = tok") (simp_all add: session_user_def)
qed

lemma session_user_purged:
  assumes "purge_expired_sessions now d = Inr d'" and "now \<le> now'"
  shows "session_user now' token ip d' = session_user now' token ip d"
proof -
  have d': "d' = d\<lparr>db_sessions := filter (\<lambda>r. unix_sec now < se_expires r) (db_sessions d)\<rparr>"
    using assms(1) by (auto simp: purge_expired_sessions_def err_iff)
  have "unix_sec now \<le> unix_sec now'"
    using assms(2) by (simp add: go_time zdiv_mono1)
  then have "filter (session_matches now' token ip) (db_sessions d') =
      filter (session_matches now' token ip) (db_sessions d)"
    by (auto simp: d' session_matches_def intro!: filter_cong)
  then have "session_rows now' token ip d' = session_rows now' token ip d"
    by (simp add: session_rows_def d')
  then show ?thesis by (simp add: session_user_def) (simp add: d')
qed

lemma created_session:
  "create_session t tok uid ip csrf ttl d = Inr d' \<Longrightarrow>
   d' = d\<lparr>db_sessions := db_sessions d @ [\<lparr>se_token = tok, se_user = uid, se_created = unix_sec t,
     se_expires = unix_sec (t + ttl), se_ip = ip, se_csrf = Some csrf\<rparr>]\<rparr>"
  by (auto simp: create_session_def split: if_splits)

lemma session_user_created:
  assumes "store_inv d" and "\<not> db_fails d SSelectSession"
    and "create_session t tok uid ip csrf ttl d = Inr d'" and "account uid d = Some u"
  shows "session_user now tok ip' d' =
    (if ip' = ip \<and> unix_sec now < unix_sec (t + ttl) then Inr u else Inl ErrNoUser)"
proof -
  note d' = created_session [OF assms(3)]
  let ?row = "\<lparr>se_token = tok, se_user = uid, se_created = unix_sec t,
     se_expires = unix_sec (t + ttl), se_ip = ip, se_csrf = Some csrf\<rparr>"
  obtain r where r: "r \<in> set (db_users d)" "us_id r = uid" "u = user_of r"
    using assms(4) by (auto simp: account_def dest: find_SomeD)
  have "?row \<in> set (db_sessions d')" "r \<in> set (db_users d')" "se_user ?row = us_id r"
    using r d' by simp_all
  from session_row_found [OF create_session_inv [OF assms(3,1)] this] assms(2) r(3) d'
  show ?thesis by auto
qed

lemma session_user_created_other:
  assumes "create_session t tok uid ip csrf ttl d = Inr d'" and "tok' \<noteq> tok"
  shows "session_user now tok' ip' d' = session_user now tok' ip' d"
  using created_session [OF assms(1)] assms(2)
  by (simp add: session_user_def session_rows_def session_matches_def)

interpretation sessions: session_store create_session session_user delete_session purge_expired_sessions
  account store_inv "\<lambda>d. \<not> db_fails d SSelectSession" ErrNoUser
proof
  show "create_session t tok uid ip csrf ttl d = Inr d' \<Longrightarrow>
      (\<not> db_fails d' SSelectSession) = (\<not> db_fails d SSelectSession)"
    for t tok uid ip csrf ttl d d'
    by (auto dest: created_session)
  show "delete_session tok d = Inr d' \<Longrightarrow> (\<not> db_fails d' SSelectSession) = (\<not> db_fails d SSelectSession)"
    for tok d d'
    by (auto simp: delete_session_def err_iff)
  show "purge_expired_sessions t d = Inr d' \<Longrightarrow>
      (\<not> db_fails d' SSelectSession) = (\<not> db_fails d SSelectSession)" for t d d'
    by (auto simp: purge_expired_sessions_def err_iff)
qed (simp_all add: session_user_created session_user_created_other session_rows_deleted session_user_purged)

section \<open>Property\<close>

text \<open>
  The purge is invisible. Deleting the expired sessions changes no answer to the question
  whom a token stands for, then or later, from any address.
\<close>

theorem purge_invisible:
  assumes "purge_expired_sessions now d = Inr d'" and "now \<le> now'"
  shows "session_user now' token ip d' = session_user now' token ip d"
  using assms by (rule sessions.find_purged)

theorem purge_invisible_demo:
  "\<exists>d d'. length (db_sessions d) = 1 \<and> purge_expired_sessions (9 * hour) d = Inr d' \<and> db_sessions d' = [] \<and>
     session_user (9 * hour) ''t'' ''ip'' d' = session_user (9 * hour) ''t'' ''ip'' d"
proof -
  obtain d where d: "create_session 0 ''t'' 1 ''ip'' ''c'' (8 * hour) (empty_db\<lparr>db_fk := False\<rparr>) = Inr d"
      "length (db_sessions d) = 1" "\<forall>r\<in>set (db_sessions d). se_expires r = 28800" "db_fails d = (\<lambda>_. False)"
    by (simp add: create_session_def empty_db_def go_time)
  then obtain d' where d': "purge_expired_sessions (9 * hour) d = Inr d'" "db_sessions d' = []"
    by (simp add: purge_expired_sessions_def filter_empty_conv go_time)
  with purge_invisible [OF d'(1), of "9 * hour"] d(2) show ?thesis by blast
qed

end
