(* ===== verification/Amarre_Web_Facts.thy ===== *)
theory Amarre_Web_Facts
  imports Amarre_Web Amarre_Sessions Amarre_Collector_Facts Amarre_Fleet_Facts
begin

text \<open>
  What the server guarantees: nothing outside the allowed addresses, nothing without a session
  bound to its address and its lifetime, no session without all factors, no action without the
  form token, and a bound on the guesses an address can make.
\<close>

section \<open>Frames\<close>

lemma path_unescape_plain [simp]:
  assumes "CHR ''%'' \<notin> set s"
  shows "path_unescape s = s"
proof -
  have "percent_decode s = Some s" using assms by (induction s) auto
  then show ?thesis by (simp add: path_unescape_def)
qed

lemma set_db_simps [simp]:
  "sv_db (set_db d s) = d" "sv_lim (set_db d s) = sv_lim s"
  "co_running (sv_col (set_db d s)) = co_running (sv_col s)"
  by (simp_all add: set_db_def)

lemma audit_frame [simp]:
  "db_sessions (audit now a ip act t out d) = db_sessions d"
  "db_users (audit now a ip act t out d) = db_users d"
  "db_fails (audit now a ip act t out d) = db_fails d"
  by (simp_all add: audit_def)

lemma log_audit_frame [simp]:
  "db_sessions (sv_db (log_audit ev a ip act t out s)) = db_sessions (sv_db s)"
  "db_users (sv_db (log_audit ev a ip act t out s)) = db_users (sv_db s)"
  "db_fails (sv_db (log_audit ev a ip act t out s)) = db_fails (sv_db s)"
  "sv_lim (log_audit ev a ip act t out s) = sv_lim s"
  by (simp_all add: log_audit_def)

lemma set_cookie_answer [simp]: "rs_answer (set_cookie r n v t rs) = rs_answer rs"
  by (simp add: set_cookie_def)

lemma login_error_cookies: "c \<in> set (rs_cookies (login_error ev r m)) \<Longrightarrow> cookie_name c = csrf_cookie"
  by (simp add: login_error_def Let_def set_cookie_def reply_def)

lemma cookies_differ [simp]: "session_cookie \<noteq> csrf_cookie" "csrf_cookie \<noteq> session_cookie"
  by (simp_all add: session_cookie_def csrf_cookie_def)

section \<open>Who a request is\<close>

text \<open>The session a request presents stands for the user row \<open>u\<close>.\<close>

definition authenticates :: "env \<Rightarrow> request \<Rightarrow> server \<Rightarrow> user_row \<Rightarrow> bool" where
  "authenticates ev r s u \<longleftrightarrow>
     (\<exists>tok a. rq_session r = Some tok \<and> remote_addr ev r = Some a \<and>
        session_grants (ev_now ev) tok (ev_show_addr ev a) (sv_db s) u)"

lemma current_user_Some:
  "current_user ev r s = Some (u, tok) \<Longrightarrow>
   rq_session r = Some tok \<and> (\<exists>row. authenticates ev r s row \<and> u = user_of row)"
  by (auto simp: current_user_def authenticates_def split: option.splits sum.splits
      dest!: session_user_Inr)

lemma unauthenticated: "(\<And>u. \<not> authenticates ev r s u) \<Longrightarrow> current_user ev r s = None"
  using current_user_Some by (cases "current_user ev r s") fastforce+

lemma remote_addr_unmapped: "remote_addr ev r = Some a \<Longrightarrow> unmap a = a"
  by (auto simp: remote_addr_def Let_def)

section \<open>Properties of access\<close>

text \<open>
  C16. The outer barrier. A request whose source is unreadable or lies in none of the configured
  prefixes gets the same not-found answer whatever it asks, sets no cookie, receives none of
  the headers the console puts on its answers, and changes nothing, not even the audit log or the attempt counter.
\<close>

theorem outsider_learns_nothing:
  assumes "\<And>a p. remote_addr ev r = Some a \<Longrightarrow> p \<in> set (cfg_allowed cfg) \<Longrightarrow> \<not> prefix_contains p a"
  shows "handle ev cfg r s = (\<lparr>rs_answer = NotFound, rs_cookies = []\<rparr>, s) \<and> served_headers ev cfg r = []"
proof (cases "remote_addr ev r")
  case None
  then show ?thesis by (simp add: handle_def reply_def served_headers_def)
next
  case (Some a)
  then have "unmap a = a" by (rule remote_addr_unmapped)
  with Some assms have "\<not> ip_allowed cfg a" by (auto simp: ip_allowed_def)
  with Some show ?thesis by (simp add: handle_def reply_def served_headers_def)
qed

definition demo_env :: env where
  "demo_env = \<lparr>ev_now = 1000 * second, ev_again = Some (1000 * second), ev_random = (\<lambda>n. Some [of_nat n, 7, 9]),
     ev_idkey = (\<lambda>pw salt t m p l.
       if t = 0 \<or> p = 0 then None else Some (replicate (unat l) (if pw = [] then 0 else hd pw))),
     ev_hmac = (\<lambda>k m. replicate 20 0), ev_split = (\<lambda>s. Some s),
     ev_parse_addr = (\<lambda>s. if s = ''10.0.0.1'' then Some (V4 0x0A000001)
       else if s = ''10.0.0.2'' then Some (V4 0x0A000002) else None),
     ev_show_addr = (\<lambda>a. case a of V4 w \<Rightarrow> show_nat (unat w) | _ \<Rightarrow> ''invalid IP''),
     ev_codec = unit_codec, ev_audit_order = slice_stable, ev_episode_order = slice_stable,
     ev_format = (\<lambda>l t. l), ev_tree = (\<lambda>h s. Inl (TreeFailed h)),
     ev_list = (\<lambda>h s p. Inl PolicyMissing)\<rparr>"

definition demo_request :: request where
  "demo_request = \<lparr>rq_remote = ''10.0.0.1'', rq_tls = True, rq_method = ''GET'', rq_path = ''/audit'',
     rq_session = None, rq_csrf = None, rq_form_ok = True, rq_form = (\<lambda>_. ''''), rq_query = (\<lambda>_. '''')\<rparr>"

definition demo_server :: server where
  "demo_server = new_server (new_collector empty_db)"

definition open_config :: config where
  "open_config = demo_config\<lparr>cfg_allowed := [prefix_from (V4 0x0A000001) 32]\<rparr>"

theorem outsider_learns_nothing_witness:
  "handle demo_env open_config (demo_request\<lparr>rq_remote := ''10.0.0.2''\<rparr>) demo_server =
     (\<lparr>rs_answer = NotFound, rs_cookies = []\<rparr>, demo_server) \<and>
   served_headers demo_env open_config (demo_request\<lparr>rq_remote := ''10.0.0.2''\<rparr>) = []"
proof (rule outsider_learns_nothing)
  fix a p
  assume "remote_addr demo_env (demo_request\<lparr>rq_remote := ''10.0.0.2''\<rparr>) = Some a"
  then have "a = V4 0x0A000002"
    by (auto simp: remote_addr_def demo_env_def demo_request_def)
  moreover assume "p \<in> set (cfg_allowed open_config)"
  ultimately show "\<not> prefix_contains p a"
    using prefix_contains_full [of "V4 0x0A000001" a] by (simp add: open_config_def)
qed

text \<open>
  C1. No page without a session. Except for the login form, its submission, the static files
  and unknown methods, a request that presents no unexpired session of its own address gets
  the not-found answer or the redirection to the login page, sets no cookie, and changes nothing.
\<close>

theorem no_page_without_session:
  assumes "\<not> open_route (route_of (rq_method r) (rq_path r))" and "\<And>u. \<not> authenticates ev r s u"
  shows "handle ev cfg r s \<in> {(\<lparr>rs_answer = NotFound, rs_cookies = []\<rparr>, s),
    (\<lparr>rs_answer = Redirect ''/login'', rs_cookies = []\<rparr>, s)}"
proof -
  have "current_user ev r s = None" using assms(2) by (rule unauthenticated)
  then have guard: "require_auth ev f r s = (reply (Redirect ''/login''), s)" for f
    by (simp add: require_auth_def)
  have "serve ev cfg r s = (reply (Redirect ''/login''), s)"
    using assms(1) by (simp add: serve_def guard open_route_def split: route.splits)
  then show ?thesis by (simp add: handle_def reply_def split: option.splits)
qed

theorem no_page_without_session_witness:
  "handle demo_env open_config demo_request demo_server \<in>
     {(\<lparr>rs_answer = NotFound, rs_cookies = []\<rparr>, demo_server),
      (\<lparr>rs_answer = Redirect ''/login'', rs_cookies = []\<rparr>, demo_server)}"
proof (rule no_page_without_session)
  show "\<not> open_route (route_of (rq_method demo_request) (rq_path demo_request))"
    by (simp add: demo_request_def route_of_def open_route_def)
  show "\<not> authenticates demo_env demo_request demo_server u" for u
    by (simp add: authenticates_def demo_request_def)
qed

section \<open>Login\<close>

text \<open>All the factors: form, form token, rate, account, password, one-time code.\<close>

definition factors_ok :: "env \<Rightarrow> request \<Rightarrow> server \<Rightarrow> user \<Rightarrow> bool" where
  "factors_ok ev r s u \<longleftrightarrow>
     rq_form_ok r \<and> check_csrf r s \<and>
     int (recent_attempts (sv_lim s) (remote_ip ev r) (ev_now ev)) < lim_max (sv_lim s) \<and>
     user_by_name (trim_space (rq_form r ''username'')) (sv_db s) = Inr u \<and>
     password_ok ev r u \<and> totp_ok ev r u"

definition grants_session :: "response \<Rightarrow> string \<Rightarrow> bool" where
  "grants_session rs tok \<longleftrightarrow> (\<exists>c\<in>set (rs_cookies rs). cookie_name c = session_cookie \<and> cookie_value c = tok)"

lemma login_error_no_session [simp]: "grants_session (login_error ev r m) = (\<lambda>_. False)"
  using login_error_cookies [of _ ev r m] by (auto simp: grants_session_def fun_eq_iff)

lemma reply_no_session [simp]: "grants_session (reply a) = (\<lambda>_. False)"
  by (simp add: grants_session_def reply_def fun_eq_iff)

lemma open_session_iff:
  "grants_session (fst (open_session ev r username u s)) tok \<longleftrightarrow>
   (\<exists>csrf d. new_token (ev_random ev 0) = Inr tok \<and> new_token (ev_random ev 1) = Inr csrf \<and>
     create_session (ev_now ev) tok (usr_id u) (remote_ip ev r) csrf session_ttl (sv_db s) = Inr d)"
  by (auto simp: open_session_def Let_def set_cookie_def grants_session_def reply_def split: sum.splits)

lemma password_ok_safe: "password_ok ev r u \<Longrightarrow> \<not> password_panics ev r u"
  by (simp add: password_ok_def password_panics_def)

lemma post_login_cases:
  "post_login ev r s =
   (if factors_ok ev r s u
    then open_session ev r (trim_space (rq_form r ''username'')) u
      (s\<lparr>sv_lim := snd (allow (ev_now ev) (remote_ip ev r) (sv_lim s))\<rparr>)
    else post_login ev r s)"
proof (cases "factors_ok ev r s u")
  case True
  then have "fst (allow (ev_now ev) (remote_ip ev r) (sv_lim s))"
    by (simp add: factors_ok_def lim.granted_iff)
  with True show ?thesis
    by (simp add: post_login_def factors_ok_def password_ok_safe Let_def split_beta)
qed simp

lemma post_login_refused:
  assumes "\<And>u. \<not> factors_ok ev r s u"
  shows "\<not> grants_session (fst (post_login ev r s)) tok" "db_sessions (sv_db (snd (post_login ev r s))) = db_sessions (sv_db s)"
proof -
  have no: "\<not> (password_ok ev r u \<and> totp_ok ev r u)"
    if "rq_form_ok r" "check_csrf r s" "fst (allow (ev_now ev) (remote_ip ev r) (sv_lim s))"
      "user_by_name (trim_space (rq_form r ''username'')) (sv_db s) = Inr u" for u
    using assms [of u] that by (simp add: factors_ok_def lim.granted_iff)
  show "\<not> grants_session (fst (post_login ev r s)) tok"
    using no by (auto simp: post_login_def Let_def split_beta split: sum.splits)
  show "db_sessions (sv_db (snd (post_login ev r s))) = db_sessions (sv_db s)"
    using no by (auto simp: post_login_def Let_def split_beta split: sum.splits)
qed

text \<open>
  C2. Every factor, and nothing less. A login hands out a session cookie exactly when the form
  and its token are good, the address has attempts left, the account exists, the password and
  the one-time code (if the account has one) verify, and the random source and the database
  deliver; the sessions of the database change only then, by one row for that user and that
  address, valid for eight hours.
\<close>

theorem login_needs_every_factor:
  "(grants_session (fst (post_login ev r s)) tok \<longleftrightarrow>
     (\<exists>u csrf d. factors_ok ev r s u \<and> new_token (ev_random ev 0) = Inr tok \<and>
        new_token (ev_random ev 1) = Inr csrf \<and>
        create_session (ev_now ev) tok (usr_id u) (remote_ip ev r) csrf (8 * hour) (sv_db s) = Inr d)) \<and>
   (db_sessions (sv_db (snd (post_login ev r s))) = db_sessions (sv_db s) \<or>
     (\<exists>u t csrf. factors_ok ev r s u \<and> grants_session (fst (post_login ev r s)) t \<and>
        db_sessions (sv_db (snd (post_login ev r s))) = db_sessions (sv_db s) @
          [\<lparr>se_token = t, se_user = usr_id u, se_created = unix_sec (ev_now ev),
            se_expires = unix_sec (ev_now ev + 8 * hour), se_ip = remote_ip ev r, se_csrf = Some csrf\<rparr>]))"
proof (cases "\<exists>u. factors_ok ev r s u")
  case False
  with post_login_refused [of ev r s] show ?thesis by auto
next
  case True
  then obtain u where u: "factors_ok ev r s u" by blast
  let ?s = "s\<lparr>sv_lim := snd (allow (ev_now ev) (remote_ip ev r) (sv_lim s))\<rparr>"
  have login: "post_login ev r s = open_session ev r (trim_space (rq_form r ''username'')) u ?s"
    using post_login_cases [of ev r s u] u by simp
  have only: "u' = u" if "factors_ok ev r s u'" for u'
    using that u by (simp add: factors_ok_def)
  have row: "\<exists>t csrf. grants_session (fst (post_login ev r s)) t \<and>
      db_sessions (sv_db (snd (post_login ev r s))) = db_sessions (sv_db s) @
        [\<lparr>se_token = t, se_user = usr_id u, se_created = unix_sec (ev_now ev),
          se_expires = unix_sec (ev_now ev + 8 * hour), se_ip = remote_ip ev r, se_csrf = Some csrf\<rparr>]"
    if "db_sessions (sv_db (snd (post_login ev r s))) \<noteq> db_sessions (sv_db s)"
    using that unfolding login
    by (auto simp: open_session_def Let_def set_cookie_def grants_session_def reply_def session_ttl_def
        create_session_def split: sum.splits if_splits)
  have "grants_session (fst (post_login ev r s)) tok \<longleftrightarrow>
      (\<exists>csrf d. new_token (ev_random ev 0) = Inr tok \<and> new_token (ev_random ev 1) = Inr csrf \<and>
        create_session (ev_now ev) tok (usr_id u) (remote_ip ev r) csrf (8 * hour) (sv_db s) = Inr d)"
    unfolding login open_session_iff by (simp add: session_ttl_def)
  with u only row show ?thesis by blast
qed

section \<open>The life of a session\<close>

lemma user_by_name_row:
  "user_by_name n d = Inr u \<Longrightarrow> \<exists>row\<in>set (db_users d). us_name row = n \<and> u = user_of row"
  by (auto simp: user_by_name_def split: if_splits option.splits dest: find_SomeD)

section \<open>A login, step by step\<close>

definition demo_hash :: string where
  "demo_hash = (case hash_password (ev_idkey demo_env) (Some [1, 2, 3]) ''secret'' of Inl _ \<Rightarrow> '''' | Inr h \<Rightarrow> h)"

definition demo_row :: user_row where
  "demo_row = \<lparr>us_id = 1, us_name = ''root'', us_hash = demo_hash, us_totp = Some '''', us_created = 0\<rparr>"

definition demo_site_server :: server where
  "demo_site_server = new_server (new_collector (empty_db\<lparr>db_users := [demo_row]\<rparr>))"

definition demo_login :: "string \<Rightarrow> request" where
  "demo_login pw = demo_request\<lparr>rq_method := ''POST'', rq_path := ''/login'', rq_csrf := Some ''c'',
     rq_form := (\<lambda>k. if k = ''csrf'' then ''c'' else if k = ''username'' then ''root''
       else if k = ''password'' then pw else '''')\<rparr>"

definition demo_token :: string where "demo_token = b64_url_encode (fill 32 [0, 7, 9])"

definition demo_csrf :: string where "demo_csrf = b64_url_encode (fill 32 [1, 7, 9])"

definition demo_open_server :: server where
  "demo_open_server = snd (post_login demo_env (demo_login ''secret'') demo_site_server)"

lemma demo_addr [simp]: "remote_addr demo_env (demo_login pw) = Some (V4 0x0A000001)"
  by (simp add: remote_addr_def demo_env_def demo_login_def demo_request_def)

lemma demo_ip [simp]: "remote_ip demo_env (demo_login pw) = show_nat 0x0A000001"
  by (simp add: remote_ip_def) (simp add: demo_env_def)

lemma demo_allowed: "ip_allowed open_config (V4 0x0A000001)"
  using prefix_contains_full [of "V4 0x0A000001" "V4 0x0A000001"]
  by (simp add: ip_allowed_def open_config_def)

lemma demo_trim [simp]: "trim_space ''root'' = ''root''"
  by (rule trim_space_visible) (auto simp: visible_def)

lemma demo_idkey: "idkey_length (ev_idkey demo_env)"
  by (simp add: idkey_length_def demo_env_def)

lemma demo_checks:
  "verify_password (ev_idkey demo_env) (rq_form (demo_login pw) ''password'') (usr_hash (user_of demo_row)) =
   Inr (argon_key (ev_idkey demo_env) pw [1, 2, 3] = argon_key (ev_idkey demo_env) ''secret'' [1, 2, 3])"
proof -
  have "hash_password (ev_idkey demo_env) (Some [1, 2, 3]) ''secret'' = Inr demo_hash"
    by (simp add: demo_hash_def hash_password_def argon_defs demo_env_def)
  with demo_idkey show ?thesis
    using verify_password_hash by (simp add: demo_login_def demo_row_def user_of_def)
qed

lemma demo_verify:
  "password_ok demo_env (demo_login pw) (user_of demo_row) \<longleftrightarrow>
   argon_key (ev_idkey demo_env) pw [1, 2, 3] = argon_key (ev_idkey demo_env) ''secret'' [1, 2, 3]"
  by (simp add: password_ok_def demo_checks)

lemma demo_wrong: "\<not> password_ok demo_env (demo_login ''guess'') (user_of demo_row)"
  unfolding demo_verify by (simp add: argon_key_def demo_env_def string_bytes_def)

lemma demo_safe: "\<not> password_panics demo_env (demo_login pw) (user_of demo_row)"
  unfolding password_panics_def demo_checks by simp

lemma demo_csrf_ok: "rq_form_ok (demo_login pw)" "check_csrf (demo_login pw) s"
  by (simp_all add: demo_login_def demo_request_def check_csrf_def)

lemma demo_fresh: "recent_attempts (sv_lim demo_site_server) ip now = 0" "lim_max (sv_lim demo_site_server) = 5"
  by (simp_all add: demo_site_server_def new_server_def new_limiter_def recent_attempts_def
      kept_attempts_def attempts_of_def)

lemma demo_granted: "fst (allow now ip (sv_lim demo_site_server))"
  by (simp add: lim.granted_iff demo_fresh)

lemma demo_user: "user_by_name ''root'' (sv_db demo_site_server) = Inr (user_of demo_row)"
  by (simp add: user_by_name_def demo_site_server_def new_server_def new_collector_def empty_db_def demo_row_def)

lemma demo_factors: "factors_ok demo_env (demo_login ''secret'') demo_site_server (user_of demo_row)"
proof -
  have "password_ok demo_env (demo_login ''secret'') (user_of demo_row)" by (simp add: demo_verify)
  moreover have "totp_ok demo_env (demo_login ''secret'') (user_of demo_row)"
    by (simp add: totp_ok_def user_of_def demo_row_def str_of_def)
  moreover have "rq_form (demo_login ''secret'') ''username'' = ''root''"
    by (simp add: demo_login_def)
  ultimately show ?thesis
    by (simp add: factors_ok_def demo_csrf_ok demo_fresh demo_user)
qed

lemma demo_tokens:
  "new_token (ev_random demo_env 0) = Inr demo_token" "new_token (ev_random demo_env 1) = Inr demo_csrf"
  by (simp_all add: new_token_def demo_env_def demo_token_def demo_csrf_def)

lemma demo_session:
  "grants_session (fst (post_login demo_env (demo_login ''secret'') demo_site_server)) demo_token"
proof -
  have "post_login demo_env (demo_login ''secret'') demo_site_server =
      open_session demo_env (demo_login ''secret'') (trim_space (rq_form (demo_login ''secret'') ''username''))
        (user_of demo_row) (demo_site_server\<lparr>sv_lim := snd (allow (ev_now demo_env)
          (remote_ip demo_env (demo_login ''secret'')) (sv_lim demo_site_server))\<rparr>)"
    using post_login_cases [of demo_env "demo_login ''secret''" demo_site_server "user_of demo_row"] demo_factors by simp
  then show ?thesis
    by (simp add: open_session_iff demo_tokens [unfolded One_nat_def] create_session_def demo_site_server_def
        new_server_def new_collector_def empty_db_def demo_row_def)
qed

lemma demo_inv: "store_inv (sv_db demo_site_server)"
  by (simp add: demo_site_server_def new_server_def new_collector_def empty_db_def store_inv_def
      ascending_def demo_row_def)

text \<open>What a successful login leaves in the database.\<close>

lemma session_user_audit [simp]:
  "session_user now t ip (audit n a i act tg out d) = session_user now t ip d"
  by (simp add: session_user_def session_rows_def)

lemma user_by_name_account:
  "store_inv d \<Longrightarrow> user_by_name n d = Inr u \<Longrightarrow> account (usr_id u) d = Some u"
  using user_by_name_row account_of_row by fastforce

lemma login_opens:
  assumes "grants_session (fst (post_login ev r s)) tok" and "store_inv (sv_db s)"
  shows "\<exists>u csrf d. user_by_name (trim_space (rq_form r ''username'')) (sv_db s) = Inr u \<and>
    account (usr_id u) (sv_db s) = Some u \<and> new_token (ev_random ev 1) = Inr csrf \<and>
    create_session (ev_now ev) tok (usr_id u) (remote_ip ev r) csrf (8 * hour) (sv_db s) = Inr d \<and>
    sv_db (snd (post_login ev r s)) = audit (ev_now ev) (trim_space (rq_form r ''username'')) (remote_ip ev r)
      ''login'' '''' (fr ''succ`es'') d"
proof -
  obtain u where u: "factors_ok ev r s u" using assms(1) post_login_refused(1) by blast
  then have name: "user_by_name (trim_space (rq_form r ''username'')) (sv_db s) = Inr u"
    by (simp add: factors_ok_def)
  let ?s = "s\<lparr>sv_lim := snd (allow (ev_now ev) (remote_ip ev r) (sv_lim s))\<rparr>"
  have login: "post_login ev r s = open_session ev r (trim_space (rq_form r ''username'')) u ?s"
    using post_login_cases [of ev r s u] u by simp
  from assms(1) obtain csrf d where
    "new_token (ev_random ev 0) = Inr tok" "new_token (ev_random ev 1) = Inr csrf"
    "create_session (ev_now ev) tok (usr_id u) (remote_ip ev r) csrf (8 * hour) (sv_db s) = Inr d"
    unfolding login open_session_iff by (auto simp: session_ttl_def)
  with name user_by_name_account [OF assms(2) name] show ?thesis
    by (intro exI [of _ u] exI [of _ csrf] exI [of _ d])
      (simp add: login open_session_def Let_def log_audit_def session_ttl_def)
qed

text \<open>Right after the login; what happens over a run of requests is shown in \<open>Amarre_Web_Runs\<close>.\<close>

lemma session_after_login:
  assumes "store_inv (sv_db s)" and "grants_session (fst (post_login ev r s)) tok"
    and "\<not> db_fails (sv_db s) SSelectSession"
    and "rq_session r' = Some tok" and "remote_addr ev' r' = Some a"
  shows "\<exists>u. user_by_name (trim_space (rq_form r ''username'')) (sv_db s) = Inr u \<and>
    current_user ev' r' (snd (post_login ev r s)) =
      (if ev_show_addr ev' a = remote_ip ev r \<and> unix_sec (ev_now ev') < unix_sec (ev_now ev + 8 * hour)
       then Some (u, tok) else None)"
proof -
  from login_opens [OF assms(2,1)] obtain u csrf d where
    u: "user_by_name (trim_space (rq_form r ''username'')) (sv_db s) = Inr u" "account (usr_id u) (sv_db s) = Some u"
    and d: "create_session (ev_now ev) tok (usr_id u) (remote_ip ev r) csrf (8 * hour) (sv_db s) = Inr d"
      "\<And>now ip. session_user now tok ip (sv_db (snd (post_login ev r s))) = session_user now tok ip d"
    by auto
  from sessions.find_created [OF assms(1,3) d(1) u(2)] u(1) assms(4,5) show ?thesis
    by (auto simp: current_user_def d(2))
qed

definition demo_visit :: "string \<Rightarrow> request" where
  "demo_visit from = demo_request\<lparr>rq_remote := from, rq_session := Some demo_token\<rparr>"

lemma demo_visit_addr:
  "remote_addr demo_env (demo_visit ''10.0.0.1'') = Some (V4 0x0A000001)"
  "remote_addr demo_env (demo_visit ''10.0.0.2'') = Some (V4 0x0A000002)"
  "rq_session (demo_visit h) = Some demo_token"
  by (simp_all add: remote_addr_def demo_env_def demo_visit_def demo_request_def)

lemma demo_no_failure: "db_fails (sv_db demo_site_server) x = False"
  by (simp add: demo_site_server_def new_server_def new_collector_def empty_db_def)

section \<open>Logout and forged forms\<close>

lemma handler_user_Some: "handler_user ev r s = Some (u, tok) \<Longrightarrow> rq_session r = Some tok"
  using current_user_Some by (fastforce simp: handler_user_def split: option.splits)

lemma logout_result:
  assumes "check_csrf r s" and "handler_user ev r s = Some (u, tok)"
    and "delete_session tok (sv_db s) = Inr d'"
  shows "post_logout ev r s =
    (set_cookie r session_cookie '''' (- hour) (reply (Redirect ''/login'')),
     log_audit ev (usr_name u) (remote_ip ev r) ''logout'' '''' (fr ''succ`es'') (set_db d' s))"
  using assms by (simp add: post_logout_def Let_def)

text \<open>
  Logout ends the session. After a logout that carries the form token (whose handler still finds
  the session, and whose deletion the database accepts), no request from any address at any time is authenticated by the token
  of the session; every other token authenticates what it did before.
\<close>

lemma logout_ends_session:
  assumes "check_csrf r s" and "handler_user ev r s = Some (u, tok)"
    and "\<not> db_fails (sv_db s) SDeleteSession"
  shows "current_user ev' r' (snd (post_logout ev r s)) =
    (if rq_session r' = Some tok then None else current_user ev' r' s)"
proof -
  obtain d' where d': "delete_session tok (sv_db s) = Inr d'"
    using assms(3) by (simp add: delete_session_def)
  have gone: "session_user now tok ip d' \<noteq> Inr v" for now ip v
    using sessions.find_removed [OF _ d'] session_rows_deleted [OF d'] by auto
  with sessions.find_removed_other [OF d'] logout_result [OF assms(1,2) d'] show ?thesis
    by (auto simp: current_user_def log_audit_def split: option.splits sum.splits)
qed

lemma demo_open_row:
  "db_sessions (sv_db demo_open_server) =
   [\<lparr>se_token = demo_token, se_user = 1, se_created = 1000, se_expires = 29800,
     se_ip = show_nat 0x0A000001, se_csrf = Some demo_csrf\<rparr>]"
  "db_users (sv_db demo_open_server) = [demo_row]" "db_fails (sv_db demo_open_server) = (\<lambda>_. False)"
proof -
  have users: "db_users (sv_db demo_site_server) = [demo_row]" "db_sessions (sv_db demo_site_server) = []"
      "db_fails (sv_db demo_site_server) = (\<lambda>_. False)"
    by (simp_all add: demo_site_server_def new_server_def new_collector_def empty_db_def)
  have times: "unix_sec (ev_now demo_env) = 1000" "unix_sec (ev_now demo_env + 8 * hour) = 29800"
    by (simp_all add: demo_env_def go_time)
  from login_opens [OF demo_session demo_inv] demo_tokens(2) users times
  show "db_sessions (sv_db demo_open_server) =
      [\<lparr>se_token = demo_token, se_user = 1, se_created = 1000, se_expires = 29800,
        se_ip = show_nat 0x0A000001, se_csrf = Some demo_csrf\<rparr>]"
    "db_users (sv_db demo_open_server) = [demo_row]" "db_fails (sv_db demo_open_server) = (\<lambda>_. False)"
    by (auto simp: demo_open_server_def demo_row_def user_by_name_def user_of_def dest!: created_session
        split: option.splits if_splits)
qed

lemma demo_csrf_text: "demo_csrf = ''AQcJ'' @ replicate 39 (CHR ''A'')"
  unfolding demo_csrf_def by code_simp

lemma remote_addr_form [simp]: "remote_addr ev (r\<lparr>rq_form := f\<rparr>) = remote_addr ev r"
  by (cases "ev_split ev (rq_remote r)") (simp_all add: remote_addr_def)

lemma current_user_form [simp]: "current_user ev (r\<lparr>rq_form := f\<rparr>) s = current_user ev r s"
  by (cases "rq_session r") (simp_all add: current_user_def)

lemma demo_open_csrf: "session_csrf demo_token (sv_db demo_open_server) = Inr demo_csrf"
  by (simp add: session_csrf_def demo_open_row str_of_def)

lemma demo_open_user:
  "current_user demo_env (demo_visit ''10.0.0.1'') demo_open_server = Some (user_of demo_row, demo_token)"
proof -
  have "session_user (ev_now demo_env) demo_token (show_nat 0x0A000001) (sv_db demo_open_server) = Inr (user_of demo_row)"
    by (simp add: session_user_def session_rows_def session_matches_def demo_open_row demo_row_def
        demo_env_def go_time)
  then show ?thesis by (simp add: current_user_def demo_visit_addr) (simp add: demo_env_def)
qed

lemma handler_user_form [simp]: "handler_user ev (r\<lparr>rq_form := f\<rparr>) s = handler_user ev r s"
  by (simp add: handler_user_def cong: option.case_cong)

lemma demo_again: "handler_user demo_env r s = current_user demo_env r s"
proof -
  have "demo_env\<lparr>ev_now := 1000 * second\<rparr> = demo_env" "ev_again demo_env = Some (1000 * second)"
    by (simp_all add: demo_env_def)
  then show ?thesis by (simp add: handler_user_def)
qed

lemma logout_ends_session_demo:
  "current_user demo_env (demo_visit ''10.0.0.1'')
     (snd (post_logout demo_env ((demo_visit ''10.0.0.1'')\<lparr>rq_form := (\<lambda>_. demo_csrf)\<rparr>) demo_open_server)) = None"
proof -
  let ?r = "(demo_visit ''10.0.0.1'')\<lparr>rq_form := (\<lambda>_. demo_csrf)\<rparr>"
  have "check_csrf ?r demo_open_server"
    by (simp add: demo_csrf_text check_csrf_def demo_open_csrf demo_visit_addr)
  moreover have "handler_user demo_env ?r demo_open_server = Some (user_of demo_row, demo_token)"
    using demo_open_user by (simp add: demo_again)
  moreover have "\<not> db_fails (sv_db demo_open_server) SDeleteSession" by (simp add: demo_open_row)
  ultimately show ?thesis
    using logout_ends_session [of ?r demo_open_server demo_env "user_of demo_row" demo_token demo_env
        "demo_visit ''10.0.0.1''"]
    by (simp add: demo_visit_addr)
qed

lemma forged_check:
  "rq_session r = Some tok \<Longrightarrow> session_csrf tok (sv_db s) = Inr want \<Longrightarrow> want \<noteq> '''' \<Longrightarrow>
   rq_form r ''csrf'' \<noteq> want \<Longrightarrow> \<not> check_csrf r s"
  by (auto simp: check_csrf_def Let_def)

text \<open>
  C8. Forged forms do nothing. Take a session that carries a form token, as every session does
  that a login opened, and whose token the database gives when it is asked. A request for an
  operation on a host or for a logout that rides on this session without knowing its form token
  is refused, whatever its form-token cookie says: no operation starts, no audit line is written,
  no session ends, no cookie is set. (A session without a form token, and one whose token the
  database refuses to give, are compared with that cookie instead.)
\<close>

theorem forged_forms_do_nothing:
  assumes "route_of (rq_method r) (rq_path r) \<in> {PostAction name, PostLogout}"
    and "rq_session r = Some tok" and "session_csrf tok (sv_db s) = Inr want" and "want \<noteq> ''''"
    and "rq_form r ''csrf'' \<noteq> want"
  shows "snd (handle ev cfg r s) = s \<and> rs_cookies (fst (handle ev cfg r s)) = [] \<and>
    rs_answer (fst (handle ev cfg r s)) \<in> {NotFound, Redirect ''/login'', HttpError 403 ''jeton invalide''}"
proof -
  have "\<not> check_csrf r s" using assms(2-5) by (rule forged_check)
  then have "post_action ev cfg name r s = (reply bad_token, s)" "post_logout ev r s = (reply bad_token, s)"
    by (simp_all add: post_action_def post_logout_def)
  with assms(1) have "serve ev cfg r s \<in> {(reply (Redirect ''/login''), s), (reply bad_token, s)}"
    by (auto simp: serve_def require_auth_def)
  then show ?thesis by (auto simp: handle_def reply_def bad_token_def split: option.splits)
qed

theorem forged_forms_do_nothing_witness:
  "snd (handle demo_env open_config ((demo_visit ''10.0.0.1'')\<lparr>rq_method := ''POST'',
     rq_path := ''/host/web/action'', rq_csrf := Some ''x'', rq_form := (\<lambda>_. ''x'')\<rparr>) demo_open_server) =
   demo_open_server"
proof -
  show ?thesis
    by (intro forged_forms_do_nothing [where name = "''web''" and tok = demo_token and want = demo_csrf,
          THEN conjunct1])
      (simp_all add: route_of_def demo_visit_addr demo_open_csrf demo_csrf_text)
qed

section \<open>Guessing\<close>

text \<open>No handler but the login touches the attempt counter.\<close>

lemma make_rail_lim [simp]: "sv_lim (snd (make_rail ev cfg n r s)) = sv_lim s"
  by (auto simp: make_rail_def Let_def split: sum.splits)

lemma page_lims [simp]:
  "sv_lim (snd (get_fleet ev cfg r s)) = sv_lim s" "sv_lim (snd (get_host ev cfg name r s)) = sv_lim s"
  "sv_lim (snd (get_tree ev cfg name r s)) = sv_lim s" "sv_lim (snd (get_alerts ev cfg r s)) = sv_lim s"
  "sv_lim (snd (get_sante ev cfg r s)) = sv_lim s" "sv_lim (snd (get_history ev cfg r s)) = sv_lim s"
  "sv_lim (snd (get_audit ev cfg r s)) = sv_lim s" "sv_lim (snd (get_explorer r s)) = sv_lim s"
  "sv_lim (snd (get_login ev r s)) = sv_lim s" "sv_lim (snd (post_logout ev r s)) = sv_lim s"
  "sv_lim (snd (post_action ev cfg name r s)) = sv_lim s"
  by (simp_all add: get_fleet_def get_host_def get_tree_def get_alerts_def get_sante_def get_history_def
      get_audit_def get_explorer_def get_login_def post_logout_def post_action_def Let_def split_beta
      split: sum.splits option.splits if_splits)

text \<open>The request reaches the lookup of its credentials: it passes every barrier before it.\<close>

definition barriers_passed :: "env \<Rightarrow> config \<Rightarrow> request \<Rightarrow> server \<Rightarrow> bool" where
  "barriers_passed ev cfg r s \<longleftrightarrow>
     (\<exists>a. remote_addr ev r = Some a \<and> ip_allowed cfg a) \<and>
     route_of (rq_method r) (rq_path r) = PostLogin \<and> rq_form_ok r \<and> check_csrf r s"

definition guesses :: "env \<Rightarrow> config \<Rightarrow> request \<Rightarrow> server \<Rightarrow> bool" where
  "guesses ev cfg r s \<longleftrightarrow> barriers_passed ev cfg r s \<and> fst (allow (ev_now ev) (remote_ip ev r) (sv_lim s))"

definition logs_in :: "env \<Rightarrow> config \<Rightarrow> request \<Rightarrow> server \<Rightarrow> bool" where
  "logs_in ev cfg r s \<longleftrightarrow> barriers_passed ev cfg r s \<and> (\<exists>tok. grants_session (fst (post_login ev r s)) tok)"

definition login_events :: "env \<Rightarrow> config \<Rightarrow> request \<Rightarrow> server \<Rightarrow> lim_event list" where
  "login_events ev cfg r s =
     (if barriers_passed ev cfg r s then [Attempt (ev_now ev) (remote_ip ev r)] else []) @
     (if logs_in ev cfg r s then [Clear (remote_ip ev r)] else [])"

lemma handle_not_login:
  assumes "route_of (rq_method r) (rq_path r) \<noteq> PostLogin"
  shows "sv_lim (snd (handle ev cfg r s)) = sv_lim s"
proof -
  have "sv_lim (snd (serve ev cfg r s)) = sv_lim s"
    using assms by (simp add: serve_def require_auth_def split: route.splits)
  then show ?thesis by (simp add: handle_def split: option.splits)
qed

lemma open_session_lim:
  "sv_lim (snd (open_session ev r n u s)) =
   (if \<exists>tok. grants_session (fst (open_session ev r n u s)) tok
    then lim_reset (remote_ip ev r) (sv_lim s) else sv_lim s)"
  by (auto simp: open_session_def Let_def set_cookie_def grants_session_def reply_def split: sum.splits)

lemma post_login_lim:
  "sv_lim (snd (post_login ev r s)) =
   (if rq_form_ok r \<and> check_csrf r s
    then (let l = snd (allow (ev_now ev) (remote_ip ev r) (sv_lim s))
          in if \<exists>tok. grants_session (fst (post_login ev r s)) tok then lim_reset (remote_ip ev r) l else l)
    else sv_lim s)"
  by (simp add: post_login_def Let_def split_beta open_session_lim split: sum.splits)

lemma barred_no_session:
  "\<not> (rq_form_ok r \<and> check_csrf r s) \<Longrightarrow> \<not> grants_session (fst (post_login ev r s)) tok"
  by (auto simp: post_login_def Let_def)

lemma handle_lim: "sv_lim (snd (handle ev cfg r s)) = foldl lim_step (sv_lim s) (login_events ev cfg r s)"
proof (cases "(\<exists>a. remote_addr ev r = Some a \<and> ip_allowed cfg a) \<and> route_of (rq_method r) (rq_path r) = PostLogin")
  case True
  then have "handle ev cfg r s = post_login ev r s" by (auto simp: handle_def serve_def)
  with True show ?thesis
    by (auto simp: post_login_lim login_events_def logs_in_def barriers_passed_def Let_def)
next
  case False
  then have "sv_lim (snd (handle ev cfg r s)) = sv_lim s"
    using handle_not_login [of r ev cfg s] by (auto simp: handle_def split: option.splits)
  with False show ?thesis by (auto simp: login_events_def logs_in_def barriers_passed_def)
qed

text \<open>A run of requests through the server, of any kind and from anywhere.\<close>

fun run_server :: "config \<Rightarrow> (env \<times> request) list \<Rightarrow> server \<Rightarrow> server" where
  "run_server cfg [] s = s"
| "run_server cfg ((ev, r) # rs) s = run_server cfg rs (snd (handle ev cfg r s))"

text \<open>When requests of address \<open>k\<close> reach the credentials, and whether one of them logs in.\<close>

fun guess_times :: "string \<Rightarrow> config \<Rightarrow> (env \<times> request) list \<Rightarrow> server \<Rightarrow> time list" where
  "guess_times k cfg [] s = []"
| "guess_times k cfg ((ev, r) # rs) s =
     (if remote_ip ev r = k \<and> guesses ev cfg r s then [ev_now ev] else []) @
     guess_times k cfg rs (snd (handle ev cfg r s))"

fun gets_in :: "string \<Rightarrow> config \<Rightarrow> (env \<times> request) list \<Rightarrow> server \<Rightarrow> bool" where
  "gets_in k cfg [] s = False"
| "gets_in k cfg ((ev, r) # rs) s =
     ((remote_ip ev r = k \<and> logs_in ev cfg r s) \<or> gets_in k cfg rs (snd (handle ev cfg r s)))"

fun run_events :: "config \<Rightarrow> (env \<times> request) list \<Rightarrow> server \<Rightarrow> lim_event list" where
  "run_events cfg [] s = []"
| "run_events cfg ((ev, r) # rs) s = login_events ev cfg r s @ run_events cfg rs (snd (handle ev cfg r s))"

lemma granted_times_append:
  "granted_times k l (es @ es') = granted_times k l es @ granted_times k (foldl lim_step l es) es'"
  by (induction es arbitrary: l) simp_all

lemma event_times_append: "event_times (es @ es') = event_times es @ event_times es'"
  by (induction es rule: event_times.induct) simp_all

lemma guess_times_granted:
  "\<not> gets_in k cfg rs s \<Longrightarrow> guess_times k cfg rs s = granted_times k (sv_lim s) (run_events cfg rs s)"
proof (induction rs arbitrary: s)
  case (Cons x rs)
  obtain ev r where x: "x = (ev, r)" by (cases x)
  have "granted_times k (sv_lim s) (login_events ev cfg r s) =
      (if remote_ip ev r = k \<and> guesses ev cfg r s then [ev_now ev] else [])"
    by (simp add: login_events_def guesses_def logs_in_def granted_times_append)
  with Cons x show ?case by (simp add: granted_times_append handle_lim)
qed simp

lemma run_events_clear: "Clear k \<in> set (run_events cfg rs s) \<Longrightarrow> gets_in k cfg rs s"
  by (induction cfg rs s rule: run_events.induct) (auto simp: login_events_def split: if_splits)

lemma run_events_times:
  "sorted (map (ev_now \<circ> fst) rs) \<Longrightarrow>
   sorted (event_times (run_events cfg rs s)) \<and>
   set (event_times (run_events cfg rs s)) \<subseteq> set (map (ev_now \<circ> fst) rs)"
proof (induction cfg rs s rule: run_events.induct)
  case (2 cfg ev r rs s)
  have "set (event_times (run_events cfg rs (snd (handle ev cfg r s)))) \<subseteq> set (map (ev_now \<circ> fst) rs)"
    using 2 by simp
  moreover have "\<forall>x\<in>set (map (ev_now \<circ> fst) rs). ev_now ev \<le> x" using 2(2) by simp
  ultimately have "\<forall>x\<in>set (event_times (run_events cfg rs (snd (handle ev cfg r s)))). ev_now ev \<le> x"
    by blast
  with 2 show ?case by (auto simp: event_times_append login_events_def)
qed simp

text \<open>
  C7. Bounded guessing. Whatever requests the server receives, of any kind and from anywhere,
  in the order of their times: if none of those from an address logs in, at most five of them
  reach the lookup of their credentials in any window of fifteen minutes.
\<close>

theorem guessing_is_bounded:
  assumes "sorted (map (ev_now \<circ> fst) rs)" and "\<not> gets_in k cfg rs (new_server c)"
  shows "length (filter (in_window t (15 * minute)) (guess_times k cfg rs (new_server c))) \<le> 5"
proof -
  have "Clear k \<notin> set (run_events cfg rs (new_server c))"
    using assms(2) run_events_clear by blast
  with new_limiter_bound [of "run_events cfg rs (new_server c)" k 5 t "15 * minute"]
    run_events_times [OF assms(1), of cfg "new_server c"]
  have "int (length (filter (in_window t (15 * minute)) (granted_times k (sv_lim (new_server c))
      (run_events cfg rs (new_server c))))) \<le> 5"
    by (simp add: new_server_def)
  then show ?thesis by (simp add: guess_times_granted [OF assms(2)])
qed

theorem guessing_is_bounded_witness:
  "guess_times (show_nat 0x0A000001) open_config
     [(demo_env, demo_login ''guess''), (demo_env, demo_request)] demo_site_server = [1000 * second] \<and>
   length (filter (in_window (1000 * second) (15 * minute)) (guess_times (show_nat 0x0A000001) open_config
     [(demo_env, demo_login ''guess''), (demo_env, demo_request)] demo_site_server)) \<le> 5"
proof
  have route: "route_of (rq_method (demo_login pw)) (rq_path (demo_login pw)) = PostLogin" for pw
    by (simp add: demo_login_def route_of_def)
  have other: "route_of (rq_method demo_request) (rq_path demo_request) = GetAudit"
    by (simp add: demo_request_def route_of_def)
  have "guesses demo_env open_config (demo_login ''guess'') demo_site_server"
    by (simp add: guesses_def barriers_passed_def demo_allowed route demo_csrf_ok demo_granted)
  with other show "guess_times (show_nat 0x0A000001) open_config
      [(demo_env, demo_login ''guess''), (demo_env, demo_request)] demo_site_server = [1000 * second]"
    by (simp add: guesses_def barriers_passed_def) (simp add: demo_env_def)
  have "\<not> factors_ok demo_env (demo_login ''guess'') demo_site_server u" for u
    using demo_wrong demo_user by (auto simp: factors_ok_def demo_login_def)
  then have "\<not> logs_in demo_env open_config (demo_login ''guess'') demo_site_server"
    using post_login_refused(1) by (auto simp: logs_in_def)
  then have "\<not> gets_in (show_nat 0x0A000001) open_config
      [(demo_env, demo_login ''guess''), (demo_env, demo_request)] demo_site_server"
    using other by (simp add: logs_in_def barriers_passed_def)
  then show "length (filter (in_window (1000 * second) (15 * minute)) (guess_times (show_nat 0x0A000001) open_config
     [(demo_env, demo_login ''guess''), (demo_env, demo_request)] demo_site_server)) \<le> 5"
    unfolding demo_site_server_def by (intro guessing_is_bounded) simp_all
qed

text \<open>
  Accounts are not revealed. A login that reaches the credentials and fails on the account
  or on the password gets one and the same answer, and leaves one and the same trace, whether
  the account exists or not.
\<close>

theorem login_hides_accounts:
  assumes "rq_form_ok r" and "check_csrf r s" and "fst (allow (ev_now ev) (remote_ip ev r) (sv_lim s))"
    and "\<And>u. user_by_name (trim_space (rq_form r ''username'')) (sv_db s) = Inr u \<Longrightarrow>
      \<not> password_ok ev r u \<and> \<not> password_panics ev r u"
    and "idkey_length (ev_idkey ev)"
  shows "post_login ev r s =
    (login_error ev r ''Identifiants invalides.'',
     log_audit ev (trim_space (rq_form r ''username'')) (remote_ip ev r) ''login'' '''' ''identifiants-invalides''
       (s\<lparr>sv_lim := snd (allow (ev_now ev) (remote_ip ev r) (sv_lim s))\<rparr>))"
  using assms hash_password_safe [OF assms(5)]
  by (cases "user_by_name (trim_space (rq_form r ''username'')) (sv_db s)")
    (simp_all add: post_login_def dummy_panics_def Let_def split_beta)

theorem login_hides_accounts_demo:
  "fst (post_login demo_env (demo_login ''guess'') demo_site_server) =
     login_error demo_env (demo_login ''guess'') ''Identifiants invalides.'' \<and>
   fst (post_login demo_env (demo_login ''guess'') (new_server (new_collector empty_db))) =
     login_error demo_env (demo_login ''guess'') ''Identifiants invalides.''"
proof
  have name: "trim_space (rq_form (demo_login ''guess'') ''username'') = ''root''"
    by (simp add: demo_login_def)
  have "fst (allow (ev_now demo_env) (remote_ip demo_env (demo_login ''guess'')) (sv_lim demo_site_server))"
    by (rule demo_granted)
  from login_hides_accounts [OF demo_csrf_ok this _ demo_idkey] demo_wrong demo_safe demo_user
  show "fst (post_login demo_env (demo_login ''guess'') demo_site_server) =
      login_error demo_env (demo_login ''guess'') ''Identifiants invalides.''"
    by (simp add: name)
  let ?s = "new_server (new_collector empty_db)"
  have "fst (allow (ev_now demo_env) (remote_ip demo_env (demo_login ''guess'')) (sv_lim ?s))"
    using demo_granted by (simp add: demo_site_server_def new_server_def)
  moreover have "user_by_name ''root'' (sv_db ?s) \<noteq> Inr u" for u
    by (simp add: user_by_name_def new_server_def new_collector_def empty_db_def)
  ultimately show "fst (post_login demo_env (demo_login ''guess'') ?s) =
      login_error demo_env (demo_login ''guess'') ''Identifiants invalides.''"
    using login_hides_accounts [OF demo_csrf_ok, of demo_env "''guess''" ?s] demo_idkey by (simp add: name)
qed

end
