(* ===== verification/Amarre_Web_Runs.thy ===== *)
theory Amarre_Web_Runs
  imports Amarre_Web_Facts
begin

text \<open>
  Sessions over a run of requests. What a handler does to the sessions table is one of the
  statements of \<open>session_store\<close>; a session that is there stays, and stands for the same account,
  until it expires or a logout presents its token.
\<close>

section \<open>What leaves a session alone\<close>

definition kept :: "string \<Rightarrow> db \<Rightarrow> db \<Rightarrow> bool" where
  "kept tok d d' \<longleftrightarrow> tok \<in> se_token ` set (db_sessions d) \<longrightarrow>
     tok \<in> se_token ` set (db_sessions d') \<and>
     (\<forall>now ip. session_user now tok ip d' = session_user now tok ip d)"

lemma kept_refl [simp, intro]: "kept tok d d"
  by (simp add: kept_def)

lemma kept_trans: "kept tok d d' \<Longrightarrow> kept tok d' d'' \<Longrightarrow> kept tok d d''"
  by (auto simp: kept_def)

lemma kept_audit [simp]: "kept tok d (audit now a ip act t out d') \<longleftrightarrow> kept tok d d'"
  by (simp add: kept_def)

lemma kept_log_audit [simp]:
  "kept tok d (sv_db (log_audit ev a ip act t out s)) \<longleftrightarrow> kept tok d (sv_db s)"
  by (simp add: log_audit_def)

lemma kept_create: "create_session t tok' uid ip c ttl d = Inr d' \<Longrightarrow> kept tok d d'"
proof -
  assume create: "create_session t tok' uid ip c ttl d = Inr d'"
  show ?thesis
  proof (cases "tok' = tok")
    case True
    with create show ?thesis by (auto simp: kept_def create_session_def split: if_splits)
  next
    case False
    with sessions.find_created_other [OF create] created_session [OF create] show ?thesis
      by (auto simp: kept_def)
  qed
qed

lemma session_rows_csrf:
  assumes "set_session_csrf tok' c d = Inr d'"
  shows "session_rows now tok ip d' = session_rows now tok ip d"
    and "se_token ` set (db_sessions d') = se_token ` set (db_sessions d)" and "db_fails d' = db_fails d"
proof -
  define f where "f r = (if se_token r = tok' then r\<lparr>se_csrf := Some c\<rparr> else r)" for r :: session_row
  have d': "d' = d\<lparr>db_sessions := map f (db_sessions d)\<rparr>"
    using assms by (auto simp: set_session_csrf_def f_def split: if_splits)
  have f: "session_matches now tok ip (f r) = session_matches now tok ip r" "se_user (f r) = se_user r"
    "se_token (f r) = se_token r" for now tok ip r
    by (simp_all add: session_matches_def f_def)
  then show "session_rows now tok ip d' = session_rows now tok ip d"
    and "se_token ` set (db_sessions d') = se_token ` set (db_sessions d)"
    by (simp_all add: session_rows_def d' filter_map comp_def image_image)
  show "db_fails d' = db_fails d" by (simp add: d')
qed

lemma session_user_csrf:
  "set_session_csrf tok' c d = Inr d' \<Longrightarrow> session_user now tok ip d' = session_user now tok ip d"
  using session_rows_csrf by (simp add: session_user_def)

lemma kept_csrf: "set_session_csrf tok' c d = Inr d' \<Longrightarrow> kept tok d d'"
  using session_rows_csrf(2) session_user_csrf by (auto simp: kept_def)

lemma kept_delete: "delete_session tok' d = Inr d' \<Longrightarrow> tok' \<noteq> tok \<Longrightarrow> kept tok d d'"
  using sessions.find_removed_other [of tok' d d' tok]
  by (auto simp: kept_def delete_session_def split: if_splits)

section \<open>Handlers and runs\<close>

lemma make_rail_kept [simp]: "kept tok (sv_db s) (sv_db (snd (make_rail ev cfg n r s)))"
  by (auto simp: make_rail_def Let_def dest: kept_csrf split: sum.splits)

lemma action_begin_kept: "action_begin now cfg host verb actor ip c = Inr (h, c') \<Longrightarrow> kept tok (co_db c) (co_db c')"
  by (auto simp: action_begin_def split: option.splits if_splits)

lemma page_kept:
  "kept tok (sv_db s) (sv_db (snd (get_fleet ev cfg r s)))" "kept tok (sv_db s) (sv_db (snd (get_host ev cfg name r s)))"
  "kept tok (sv_db s) (sv_db (snd (get_tree ev cfg name r s)))" "kept tok (sv_db s) (sv_db (snd (get_alerts ev cfg r s)))"
  "kept tok (sv_db s) (sv_db (snd (get_sante ev cfg r s)))" "kept tok (sv_db s) (sv_db (snd (get_history ev cfg r s)))"
  "kept tok (sv_db s) (sv_db (snd (get_audit ev cfg r s)))" "kept tok (sv_db s) (sv_db (snd (get_explorer r s)))"
  "kept tok (sv_db s) (sv_db (snd (get_login ev r s)))"
  by (simp_all add: get_fleet_def get_host_def get_tree_def get_alerts_def get_sante_def get_history_def
      get_audit_def get_explorer_def get_login_def Let_def split_beta split: sum.splits option.splits if_splits)

lemma post_action_kept: "kept tok (sv_db s) (sv_db (snd (post_action ev cfg name r s)))"
  by (auto simp: post_action_def Let_def dest: action_begin_kept split: sum.splits option.splits)

lemma open_session_kept: "kept tok (sv_db s) (sv_db (snd (open_session ev r n u s)))"
  by (auto simp: open_session_def Let_def dest: kept_create split: sum.splits)

lemma post_login_kept: "kept tok (sv_db s) (sv_db (snd (post_login ev r s)))"
  using open_session_kept [of tok "s\<lparr>sv_lim := l\<rparr>" for l]
  by (simp add: post_login_def Let_def split_beta split: sum.splits)

lemma post_logout_kept:
  "rq_session r \<noteq> Some tok \<Longrightarrow> tok \<noteq> '''' \<Longrightarrow> kept tok (sv_db s) (sv_db (snd (post_logout ev r s)))"
  by (auto simp: post_logout_def Let_def intro: kept_delete dest: handler_user_Some split: sum.splits option.splits)

text \<open>A granted token is one the random source gave, hence not empty.\<close>

lemma granted_nonempty:
  assumes "grants_session (fst (post_login ev r s)) tok"
  shows "tok \<noteq> ''''"
proof -
  obtain u where "factors_ok ev r s u" using assms post_login_refused(1) by blast
  then have "\<exists>s'. grants_session (fst (open_session ev r (trim_space (rq_form r ''username'')) u s')) tok"
    using assms post_login_cases [of ev r s u] by auto
  then show ?thesis using new_token_nonempty by (auto simp: open_session_iff)
qed

text \<open>A logout that presents the token.\<close>

definition logs_out :: "string \<Rightarrow> request \<Rightarrow> bool" where
  "logs_out tok r \<longleftrightarrow> route_of (rq_method r) (rq_path r) = PostLogout \<and> rq_session r = Some tok"

lemma handle_kept:
  assumes "\<not> logs_out tok r" and "tok \<noteq> ''''"
  shows "kept tok (sv_db s) (sv_db (snd (handle ev cfg r s)))"
proof -
  have "kept tok (sv_db s) (sv_db (snd (serve ev cfg r s)))"
    using assms by (auto simp: serve_def require_auth_def logs_out_def page_kept post_action_kept
        post_login_kept post_logout_kept split: route.splits)
  then show ?thesis by (simp add: handle_def split: option.splits)
qed

lemma run_kept:
  "(\<And>ev r. (ev, r) \<in> set rs \<Longrightarrow> \<not> logs_out tok r) \<Longrightarrow> tok \<noteq> '''' \<Longrightarrow> kept tok (sv_db s) (sv_db (run_server cfg rs s))"
proof (induction cfg rs s rule: run_server.induct)
  case (2 cfg ev r rs s)
  have "kept tok (sv_db s) (sv_db (snd (handle ev cfg r s)))" by (rule handle_kept) (use 2(2,3) in auto)
  then show ?case using 2 kept_trans by fastforce
qed simp

section \<open>Property\<close>

text \<open>
  C3. The life of a session. After a login that granted a token, and any run of requests by
  anyone, other logins and operations included, in which no logout presents the token, a
  request with the token stands for the account that logged in exactly when it comes from the
  address of the login and less than eight hours after it (in the whole seconds the database
  stores): a stolen cookie replayed from elsewhere is worth nothing, and nobody else can end or
  take over the session. The tables are well formed, and the database answers the lookups of
  sessions.
\<close>

theorem session_lifecycle:
  assumes "store_inv (sv_db s)" and "grants_session (fst (post_login ev r s)) tok"
    and "\<not> db_fails (sv_db s) SSelectSession"
    and "\<And>e q. (e, q) \<in> set rs \<Longrightarrow> \<not> logs_out tok q"
    and "rq_session r' = Some tok" and "remote_addr ev' r' = Some a"
  shows "\<exists>u. user_by_name (trim_space (rq_form r ''username'')) (sv_db s) = Inr u \<and>
    current_user ev' r' (run_server cfg rs (snd (post_login ev r s))) =
      (if ev_show_addr ev' a = remote_ip ev r \<and> unix_sec (ev_now ev') < unix_sec (ev_now ev + 8 * hour)
       then Some (u, tok) else None)"
proof -
  let ?s = "snd (post_login ev r s)"
  from login_opens [OF assms(2,1)] obtain c d and u :: user where
    d: "create_session (ev_now ev) tok (usr_id u) (remote_ip ev r) c (8 * hour) (sv_db s) = Inr d"
    and eq: "sv_db ?s = audit (ev_now ev) (trim_space (rq_form r ''username'')) (remote_ip ev r)
      ''login'' '''' (fr ''succ`es'') d"
    by blast
  from created_session [OF d] have "tok \<in> se_token ` set (db_sessions (sv_db ?s))" by (simp add: eq)
  moreover have "kept tok (sv_db ?s) (sv_db (run_server cfg rs ?s))" using assms(4) granted_nonempty [OF assms(2)] by (rule run_kept)
  ultimately have "session_user now tok ip (sv_db (run_server cfg rs ?s)) = session_user now tok ip (sv_db ?s)" for now ip
    by (simp add: kept_def)
  then have "current_user ev' r' (run_server cfg rs ?s) = current_user ev' r' ?s"
    using assms(5,6) by (simp add: current_user_def)
  with session_after_login [OF assms(1-3,5,6)] show ?thesis by simp
qed

theorem session_lifecycle_witness:
  "(\<exists>u. current_user demo_env (demo_visit ''10.0.0.1'')
      (run_server open_config [(demo_env, demo_request)] demo_open_server) = Some (u, demo_token)) \<and>
   current_user demo_env (demo_visit ''10.0.0.2'')
     (run_server open_config [(demo_env, demo_request)] demo_open_server) = None"
proof
  have up: "\<not> db_fails (sv_db demo_site_server) SSelectSession" by (simp add: demo_no_failure)
  let ?run = "run_server open_config [(demo_env, demo_request)] demo_open_server"
  have "\<not> logs_out demo_token q" if "(e, q) \<in> set [(demo_env, demo_request)]" for e q
    using that by (simp add: logs_out_def demo_request_def)
  note life = session_lifecycle [OF demo_inv demo_session up this demo_visit_addr(3),
      folded demo_open_server_def, where cfg = open_config]
  have now: "unix_sec (ev_now demo_env) < unix_sec (ev_now demo_env + 8 * hour)"
    by (simp add: demo_env_def go_time)
  have a: "ev_show_addr demo_env (V4 0x0A000001) = show_nat 0x0A000001"
      "ev_show_addr demo_env (V4 0x0A000002) = show_nat 0x0A000002"
    by (simp_all add: demo_env_def)
  have "show_nat 0x0A000002 \<noteq> show_nat 0x0A000001"
    using read_show_nat [of "0x0A000002"] read_show_nat [of "0x0A000001"] by force
  with life [OF _ demo_visit_addr(2)] a show "current_user demo_env (demo_visit ''10.0.0.2'') ?run = None"
    by fastforce
  from life [OF _ demo_visit_addr(1)] a now
  show "\<exists>u. current_user demo_env (demo_visit ''10.0.0.1'') ?run = Some (u, demo_token)"
    by fastforce
qed

end
