(* ===== verification/Amarre_Runs.thy ===== *)
theory Amarre_Runs
  imports Main
begin

text \<open>
  Contracts for what runs step by step, shared by the concurrent parts. What is \<open>preserved\<close> by
  every step holds throughout a run. A \<open>settling_system\<close> has
  a weight that no step raises and that some enabled step lowers while it is positive; then it
  can always come to rest, and it does in every run that does not put off the helpful steps
  for ever. A \<open>refinement\<close> matches each step of an implementation with one of a specification;
  then runs match, and what is preserved of the specification is preserved of the implementation
  (\<open>safe_refinement\<close>).
\<close>

section \<open>Invariants\<close>

locale preserved =
  fixes step :: "'s \<Rightarrow> 's \<Rightarrow> bool" and inv :: "'s \<Rightarrow> bool"
  assumes step_inv: "step s s' \<Longrightarrow> inv s \<Longrightarrow> inv s'"
begin

lemma run_inv: "step\<^sup>*\<^sup>* s s' \<Longrightarrow> inv s \<Longrightarrow> inv s'"
  by (induction rule: rtranclp_induct) (auto dest: step_inv)

text \<open>A run is a sequence of states; it may stutter.\<close>

lemma sequence_inv:
  assumes "inv (f 0)" and "\<And>n. f (Suc n) = f n \<or> step (f n) (f (Suc n))"
  shows "inv (f n)"
  by (induction n) (use assms step_inv in \<open>metis\<close>)+

end

section \<open>Coming to rest\<close>

locale settling_system = preserved step inv
  for step :: "'s \<Rightarrow> 's \<Rightarrow> bool" and inv :: "'s \<Rightarrow> bool" +
  fixes weight :: "'s \<Rightarrow> nat"
  assumes never_more: "step s s' \<Longrightarrow> inv s \<Longrightarrow> weight s' \<le> weight s"
    and helpful: "inv s \<Longrightarrow> 0 < weight s \<Longrightarrow> \<exists>s'. step s s' \<and> weight s' < weight s"
begin

lemma can_rest:
  "inv s \<Longrightarrow> \<exists>s'. step\<^sup>*\<^sup>* s s' \<and> weight s' = 0"
proof (induction "weight s" arbitrary: s rule: less_induct)
  case less
  show ?case
  proof (cases "weight s = 0")
    case False
    with helpful [OF less.prems] obtain t where t: "step s t" "weight t < weight s" by blast
    from less.hyps [OF t(2) step_inv [OF t(1) less.prems]] t(1) show ?thesis
      by (meson converse_rtranclp_into_rtranclp)
  qed blast
qed

lemma sequence_never_more:
  assumes "inv (f 0)" and run: "\<And>n. f (Suc n) = f n \<or> step (f n) (f (Suc n))" and "n \<le> m"
  shows "weight (f m) \<le> weight (f n)"
  using assms(3)
proof (induction rule: dec_induct)
  case (step m)
  have "weight (f (Suc m)) \<le> weight (f m)"
    using run [of m] never_more sequence_inv [of f m, OF assms(1) run] by fastforce
  with step.IH show ?case by simp
qed simp

theorem fair_run_rests:
  assumes fair: "\<And>n. 0 < weight (f n) \<Longrightarrow> \<exists>m\<ge>n. weight (f m) < weight (f n)"
  shows "\<exists>n. weight (f n) = 0"
proof -
  have "\<exists>m. weight (f m) = 0" if "weight (f n) = w" for n w
    using that
  proof (induction w arbitrary: n rule: less_induct)
    case (less w)
    show ?case
    proof (cases "w = 0")
      case False
      with fair [of n] less.prems obtain m where "weight (f m) < w" by auto
      from less.IH [OF this refl] show ?thesis .
    qed (use less.prems in blast)
  qed
  then show ?thesis by blast
qed

end

section \<open>Refinement\<close>

text \<open>
  Runs of events: the names of the steps taken, and whether every event was allowed where it
  happened. A run itself is \<open>fold\<close> of the step.
\<close>

fun trace_of :: "('e \<Rightarrow> 'c \<Rightarrow> 'c) \<Rightarrow> ('e \<Rightarrow> 'c \<Rightarrow> 'l) \<Rightarrow> 'e list \<Rightarrow> 'c \<Rightarrow> 'l list" where
  "trace_of step label [] c = []"
| "trace_of step label (e # es) c = label e c # trace_of step label es (step e c)"

fun proper :: "('e \<Rightarrow> 'c \<Rightarrow> 'c) \<Rightarrow> ('e \<Rightarrow> 'c \<Rightarrow> bool) \<Rightarrow> 'e list \<Rightarrow> 'c \<Rightarrow> bool" where
  "proper step allowed [] c \<longleftrightarrow> True"
| "proper step allowed (e # es) c \<longleftrightarrow> allowed e c \<and> proper step allowed es (step e c)"

text \<open>
  \<open>label\<close> names the step of the specification that an event of the implementation is, and
  \<open>allowed\<close> restricts the events to those of a proper environment; \<open>related\<close> may carry an
  invariant of the implementation.
\<close>

locale refinement =
  fixes cstep :: "'e \<Rightarrow> 'c \<Rightarrow> 'c" and astep :: "'l \<Rightarrow> 'a \<Rightarrow> 'a"
    and label :: "'e \<Rightarrow> 'c \<Rightarrow> 'l" and allowed :: "'e \<Rightarrow> 'c \<Rightarrow> bool"
    and related :: "'c \<Rightarrow> 'a \<Rightarrow> bool"
  assumes simulates: "related c a \<Longrightarrow> allowed e c \<Longrightarrow> related (cstep e c) (astep (label e c) a)"
begin

lemma run_simulates:
  "related c a \<Longrightarrow> proper cstep allowed es c \<Longrightarrow>
   related (fold cstep es c) (fold astep (trace_of cstep label es c) a)"
  by (induction es arbitrary: c a) (auto dest: simulates)

end

text \<open>
  An invariant of the specification holds of the implementation, through the relation. The
  environment may have to be a proper one for it (\<open>fair\<close>, on the steps of the specification).
\<close>

locale safe_refinement = refinement cstep astep label allowed related
  for cstep :: "'e \<Rightarrow> 'c \<Rightarrow> 'c" and astep :: "'l \<Rightarrow> 'a \<Rightarrow> 'a" and label allowed related +
  fixes fair :: "'l \<Rightarrow> bool" and good :: "'a \<Rightarrow> bool"
  assumes fair_label: "related c a \<Longrightarrow> allowed e c \<Longrightarrow> fair (label e c)"
    and good_kept: "fair l \<Longrightarrow> good a \<Longrightarrow> good (astep l a)"

sublocale safe_refinement \<subseteq> lifted: preserved "\<lambda>c c'. \<exists>e. allowed e c \<and> c' = cstep e c"
  "\<lambda>c. \<exists>a. related c a \<and> good a"
  by unfold_locales (blast intro: simulates good_kept fair_label)

context safe_refinement begin

lemma proper_run: "proper cstep allowed es c \<Longrightarrow> (\<lambda>c c'. \<exists>e. allowed e c \<and> c' = cstep e c)\<^sup>*\<^sup>* c (fold cstep es c)"
proof (induction es arbitrary: c)
  case (Cons e es)
  then have "allowed e c" "(\<lambda>c c'. \<exists>e. allowed e c \<and> c' = cstep e c)\<^sup>*\<^sup>* (cstep e c) (fold cstep es (cstep e c))"
    by simp_all
  then show ?case by (auto intro: converse_rtranclp_into_rtranclp)
qed simp

lemma run_good:
  "proper cstep allowed es c \<Longrightarrow> related c a \<Longrightarrow> good a \<Longrightarrow> \<exists>a. related (fold cstep es c) a \<and> good a"
  using lifted.run_inv [OF proper_run] by blast

end

end
