(* ===== verification/Amarre_Atoms.thy ===== *)
theory Amarre_Atoms
  imports Amarre_Collector_Facts
begin

text \<open>
  The goroutines of the collector, statement by statement: every section under a mutex and every
  SQL statement of \<open>collectOne\<close>, of the body of \<open>Action\<close> and of the end of a round is an atomic
  action (so is, coarser, the health snapshot at the end of a round, which reads the tables and
  writes a row per host), and a goroutine is the list of those it has left to do. What a host answers does not
  depend on the collector's state, so the list is known when the goroutine starts; what a
  statement does depends on the state it meets.
\<close>

section \<open>Actions\<close>

datatype atom =
    NoteFailure time string
  | NoteSuccess string
  | PutMeta time string string string
  | DropMeta string string
  | DropAnswers string
  | DropTrees string
  | RecordCheck check
  | Journal time string string string string string
  | Snapshot time
  | PurgeSessions time
  | PurgeHealth time
  | FreeHost string

definition on_db :: "(db \<Rightarrow> store_error + db) \<Rightarrow> collector \<Rightarrow> collector" where
  "on_db f c = (case f (co_db c) of Inl e \<Rightarrow> c | Inr d \<Rightarrow> c\<lparr>co_db := d\<rparr>)"

fun atom_do :: "codec \<Rightarrow> config \<Rightarrow> atom \<Rightarrow> collector \<Rightarrow> collector" where
  "atom_do cd cfg (NoteFailure now host) c = note_failure cfg now host c"
| "atom_do cd cfg (NoteSuccess host) c = note_success host c"
| "atom_do cd cfg (PutMeta now host kind payload) c = on_db (put_meta now host kind payload) c"
| "atom_do cd cfg (DropMeta host kind) c = on_db (delete_meta host kind) c"
| "atom_do cd cfg (DropAnswers host) c = c\<lparr>co_cache := cache_invalidate host (co_cache c)\<rparr>"
| "atom_do cd cfg (DropTrees host) c = c\<lparr>co_trees := invalidate_trees host (co_trees c)\<rparr>"
| "atom_do cd cfg (RecordCheck chk) c = on_db (record_check chk) c"
| "atom_do cd cfg (Journal now actor ip verb host outcome) c =
     c\<lparr>co_db := audit now actor ip verb host outcome (co_db c)\<rparr>"
| "atom_do cd cfg (Snapshot now) c = record_health_snapshot cd cfg now c"
| "atom_do cd cfg (PurgeSessions now) c = on_db (purge_expired_sessions now) c"
| "atom_do cd cfg (PurgeHealth now) c = on_db (purge_health_history now (15 * 24 * hour)) c"
| "atom_do cd cfg (FreeHost host) c = c\<lparr>co_running := (co_running c)(host := None)\<rparr>"

section \<open>Programs\<close>

definition save_prog :: "time \<Rightarrow> string \<Rightarrow> string \<Rightarrow> ('a \<Rightarrow> string option) \<Rightarrow> fleet_error + 'a \<Rightarrow> atom list" where
  "save_prog now host kind enc r =
     (case r of
        Inl e \<Rightarrow> []
      | Inr v \<Rightarrow> (case enc v of None \<Rightarrow> [] | Some payload \<Rightarrow> [PutMeta now host kind payload]))"

text \<open>\<open>collectOne\<close>.\<close>

definition visit_prog :: "codec \<Rightarrow> answers \<Rightarrow> host_config \<Rightarrow> atom list" where
  "visit_prog cd a h =
     (let host = hc_name h; t = an_later a
      in (case an_status a of
            Inl e \<Rightarrow> [NoteFailure t host]
          | Inr st \<Rightarrow>
              NoteSuccess host #
              save_prog t host ''stats'' (enc_stats cd) (an_stats a) @
              save_prog t host ''snapshots'' (enc_snapshots cd) (an_snapshots a) @
              save_prog t host ''policy'' (enc_policy cd) (an_policy a) @
              save_prog t host ''excludes'' (enc_excludes cd) (an_excludes a) @
              save_prog t host ''health'' (enc_health cd) (an_health a)) @
         (case probe_http t (an_http a) h of
            Some p \<Rightarrow> save_prog t host ''probe'' (enc_probe cd) (Inr p)
          | None \<Rightarrow> [DropMeta host ''probe'']) @
         [DropAnswers host,
          RecordCheck (case an_status a of Inl e \<Rightarrow> failed_check host a e | Inr st \<Rightarrow> reached_check host a st)])"

text \<open>The body of \<open>Action\<close>, with the release that is deferred.\<close>

record outcome =
  oc_command :: "string \<Rightarrow> fleet_error option"
  oc_first :: answers
  oc_again :: answers
  oc_now :: time

definition action_prog ::
  "codec \<Rightarrow> outcome \<Rightarrow> host_config \<Rightarrow> string \<Rightarrow> string \<Rightarrow> string \<Rightarrow> atom list" where
  "action_prog cd oc h verb actor ip =
     (let host = hc_name h; forget = [DropAnswers host, DropTrees host];
          (err, start) =
            (if verb = ''refresh'' then (None, forget @ visit_prog cd (oc_first oc) h)
             else (oc_command oc verb, []))
      in start @
         (case err of
            Some e \<Rightarrow> [Journal (oc_now oc) actor ip verb host (fr ''~echec : '' @ error_text e)]
          | None \<Rightarrow>
              Journal (oc_now oc) actor ip verb host (fr ''succ`es'') #
              forget @ visit_prog cd (oc_again oc) h) @
         [FreeHost host])"

text \<open>The end of a round of \<open>Run\<close>; the first round has no purges.\<close>

definition close_prog :: "bool \<Rightarrow> time \<Rightarrow> atom list" where
  "close_prog first now = Snapshot now # (if first then [] else [PurgeSessions now, PurgeHealth now])"

section \<open>Undisturbed, a program is the operation it came from\<close>

lemma on_db_db: "co_db (on_db f c) = (case f (co_db c) of Inl e \<Rightarrow> co_db c | Inr d \<Rightarrow> d)"
  by (simp add: on_db_def split: sum.splits)

lemma on_db_frame [simp]:
  "co_bo (on_db f c) = co_bo c" "co_cache (on_db f c) = co_cache c" "co_trees (on_db f c) = co_trees c"
  "co_running (on_db f c) = co_running c"
  by (simp_all add: on_db_def split: sum.splits)

lemma on_db_set: "on_db f c = c\<lparr>co_db := (case f (co_db c) of Inl e \<Rightarrow> co_db c | Inr d \<Rightarrow> d)\<rparr>"
  by (simp add: on_db_def split: sum.splits)

lemma fold_save: "fold (atom_do cd cfg) (save_prog now host kind enc r) c =
    c\<lparr>co_db := save_answer now host kind enc r (co_db c)\<rparr>"
  by (auto simp: save_prog_def save_answer_def save_meta_def on_db_set split: sum.splits option.splits)

lemma fold_visit: "fold (atom_do cd cfg) (visit_prog cd a h) c = collect_one cd cfg a h c"
proof -
  have probe: "fold (atom_do cd cfg) (case probe_http t (an_http a) h of
        Some p \<Rightarrow> save_prog t host ''probe'' (enc_probe cd) (Inr p) | None \<Rightarrow> [DropMeta host ''probe'']) c =
      c\<lparr>co_db := save_probe cd h a (co_db c)\<rparr>" if "t = an_later a" "host = hc_name h" for t host c
    using that
    by (auto simp: save_probe_def fold_save save_answer_def on_db_set split: option.splits sum.splits)
  show ?thesis
    by (simp add: visit_prog_def collect_one_def Let_def probe fold_save save_answers_def on_db_set
        note_failure_def note_success_def split: sum.splits)
qed

lemma fold_action:
  "fold (atom_do cd cfg) (action_prog cd oc h verb actor ip) c =
   action_end h (action_run cd cfg (oc_command oc) (oc_first oc) (oc_again oc) (oc_now oc) h verb actor ip c)"
  by (cases "verb = ''refresh''"; cases "oc_command oc verb")
    (simp_all add: action_prog_def action_run_def action_end_def Let_def fold_visit forget_host_def)

lemma fold_round:
  assumes "sched (due_hosts cfg now c) = due_hosts cfg now c"
  shows "fold (atom_do cd cfg)
      (concat (map (\<lambda>h. visit_prog cd (ans (hc_name h)) h) (due_hosts cfg now c)) @ close_prog False now) c =
    run_round sched cd cfg now ans c"
proof -
  have "fold (atom_do cd cfg) (concat (map (\<lambda>h. visit_prog cd (ans (hc_name h)) h) hs)) c =
      foldl (\<lambda>c h. collect_one cd cfg (ans (hc_name h)) h c) c hs" for hs c
    by (induction hs arbitrary: c) (simp_all add: fold_visit)
  then show ?thesis
    by (simp add: run_round_def collect_all_def assms close_prog_def on_db_set Let_def split: sum.splits)
qed

end
