(* ===== verification/Amarre_Rounds.thy ===== *)
theory Amarre_Rounds
  imports Amarre_Atoms
begin

text \<open>
  The hosts of a round are visited at the same time, each visit taking its statements one by one
  between those of the others. \<open>interleaved_round\<close> says that this is no different from visiting
  the hosts one after the other: whatever the interleaving, the collector's state is the one that
  \<open>collect_all\<close> reaches in some order, up to the order of the rows of the metadata table, which
  nobody reads but by their key.
\<close>

section \<open>What a visit touches\<close>

fun visiting :: "atom \<Rightarrow> bool" where
  "visiting (NoteFailure t n) \<longleftrightarrow> True"
| "visiting (NoteSuccess n) \<longleftrightarrow> True"
| "visiting (PutMeta t n k p) \<longleftrightarrow> True"
| "visiting (DropMeta n k) \<longleftrightarrow> True"
| "visiting (DropAnswers n) \<longleftrightarrow> True"
| "visiting (RecordCheck chk) \<longleftrightarrow> True"
| "visiting _ \<longleftrightarrow> False"

fun atom_host :: "atom \<Rightarrow> string" where
  "atom_host (NoteFailure t n) = n"
| "atom_host (NoteSuccess n) = n"
| "atom_host (PutMeta t n k p) = n"
| "atom_host (DropMeta n k) = n"
| "atom_host (DropAnswers n) = n"
| "atom_host (DropTrees n) = n"
| "atom_host (RecordCheck chk) = ck_host chk"
| "atom_host (Journal t a ip act n out) = n"
| "atom_host (FreeHost n) = n"
| "atom_host _ = ''''"

fun records :: "atom \<Rightarrow> bool" where
  "records (RecordCheck chk) \<longleftrightarrow> True"
| "records _ \<longleftrightarrow> False"

lemma save_prog_atoms: "a \<in> set (save_prog t n k enc r) \<Longrightarrow> \<exists>p. a = PutMeta t n k p"
  by (auto simp: save_prog_def split: sum.splits option.splits)

lemma visit_prog_atoms: "x \<in> set (visit_prog cd a h) \<Longrightarrow> visiting x \<and> atom_host x = hc_name h"
  by (auto simp: visit_prog_def Let_def failed_check_def reached_check_def dest!: save_prog_atoms
      split: sum.splits option.splits)

lemma save_prog_records: "filter records (save_prog t n k enc r) = []"
  by (auto simp: save_prog_def split: sum.splits option.splits)

lemma visit_prog_records: "filter records (visit_prog cd a h) = [RecordCheck (visit_check h a)]"
  by (auto simp: visit_prog_def Let_def visit_check_def save_prog_records split: sum.splits option.splits)

section \<open>Views of the collector\<close>

definition meta_at :: "string \<Rightarrow> string \<Rightarrow> db \<Rightarrow> meta_row option" where
  "meta_at n k d = find (\<lambda>r. me_host r = n \<and> me_kind r = k) (db_meta d)"

text \<open>All actions but those on the metadata, the checks and the engine leave these alone.\<close>

lemma snapshot_frame [simp]:
  "co_bo (record_health_snapshot cd cfg now c) = co_bo c"
  "co_cache (record_health_snapshot cd cfg now c) = co_cache c"
  "co_trees (record_health_snapshot cd cfg now c) = co_trees c"
  "co_running (record_health_snapshot cd cfg now c) = co_running c"
  by (simp_all add: record_health_snapshot_def split: sum.splits)

lemma snapshot_health: "\<exists>hs. co_db (record_health_snapshot cd cfg now c) = (co_db c)\<lparr>db_health := hs\<rparr>"
proof -
  let ?rec = "\<lambda>d s. case record_health (sa_name s) now (sante_state s) (sa_crit s) (sa_warn s) (summary s) d of
      Inl e \<Rightarrow> d | Inr d' \<Rightarrow> d'"
  have same: "\<exists>hs. d = d\<lparr>db_health := hs\<rparr>" for d :: db by (rule exI [of _ "db_health d"]) simp
  have step: "\<exists>hs. ?rec d s = d\<lparr>db_health := hs\<rparr>" for d s
    using same [of d] by (auto simp: record_health_def)
  have "\<exists>hs. foldl ?rec d ss = d\<lparr>db_health := hs\<rparr>" for d ss
  proof (induction ss rule: rev_induct)
    case (snoc s ss)
    then obtain hs where "foldl ?rec d ss = d\<lparr>db_health := hs\<rparr>" by blast
    with step [of "d\<lparr>db_health := hs\<rparr>" s] show ?case by auto
  qed (use same in auto)
  then show ?thesis using same by (auto simp: record_health_snapshot_def split: sum.splits)
qed

fun touches_bo :: "string \<Rightarrow> atom \<Rightarrow> bool" where
  "touches_bo n (NoteFailure t n') \<longleftrightarrow> n' = n"
| "touches_bo n (NoteSuccess n') \<longleftrightarrow> n' = n"
| "touches_bo n _ \<longleftrightarrow> False"

fun bo_effect :: "config \<Rightarrow> atom \<Rightarrow> backoff option \<Rightarrow> backoff option" where
  "bo_effect cfg (NoteFailure t n) b =
     (let fails = (case b of None \<Rightarrow> 0 | Some b \<Rightarrow> bk_fails b) + 1
      in Some \<lparr>bk_fails = fails, bk_next = t + failure_delay cfg fails\<rparr>)"
| "bo_effect cfg _ b = None"

interpretation bo: view "atom_do cd cfg" "\<lambda>c. co_bo c n" "touches_bo n" "bo_effect cfg" for cd cfg n
proof
  show "co_bo (atom_do cd cfg a c) n = bo_effect cfg a (co_bo c n)" if "touches_bo n a" for a c
    using that by (cases a) (simp_all add: note_failure_def note_success_def Let_def)
  show "co_bo (atom_do cd cfg a c) n = co_bo c n" if "\<not> touches_bo n a" for a c
    using that by (cases a) (auto simp: note_failure_def note_success_def Let_def)
qed

fun touches_meta :: "string \<Rightarrow> string \<Rightarrow> atom \<Rightarrow> bool" where
  "touches_meta n k (PutMeta t n' k' p) \<longleftrightarrow> n' = n \<and> k' = k"
| "touches_meta n k (DropMeta n' k') \<longleftrightarrow> n' = n \<and> k' = k"
| "touches_meta n k _ \<longleftrightarrow> False"

fun meta_effect :: "atom \<Rightarrow> meta_row option \<times> (stmt \<Rightarrow> bool) \<Rightarrow> meta_row option \<times> (stmt \<Rightarrow> bool)" where
  "meta_effect (PutMeta t n k p) (r, up) =
     (if up SPutMeta then r else Some \<lparr>me_host = n, me_kind = k, me_payload = p, me_fetched = unix_sec t\<rparr>, up)"
| "meta_effect (DropMeta n k) (r, up) = (if up SDeleteMeta then r else None, up)"
| "meta_effect _ v = v"

lemma atom_fails [simp]: "db_fails (co_db (atom_do cd cfg a c)) = db_fails (co_db c)"
proof (cases a)
  case (Snapshot now)
  obtain hs where "co_db (record_health_snapshot cd cfg now c) = (co_db c)\<lparr>db_health := hs\<rparr>"
    using snapshot_health by blast
  with Snapshot show ?thesis by simp
qed (simp_all add: on_db_db note_failure_def note_success_def put_meta_def delete_meta_def record_check_def audit_def
  purge_expired_sessions_def purge_health_history_def Let_def)

lemma atom_meta:
  "meta_at n k (co_db (atom_do cd cfg a c)) =
   (if touches_meta n k a then fst (meta_effect a (meta_at n k (co_db c), db_fails (co_db c))) else meta_at n k (co_db c))"
proof (cases a)
  case (Snapshot now)
  obtain hs where "co_db (record_health_snapshot cd cfg now c) = (co_db c)\<lparr>db_health := hs\<rparr>"
    using snapshot_health by blast
  with Snapshot show ?thesis by (simp add: meta_at_def)
next
  case (PutMeta t n' k' p)
  let ?hit = "\<lambda>r. me_host r = n' \<and> me_kind r = k'"
  let ?new = "\<lparr>me_host = n', me_kind = k', me_payload = p, me_fetched = unix_sec t\<rparr>"
  let ?upd = "\<lambda>r. r\<lparr>me_payload := p, me_fetched := unix_sec t\<rparr>"
  have new: "?upd r = ?new" if "?hit r" for r using that by (cases r) simp
  have same: "find ?hit (upsert ?hit ?upd ?new rows) = Some ?new" for rows
  proof (cases "find ?hit rows")
    case (Some r)
    then have "?hit r" by (simp add: find_Some_iff) blast
    with Some upsert_find_same [of ?hit ?new ?upd rows] new [of r] show ?thesis by simp
  qed (use upsert_find_same [of ?hit ?new ?upd rows] in simp)
  have other: "find (\<lambda>r. me_host r = n \<and> me_kind r = k) (upsert ?hit ?upd ?new rows) =
      find (\<lambda>r. me_host r = n \<and> me_kind r = k) rows" if "\<not> (n' = n \<and> k' = k)" for rows
    using that by (intro upsert_find_other) auto
  show ?thesis
  proof (cases "n' = n \<and> k' = k")
    case True
    with same [of "db_meta (co_db c)"] show ?thesis by (simp add: PutMeta on_db_db put_meta_def meta_at_def)
  next
    case False
    with other [of "db_meta (co_db c)"] show ?thesis by (auto simp: PutMeta on_db_db put_meta_def meta_at_def)
  qed
next
  case (DropMeta n' k')
  have "find (\<lambda>r. me_host r = n \<and> me_kind r = k) (filter (\<lambda>r. \<not> (me_host r = n' \<and> me_kind r = k')) rows) =
      (if n' = n \<and> k' = k then None else find (\<lambda>r. me_host r = n \<and> me_kind r = k) rows)" for rows
    by (induction rows) auto
  then show ?thesis by (auto simp: DropMeta on_db_db delete_meta_def meta_at_def)
qed (simp_all add: on_db_db note_failure_def note_success_def record_check_def audit_def meta_at_def
  purge_expired_sessions_def purge_health_history_def Let_def)

interpretation meta_row: view "atom_do cd cfg" "\<lambda>c. (meta_at n k (co_db c), db_fails (co_db c))" "touches_meta n k"
  meta_effect for cd cfg n k
proof
  have "snd (meta_effect a v) = snd v" for a v by (cases a; cases v) simp_all
  then show "(meta_at n k (co_db (atom_do cd cfg a c)), db_fails (co_db (atom_do cd cfg a c))) =
      meta_effect a (meta_at n k (co_db c), db_fails (co_db c))" if "touches_meta n k a" for a c
    using that by (simp add: prod_eq_iff atom_meta)
qed (simp add: atom_meta)

fun record_effect :: "atom \<Rightarrow> check_row list \<times> (stmt \<Rightarrow> bool) \<Rightarrow> check_row list \<times> (stmt \<Rightarrow> bool)" where
  "record_effect (RecordCheck chk) (rows, up) =
     (if up SInsertCheck then rows else rows @ [check_row_of (next_id (map cr_id rows)) chk], up)"
| "record_effect _ v = v"

lemma atom_checks: "\<not> records a \<Longrightarrow> db_checks (co_db (atom_do cd cfg a c)) = db_checks (co_db c)"
proof (cases a)
  case (Snapshot now)
  obtain hs where "co_db (record_health_snapshot cd cfg now c) = (co_db c)\<lparr>db_health := hs\<rparr>"
    using snapshot_health by blast
  with Snapshot show ?thesis by simp
qed (simp_all add: on_db_db note_failure_def note_success_def put_meta_def delete_meta_def audit_def
  purge_expired_sessions_def purge_health_history_def Let_def)

interpretation check_rows: view "atom_do cd cfg" "\<lambda>c. (db_checks (co_db c), db_fails (co_db c))" records record_effect
  for cd cfg
proof
  show "(db_checks (co_db (atom_do cd cfg a c)), db_fails (co_db (atom_do cd cfg a c))) =
      record_effect a (db_checks (co_db c), db_fails (co_db c))" if "records a" for a c
    using that by (cases a) (simp_all add: on_db_db record_check_def)
qed (simp add: atom_checks)

fun drops :: "atom \<Rightarrow> bool" where
  "drops (DropAnswers n) \<longleftrightarrow> True"
| "drops _ \<longleftrightarrow> False"

fun drop_effect :: "atom \<Rightarrow> 'v cache \<Rightarrow> 'v cache" where
  "drop_effect (DropAnswers n) = cache_invalidate n"
| "drop_effect _ = id"

interpretation answers_kept: view "atom_do cd cfg" co_cache drops drop_effect for cd cfg
proof
  show "co_cache (atom_do cd cfg a c) = drop_effect a (co_cache c)" if "drops a" for a c
    using that by (cases a) simp_all
  show "co_cache (atom_do cd cfg a c) = co_cache c" if "\<not> drops a" for a c
    using that by (cases a) (simp_all add: note_failure_def note_success_def Let_def)
qed

lemma drops_commute: "drop_effect a \<circ> drop_effect b = drop_effect b \<circ> drop_effect a"
  by (cases a; cases b) (auto simp: fun_eq_iff cache_invalidate_def conj_commute split_beta)

text \<open>The visits leave the rest alone.\<close>

definition rest_of :: "collector \<Rightarrow> tree_store \<times> (string \<rightharpoonup> string) \<times> db" where
  "rest_of c = (co_trees c, co_running c, (co_db c)\<lparr>db_checks := [], db_meta := []\<rparr>)"

lemma atom_rest: "visiting a \<Longrightarrow> rest_of (atom_do cd cfg a c) = rest_of c"
  by (cases a) (simp_all add: rest_of_def on_db_db note_failure_def note_success_def put_meta_def delete_meta_def
      record_check_def Let_def)

lemma run_rest: "(\<And>a. a \<in> set tr \<Longrightarrow> visiting a) \<Longrightarrow> rest_of (fold (atom_do cd cfg) tr c) = rest_of c"
  by (induction tr arbitrary: c) (simp_all add: atom_rest)

section \<open>The same but for the order of the metadata\<close>

definition same_data :: "db \<Rightarrow> db \<Rightarrow> bool" where
  "same_data d d' \<longleftrightarrow> d\<lparr>db_meta := []\<rparr> = d'\<lparr>db_meta := []\<rparr> \<and> (\<forall>n k. meta_at n k d = meta_at n k d')"

definition alike :: "collector \<Rightarrow> collector \<Rightarrow> bool" where
  "alike c c' \<longleftrightarrow> co_bo c = co_bo c' \<and> co_cache c = co_cache c' \<and> co_trees c = co_trees c' \<and>
     co_running c = co_running c' \<and> same_data (co_db c) (co_db c')"

lemma same_dataI:
  "d\<lparr>db_checks := [], db_meta := []\<rparr> = d'\<lparr>db_checks := [], db_meta := []\<rparr> \<Longrightarrow> db_checks d = db_checks d' \<Longrightarrow>
   (\<And>n k. meta_at n k d = meta_at n k d') \<Longrightarrow> same_data d d'"
  by (cases d; cases d') (simp add: same_data_def)

text \<open>No page can tell.\<close>

lemma get_meta_at: "get_meta n k d =
    (if db_fails d SGetMeta then Inl ErrEngine
     else (case meta_at n k d of None \<Rightarrow> Inl ErrNoMeta | Some r \<Rightarrow> Inr (me_payload r, of_unix (me_fetched r))))"
  by (simp add: get_meta_def meta_at_def)

lemma same_data_fields:
  assumes "same_data d d'"
  shows "db_checks d = db_checks d'" "db_fails d = db_fails d'" "db_users d = db_users d'"
    "db_sessions d = db_sessions d'" "db_health d = db_health d'" "db_audit d = db_audit d'" "db_fk d = db_fk d'"
    "get_meta n k d = get_meta n k d'"
proof -
  have blank: "d\<lparr>db_meta := []\<rparr> = d'\<lparr>db_meta := []\<rparr>" using assms by (simp add: same_data_def)
  from arg_cong [OF blank, of db_checks] show "db_checks d = db_checks d'" by simp
  from arg_cong [OF blank, of db_fails] show fails: "db_fails d = db_fails d'" by simp
  from arg_cong [OF blank, of db_users] show "db_users d = db_users d'" by simp
  from arg_cong [OF blank, of db_sessions] show "db_sessions d = db_sessions d'" by simp
  from arg_cong [OF blank, of db_health] show "db_health d = db_health d'" by simp
  from arg_cong [OF blank, of db_audit] show "db_audit d = db_audit d'" by simp
  from arg_cong [OF blank, of db_fk] show "db_fk d = db_fk d'" by simp
  show "get_meta n k d = get_meta n k d'" using assms by (simp add: get_meta_at fails same_data_def)
qed

lemma alike_pages:
  assumes "alike c c'"
  shows "fleet_view now cfg (co_db c) = fleet_view now cfg (co_db c')"
    and "host_detail cd now cfg name c = host_detail cd now cfg name c'"
    and "sante_fleet unh unp now cfg (co_db c) = sante_fleet unh unp now cfg (co_db c')"
proof -
  have same: "same_data (co_db c) (co_db c')" using assms by (simp add: alike_def)
  note fields = same_data_fields [OF this]
  show fleet: "fleet_view now cfg (co_db c) = fleet_view now cfg (co_db c')" for now cfg
    by (simp add: fleet_view_def checks_by_host_def latest_checks_def fields)
  have load: "load_meta un h k (co_db c) = load_meta un h k (co_db c')"
    "load_list ul h k (co_db c) = load_list ul h k (co_db c')" for un ul h k
    by (simp_all add: load_meta_def load_list_def fields)
  have history: "history h m (co_db c) = history h m (co_db c')" for h m by (simp add: history_def fields)
  show "host_detail cd now cfg name c = host_detail cd now cfg name c'"
    by (cases "find_host cfg name") (simp_all add: host_detail_def Let_def fleet load history fields(8))
  show "sante_fleet unh unp now cfg (co_db c) = sante_fleet unh unp now cfg (co_db c')"
    by (cases "fleet_view now cfg (co_db c')") (simp_all add: sante_fleet_def fleet load)
qed

section \<open>Visits that interleave\<close>

text \<open>The order in which the checks of the visits are recorded.\<close>

definition recorded_in :: "codec \<Rightarrow> (string \<Rightarrow> answers) \<Rightarrow> host_config list \<Rightarrow> atom list \<Rightarrow> bool" where
  "recorded_in cd ans hs tr \<longleftrightarrow>
     filter records tr = map (\<lambda>h. RecordCheck (visit_check h (ans (hc_name h)))) hs"

lemma interleaved_visits:
  assumes "interleaves (map (\<lambda>h. visit_prog cd (ans (hc_name h)) h) hs) tr" and "distinct (map hc_name hs)"
    and "mset hs' = mset hs" and "recorded_in cd ans hs' tr"
  shows "alike (foldl (\<lambda>c h. collect_one cd cfg (ans (hc_name h)) h c) c hs') (fold (atom_do cd cfg) tr c)"
proof -
  let ?prog = "\<lambda>h. visit_prog cd (ans (hc_name h)) h"
  let ?serial = "concat (map ?prog hs')" and ?do = "atom_do cd cfg"
  have serial: "foldl (\<lambda>c h. collect_one cd cfg (ans (hc_name h)) h c) c hs' = fold ?do ?serial c" for c
    by (induction hs' arbitrary: c) (simp_all add: fold_visit)
  have same_hosts: "mset tr = mset ?serial"
    using interleaves_mset [OF assms(1)] mset_concat_map [OF assms(3), of ?prog] by simp
  then have "set tr = set ?serial" by (rule mset_eq_setD)
  then have visits: "visiting a" if "a \<in> set tr \<or> a \<in> set ?serial" for a
    using that visit_prog_atoms by fastforce
  have dist': "distinct (map hc_name hs')"
    using assms(2,3) by (metis mset_eq_imp_distinct_iff mset_map)
  have per_host: "filter (\<lambda>a. atom_host a = n) ?serial = filter (\<lambda>a. atom_host a = n) tr" for n
    using interleaves_key [OF assms(1,2), of atom_host n] visit_prog_atoms
      interleaves_key [OF interleaves_concat dist', of ?prog atom_host n]
      filter_same_key [OF assms(2,3), of n] by simp
  have part: "filter P ?serial = filter P tr" if "\<And>a. P a \<Longrightarrow> visiting a \<Longrightarrow> atom_host a = n" for P n
  proof -
    have "filter P xs = filter P (filter (\<lambda>a. atom_host a = n) xs)" if "\<And>a. a \<in> set xs \<Longrightarrow> visiting a" for xs
      using that \<open>\<And>a. P a \<Longrightarrow> visiting a \<Longrightarrow> atom_host a = n\<close> by (induction xs) auto
    from this [of ?serial] this [of tr] show ?thesis using visits per_host [of n] by simp
  qed
  have "co_bo (fold ?do ?serial c) n = co_bo (fold ?do tr c) n" for n
  proof (rule bo.same_view [OF part refl])
    show "atom_host a = n" if "touches_bo n a" for a using that by (cases a) auto
  qed
  moreover have "(meta_at n k (co_db (fold ?do ?serial c)), db_fails (co_db (fold ?do ?serial c))) =
      (meta_at n k (co_db (fold ?do tr c)), db_fails (co_db (fold ?do tr c)))" for n k
  proof (rule meta_row.same_view [OF part refl])
    show "atom_host a = n" if "touches_meta n k a" for a using that by (cases a) auto
  qed
  moreover have "filter records ?serial = filter records tr"
    using assms(4) by (simp add: recorded_in_def filter_concat comp_def visit_prog_records concat_map_singleton)
  then have "db_checks (co_db (fold ?do ?serial c)) = db_checks (co_db (fold ?do tr c))"
    using check_rows.same_view [of ?serial tr c c cd cfg] by simp
  moreover have "co_cache (fold ?do ?serial c) = co_cache (fold ?do tr c)"
    by (rule answers_kept.same_view_mset [OF drops_commute same_hosts [symmetric] refl])
  moreover have "rest_of (fold ?do ?serial c) = rest_of (fold ?do tr c)"
    using visits run_rest [of ?serial cd cfg c] run_rest [of tr cd cfg c] by simp
  ultimately show ?thesis
    unfolding serial alike_def rest_of_def by (auto simp: fun_eq_iff intro!: same_dataI)
qed

text \<open>
  However the statements of the visits interleave, some order of \<open>collect_all\<close> is like it.
\<close>

lemma interleaved_round:
  assumes "config_ok cfg"
    and "interleaves (map (\<lambda>h. visit_prog cd (ans (hc_name h)) h) (due_hosts cfg now c)) tr"
  shows "\<exists>sched. (\<forall>hs. mset (sched hs) = mset hs) \<and>
    alike (collect_all sched cd cfg now ans c) (fold (atom_do cd cfg) tr c) \<and>
    fleet_view t cfg (co_db (collect_all sched cd cfg now ans c)) = fleet_view t cfg (co_db (fold (atom_do cd cfg) tr c)) \<and>
    host_detail cd t cfg name (collect_all sched cd cfg now ans c) =
      host_detail cd t cfg name (fold (atom_do cd cfg) tr c) \<and>
    sante_fleet (dec_health cd) (dec_probe cd) t cfg (co_db (collect_all sched cd cfg now ans c)) =
      sante_fleet (dec_health cd) (dec_probe cd) t cfg (co_db (fold (atom_do cd cfg) tr c))"
proof -
  let ?hs = "due_hosts cfg now c" and ?rec = "\<lambda>h. RecordCheck (visit_check h (ans (hc_name h)))"
  have dist: "distinct (map hc_name ?hs)"
    using assms(1) by (simp add: config_ok_def due_hosts_def distinct_map_filterI)
  have "mset (filter records tr) = mset (filter records (concat (map (\<lambda>h. visit_prog cd (ans (hc_name h)) h) ?hs)))"
    using interleaves_mset [OF assms(2)] by simp
  also have "\<dots> = mset (map ?rec ?hs)"
    by (simp add: filter_concat comp_def visit_prog_records concat_map_singleton)
  finally obtain hs' where hs': "filter records tr = map ?rec hs'" "mset hs' = mset ?hs"
    using reordered_images by blast
  let ?sched = "\<lambda>hs. if hs = ?hs then hs' else hs"
  have alike: "alike (collect_all ?sched cd cfg now ans c) (fold (atom_do cd cfg) tr c)"
    unfolding collect_all_def using interleaved_visits [OF assms(2) dist hs'(2)] hs'(1)
    by (simp add: recorded_in_def)
  show ?thesis
    by (intro exI [of _ ?sched] conjI alike alike_pages [OF alike]) (simp add: hs'(2))
qed

text \<open>A configuration of two hosts.\<close>

definition demo_pair :: config where
  "demo_pair = demo_config\<lparr>cfg_hosts := [demo_site, demo_site\<lparr>hc_name := ''db''\<rparr>]\<rparr>"

end
