(* ===== verification/Amarre_Console.thy ===== *)
theory Amarre_Console
  imports Amarre_Runs Amarre_Web_Runs Amarre_Rounds
begin

text \<open>
  The running console: requests, the rounds of the collector and the operations the operators
  started, on one server state. A goroutine is a thread with the statements it has left
  (\<open>Amarre_Atoms\<close>): the visit of a host in a round, the body of an operation, the end of a round.
  A request is one event; everything else takes its statements one at a time, in any order, so
  that requests and other goroutines come between any two statements of a visit or an operation.
\<close>

section \<open>State and events\<close>

record job =
  jb_host :: host_config
  jb_verb :: string
  jb_actor :: string
  jb_ip :: string

datatype duty = Operation job outcome | Visit host_config | Wrapping

text \<open>A visit has to enter one of the four places of \<open>limit\<close> before its first statement.\<close>

record thread =
  th_duty :: duty
  th_in :: bool
  th_prog :: "atom list"

text \<open>The loop of \<open>Run\<close>: between rounds, starting the visits of the hosts left, at the end of a round.\<close>

datatype round_state = Resting | Launching "host_config list" | Closing

record site =
  si_server :: server
  si_threads :: "thread list"
  si_round :: round_state
  si_begun :: nat

definition new_console :: "db \<Rightarrow> site" where
  "new_console d =
     \<lparr>si_server = new_server (new_collector d), si_threads = [], si_round = Resting, si_begun = 0\<rparr>"

datatype console_event =
    Request env request outcome
  | Tick
  | Launch time answers
  | Enter nat
  | Move nat
  | Wrap time
  | Rest

definition admitted :: "env \<Rightarrow> config \<Rightarrow> request \<Rightarrow> bool" where
  "admitted ev cfg r \<longleftrightarrow> (case remote_addr ev r of None \<Rightarrow> False | Some a \<Rightarrow> ip_allowed cfg a)"

text \<open>The goroutine a request starts, if it is an operation that is accepted.\<close>

definition job_of :: "env \<Rightarrow> config \<Rightarrow> request \<Rightarrow> server \<Rightarrow> job option" where
  "job_of ev cfg r s =
     (case (route_of (rq_method r) (rq_path r), handler_user ev r s) of
        (PostAction name, Some (u, _)) \<Rightarrow>
          if admitted ev cfg r \<and> current_user ev r s \<noteq> None \<and> rq_form_ok r \<and> check_csrf r s
          then (case action_begin (ev_now ev) cfg name (rq_form r ''verb'') (usr_name u) (remote_ip ev r) (sv_col s) of
                  Inl e \<Rightarrow> None
                | Inr (h, c) \<Rightarrow>
                    Some \<lparr>jb_host = h, jb_verb = rq_form r ''verb'', jb_actor = usr_name u, jb_ip = remote_ip ev r\<rparr>)
          else None
      | _ \<Rightarrow> None)"

definition operation_thread :: "codec \<Rightarrow> outcome \<Rightarrow> job \<Rightarrow> thread" where
  "operation_thread cd oc j =
     \<lparr>th_duty = Operation j oc, th_in = True,
      th_prog = action_prog cd oc (jb_host j) (jb_verb j) (jb_actor j) (jb_ip j)\<rparr>"

definition visit_thread :: "codec \<Rightarrow> answers \<Rightarrow> host_config \<Rightarrow> thread" where
  "visit_thread cd a h = \<lparr>th_duty = Visit h, th_in = False, th_prog = visit_prog cd a h\<rparr>"

definition closing_thread :: "bool \<Rightarrow> time \<Rightarrow> thread" where
  "closing_thread first now = \<lparr>th_duty = Wrapping, th_in = True, th_prog = close_prog first now\<rparr>"

definition is_operation :: "thread \<Rightarrow> bool" where
  "is_operation t \<longleftrightarrow> (case th_duty t of Operation j oc \<Rightarrow> True | _ \<Rightarrow> False)"

definition is_visit :: "thread \<Rightarrow> bool" where
  "is_visit t \<longleftrightarrow> (case th_duty t of Visit h \<Rightarrow> True | _ \<Rightarrow> False)"

definition visits_inside :: "thread list \<Rightarrow> nat" where
  "visits_inside ts = length (filter (\<lambda>t. is_visit t \<and> th_in t \<and> th_prog t \<noteq> []) ts)"

definition on_col :: "(collector \<Rightarrow> collector) \<Rightarrow> site \<Rightarrow> site" where
  "on_col f c = c\<lparr>si_server := (si_server c)\<lparr>sv_col := f (sv_col (si_server c))\<rparr>\<rparr>"

fun console_step :: "codec \<Rightarrow> config \<Rightarrow> console_event \<Rightarrow> site \<Rightarrow> site" where
  "console_step cd cfg (Request ev r oc) c =
     c\<lparr>si_server := snd (handle ev cfg r (si_server c)),
       si_threads := si_threads c @
         (case job_of ev cfg r (si_server c) of None \<Rightarrow> [] | Some j \<Rightarrow> [operation_thread cd oc j])\<rparr>"
| "console_step cd cfg Tick c =
     (if si_round c = Resting then c\<lparr>si_round := Launching (cfg_hosts cfg), si_begun := Suc (si_begun c)\<rparr> else c)"
| "console_step cd cfg (Launch now a) c =
     (case si_round c of
        Launching (h # hs) \<Rightarrow>
          c\<lparr>si_round := Launching hs,
            si_threads := si_threads c @
              (if \<not> hc_disabled h \<and> due now (hc_name h) (sv_col (si_server c)) then [visit_thread cd a h] else [])\<rparr>
      | _ \<Rightarrow> c)"
| "console_step cd cfg (Enter i) c =
     (if i < length (si_threads c) \<and> is_visit (si_threads c ! i) \<and> \<not> th_in (si_threads c ! i) \<and>
        visits_inside (si_threads c) < 4
      then c\<lparr>si_threads := (si_threads c)[i := (si_threads c ! i)\<lparr>th_in := True\<rparr>]\<rparr> else c)"
| "console_step cd cfg (Move i) c =
     (if i < length (si_threads c) \<and> th_in (si_threads c ! i)
      then (case th_prog (si_threads c ! i) of
              [] \<Rightarrow> c
            | a # p \<Rightarrow>
                (on_col (atom_do cd cfg a) c)
                  \<lparr>si_threads := (si_threads c)[i := (si_threads c ! i)\<lparr>th_prog := p\<rparr>]\<rparr>)
      else c)"
| "console_step cd cfg (Wrap now) c =
     (if si_round c = Launching [] \<and> (\<forall>t\<in>set (si_threads c). is_visit t \<longrightarrow> th_prog t = [])
      then c\<lparr>si_round := Closing, si_threads := si_threads c @ [closing_thread (si_begun c = 1) now]\<rparr> else c)"
| "console_step cd cfg Rest c =
     (if si_round c = Closing \<and> (\<forall>t\<in>set (si_threads c). th_duty t = Wrapping \<longrightarrow> th_prog t = [])
      then c\<lparr>si_round := Resting\<rparr> else c)"

definition console_run :: "codec \<Rightarrow> config \<Rightarrow> console_event list \<Rightarrow> site \<Rightarrow> site" where
  "console_run cd cfg es c = fold (console_step cd cfg) es c"

abbreviation si_db :: "site \<Rightarrow> db" where
  "si_db c \<equiv> sv_db (si_server c)"

abbreviation si_col :: "site \<Rightarrow> collector" where
  "si_col c \<equiv> sv_col (si_server c)"

section \<open>The events on threads\<close>

text \<open>The cases of the events that depend on the threads: nothing happens, or what the code does.\<close>

lemma move_cases [consumes 0, case_names idle acts]:
  obtains "console_step cd cfg (Move i) c = c"
  | a p where "i < length (si_threads c)" "th_in (si_threads c ! i)" "th_prog (si_threads c ! i) = a # p"
      "console_step cd cfg (Move i) c = (on_col (atom_do cd cfg a) c)
         \<lparr>si_threads := (si_threads c)[i := (si_threads c ! i)\<lparr>th_prog := p\<rparr>]\<rparr>"
  by (cases "i < length (si_threads c) \<and> th_in (si_threads c ! i)"; cases "th_prog (si_threads c ! i)") auto

lemma enter_cases [consumes 0, case_names idle enters]:
  obtains "console_step cd cfg (Enter i) c = c"
  | "i < length (si_threads c)" "is_visit (si_threads c ! i)" "\<not> th_in (si_threads c ! i)"
      "visits_inside (si_threads c) < 4"
      "console_step cd cfg (Enter i) c = c\<lparr>si_threads := (si_threads c)[i := (si_threads c ! i)\<lparr>th_in := True\<rparr>]\<rparr>"
  by (cases "i < length (si_threads c) \<and> is_visit (si_threads c ! i) \<and> \<not> th_in (si_threads c ! i) \<and>
      visits_inside (si_threads c) < 4") auto

lemma launch_cases [consumes 0, case_names idle skips launches]:
  obtains "console_step cd cfg (Launch now a) c = c"
  | h hs where "si_round c = Launching (h # hs)" "hc_disabled h \<or> \<not> due now (hc_name h) (si_col c)"
      "console_step cd cfg (Launch now a) c = c\<lparr>si_round := Launching hs\<rparr>"
  | h hs where "si_round c = Launching (h # hs)" "\<not> hc_disabled h" "due now (hc_name h) (si_col c)"
      "console_step cd cfg (Launch now a) c =
         c\<lparr>si_round := Launching hs, si_threads := si_threads c @ [visit_thread cd a h]\<rparr>"
  by (cases "si_round c"; cases "case si_round c of Launching hs \<Rightarrow> hs | _ \<Rightarrow> []")
    (auto split: if_splits)

section \<open>The statements that are left\<close>

definition pending :: "thread list \<Rightarrow> atom set" where
  "pending ts = (\<Union>t\<in>set ts. set (th_prog t))"

lemma pending_append [simp]: "pending (ts @ us) = pending ts \<union> pending us"
  by (simp add: pending_def)

lemma pending_simps [simp]: "pending [] = {}" "pending (t # ts) = set (th_prog t) \<union> pending ts"
  by (simp_all add: pending_def)

lemma pending_nth: "i < length ts \<Longrightarrow> set (th_prog (ts ! i)) \<subseteq> pending ts"
  unfolding pending_def using nth_mem [of i ts] by blast

lemma pending_put: "pending (ts[i := t]) \<subseteq> pending ts \<union> set (th_prog t)"
  using set_update_subset_insert [of ts i t] by (auto simp: pending_def)

text \<open>The statements an event may add.\<close>

fun fresh :: "codec \<Rightarrow> console_event \<Rightarrow> atom set" where
  "fresh cd (Request ev r oc) = (\<Union>j. set (th_prog (operation_thread cd oc j)))"
| "fresh cd (Launch now a) = (\<Union>h. set (th_prog (visit_thread cd a h)))"
| "fresh cd (Wrap now) = {Snapshot now, PurgeSessions now, PurgeHealth now}"
| "fresh cd _ = {}"

lemma pending_step: "pending (si_threads (console_step cd cfg e c)) \<subseteq> pending (si_threads c) \<union> fresh cd e"
proof (cases e)
  case (Enter i)
  show ?thesis
    unfolding Enter
  proof (cases cd cfg i c rule: enter_cases)
    case enters
    then show "pending (si_threads (console_step cd cfg (Enter i) c)) \<subseteq> pending (si_threads c) \<union> fresh cd (Enter i)"
      using pending_put [of "si_threads c" i "(si_threads c ! i)\<lparr>th_in := True\<rparr>"]
        pending_nth [of i "si_threads c"] by auto
  qed simp
next
  case (Move i)
  show ?thesis
    unfolding Move
  proof (cases cd cfg i c rule: move_cases)
    case (acts a p)
    then show "pending (si_threads (console_step cd cfg (Move i) c)) \<subseteq> pending (si_threads c) \<union> fresh cd (Move i)"
      using pending_put [of "si_threads c" i "(si_threads c ! i)\<lparr>th_prog := p\<rparr>"]
        pending_nth [of i "si_threads c"] by auto
  qed simp
next
  case (Launch now a)
  show ?thesis unfolding Launch by (cases cd cfg now a c rule: launch_cases) auto
qed (auto simp: closing_thread_def close_prog_def split: option.splits)

section \<open>What no event does\<close>

text \<open>
  The accounts and the engine's moods are not the console's to change, the tables stay well
  formed, and journal entries and checks are only added.
\<close>

definition steady :: "db \<Rightarrow> db \<Rightarrow> bool" where
  "steady d d' \<longleftrightarrow> db_users d' = db_users d \<and> db_fails d' = db_fails d \<and>
     (store_inv d \<longrightarrow> store_inv d') \<and> prefix (db_audit d) (db_audit d') \<and> prefix (db_checks d) (db_checks d')"

lemma steady_refl [simp, intro]: "steady d d"
  by (simp add: steady_def)

lemma steady_trans: "steady d d' \<Longrightarrow> steady d' d'' \<Longrightarrow> steady d d''"
  by (auto simp: steady_def)

lemma steadyI:
  "db_users d' = db_users d \<Longrightarrow> db_fails d' = db_fails d \<Longrightarrow> db_audit d' = db_audit d \<Longrightarrow>
   prefix (db_checks d) (db_checks d') \<Longrightarrow> (store_inv d \<Longrightarrow> store_inv d') \<Longrightarrow> steady d d'"
  by (simp add: steady_def)

lemma steady_session:
  "create_session t tok uid ip c ttl d = Inr d' \<Longrightarrow> steady d d'"
  "set_session_csrf tok c d = Inr d' \<Longrightarrow> steady d d'"
  "delete_session tok d = Inr d' \<Longrightarrow> steady d d'"
  "purge_expired_sessions now d = Inr d' \<Longrightarrow> steady d d'"
  by (rule steadyI; (erule (1) create_session_inv set_session_csrf_inv delete_session_inv purge_sessions_inv)?;
      auto simp: create_session_def set_session_csrf_def delete_session_def purge_expired_sessions_def
        split: if_splits)+

lemma steady_record:
  "record_check chk d = Inr d' \<Longrightarrow> steady d d'"
  "record_health h t st cr w sm d = Inr d' \<Longrightarrow> steady d d'"
  "purge_health_history now keep d = Inr d' \<Longrightarrow> steady d d'"
  by (rule steadyI; (erule (1) record_check_inv record_health_inv purge_health_inv)?;
      auto simp: record_check_def record_health_def purge_health_history_def split: if_splits)+

lemma steady_audit [simp]: "steady d d' \<Longrightarrow> steady d (audit now a ip act t out d')"
proof (erule steady_trans)
  show "steady d' (audit now a ip act t out d')"
    unfolding steady_def using audit_inv [of d' now a ip act t out] by (auto simp: audit_def)
qed

lemma steady_meta: "meta_only d d' \<Longrightarrow> steady d d'"
  by (auto simp: meta_only_def intro!: steadyI)

text \<open>
  What the goroutines do keeps the sessions too, but for the purge.
\<close>

definition sessions_kept :: "db \<Rightarrow> db \<Rightarrow> bool" where
  "sessions_kept d d' \<longleftrightarrow> steady d d' \<and> db_sessions d' = db_sessions d"

lemma sessions_kept_refl [simp, intro]: "sessions_kept d d"
  by (simp add: sessions_kept_def)

lemma sessions_kept_trans: "sessions_kept d d' \<Longrightarrow> sessions_kept d' d'' \<Longrightarrow> sessions_kept d d''"
  unfolding sessions_kept_def using steady_trans by auto

lemma kept_check: "record_check chk d = Inr d' \<Longrightarrow> sessions_kept d d'"
  by (auto simp: sessions_kept_def steady_record record_check_def split: if_splits) 

lemma kept_meta: "meta_only d d' \<Longrightarrow> sessions_kept d d'"
  using steady_meta by (auto simp: sessions_kept_def meta_only_def)

lemma kept_health: "sessions_kept (co_db c) (co_db (record_health_snapshot cd cfg now c))"
proof -
  let ?rec = "\<lambda>d s. case record_health (sa_name s) now (sante_state s) (sa_crit s) (sa_warn s) (summary s) d of
      Inl e \<Rightarrow> d | Inr d' \<Rightarrow> d'"
  have step: "sessions_kept d (?rec d s)" for d s
    using steady_record(2) by (auto simp: sessions_kept_def split: sum.splits)
      (auto simp: record_health_def split: if_splits)
  have "sessions_kept d (foldl ?rec d ss)" for d ss
    by (induction ss rule: rev_induct) (use step sessions_kept_trans in auto)
  then show ?thesis by (simp add: record_health_snapshot_def split: sum.splits)
qed

lemma kept_on_db:
  "(\<And>d'. f (co_db c) = Inr d' \<Longrightarrow> sessions_kept (co_db c) d') \<Longrightarrow> sessions_kept (co_db c) (co_db (on_db f c))"
  by (auto simp: on_db_db split: sum.splits)

lemma kept_put: "put_meta now h k p d = Inr d' \<Longrightarrow> sessions_kept d d'"
  using meta_only_save [of d now h k "Some p"] by (auto simp: save_meta_def intro: kept_meta)

lemma kept_purge_health: "purge_health_history now keep d = Inr d' \<Longrightarrow> sessions_kept d d'"
  using steady_record(3) [of now keep d d']
  by (auto simp: sessions_kept_def purge_health_history_def split: if_splits)

fun purges_sessions :: "atom \<Rightarrow> time option" where
  "purges_sessions (PurgeSessions t) = Some t"
| "purges_sessions _ = None"

lemma atom_kept: "purges_sessions a = None \<Longrightarrow> sessions_kept (co_db c) (co_db (atom_do cd cfg a c))"
proof (cases a)
  case (Journal now actor ip verb host outcome)
  then show ?thesis by (simp add: sessions_kept_def)
next
  case (Snapshot now)
  then show ?thesis by (simp add: kept_health)
qed (auto simp: note_failure_def note_success_def Let_def
  intro!: kept_on_db intro: kept_put kept_check kept_purge_health kept_meta [OF meta_only_delete])

text \<open>Nobody who asks at a time \<open>T\<close> or later can tell the difference.\<close>

definition unnoticed :: "time \<Rightarrow> db \<Rightarrow> db \<Rightarrow> bool" where
  "unnoticed T d d' \<longleftrightarrow> steady d d' \<and>
     (\<forall>now tok ip. T \<le> now \<longrightarrow> session_user now tok ip d' = session_user now tok ip d)"

lemma unnoticed_refl [simp, intro]: "unnoticed T d d"
  by (simp add: unnoticed_def)

lemma unnoticed_trans: "unnoticed T d d' \<Longrightarrow> unnoticed T d' d'' \<Longrightarrow> unnoticed T d d''"
  unfolding unnoticed_def using steady_trans by auto

lemma unnoticed_kept: "sessions_kept d d' \<Longrightarrow> unnoticed T d d'"
  by (simp add: unnoticed_def sessions_kept_def steady_def session_user_def session_rows_def)

lemma unnoticed_purge: "purge_expired_sessions now d = Inr d' \<Longrightarrow> now \<le> T \<Longrightarrow> unnoticed T d d'"
  using sessions.find_purged [of now d d'] by (simp add: unnoticed_def steady_session)

lemma unnoticed_csrf: "set_session_csrf tok' c d = Inr d' \<Longrightarrow> unnoticed T d d'"
  using session_user_csrf steady_session(2) by (simp add: unnoticed_def)

lemma unnoticed_audit [simp]: "unnoticed T d d' \<Longrightarrow> unnoticed T d (audit now a ip act t out d')"
  by (simp add: unnoticed_def)

lemma unnoticed_log [simp]: "unnoticed T d (sv_db s) \<Longrightarrow> unnoticed T d (sv_db (log_audit ev a ip act t out s))"
  by (simp add: log_audit_def)

lemma atom_unnoticed:
  assumes "\<And>t. purges_sessions a = Some t \<Longrightarrow> t \<le> T"
  shows "unnoticed T (co_db c) (co_db (atom_do cd cfg a c))"
proof (cases "purges_sessions a")
  case None
  then show ?thesis by (blast intro: unnoticed_kept atom_kept)
next
  case (Some t)
  then have "a = PurgeSessions t" by (cases a) auto
  with assms Some show ?thesis by (auto simp: on_db_db intro: unnoticed_purge split: sum.splits)
qed

lemma atom_steady: "steady (co_db c) (co_db (atom_do cd cfg a c))"
  using atom_unnoticed [of a "case purges_sessions a of None \<Rightarrow> 0 | Some t \<Rightarrow> t"] by (auto simp: unnoticed_def)

section \<open>Requests\<close>

definition placid :: "time \<Rightarrow> server \<Rightarrow> server \<Rightarrow> bool" where
  "placid T s s' \<longleftrightarrow> unnoticed T (sv_db s) (sv_db s') \<and> co_bo (sv_col s') = co_bo (sv_col s) \<and>
     co_running (sv_col s') = co_running (sv_col s)"

lemma placid_refl [simp, intro]: "placid T s s"
  by (simp add: placid_def)

lemma placid_lim [simp]: "placid T s (s'\<lparr>sv_lim := l\<rparr>) = placid T s s'" "placid T (s\<lparr>sv_lim := l\<rparr>) s' = placid T s s'"
  by (simp_all add: placid_def)

lemma placid_log [simp]: "placid T s s' \<Longrightarrow> placid T s (log_audit ev a ip act t out s')"
  by (simp add: placid_def) (simp add: log_audit_def set_db_def)

lemma placid_rail [simp]: "placid T s (snd (make_rail ev cfg n r s))"
  by (auto simp: make_rail_def Let_def placid_def set_db_def dest: unnoticed_csrf split: sum.splits)

lemma placid_pages:
  "placid T s (snd (get_fleet ev cfg r s))" "placid T s (snd (get_host ev cfg name r s))"
  "placid T s (snd (get_tree ev cfg name r s))" "placid T s (snd (get_alerts ev cfg r s))"
  "placid T s (snd (get_sante ev cfg r s))" "placid T s (snd (get_history ev cfg r s))"
  "placid T s (snd (get_audit ev cfg r s))" "placid T s (snd (get_explorer r s))" "placid T s (snd (get_login ev r s))"
  by (simp_all add: get_fleet_def get_host_def get_tree_def get_alerts_def get_sante_def get_history_def
      get_audit_def get_explorer_def get_login_def Let_def split_beta split: sum.splits option.splits if_splits)

text \<open>A login grants a session or leaves everything as it was.\<close>

lemma grants_unless_placid:
  "(\<exists>tok. grants_session (fst (open_session ev r n u s)) tok) \<or> open_session ev r n u s = (reply internal_error, s)"
  by (auto simp: open_session_def Let_def grants_session_def set_cookie_def reply_def split: sum.splits)

lemma login_placid:
  assumes "\<And>tok. \<not> grants_session (fst (post_login ev r s)) tok"
  shows "placid T s (snd (post_login ev r s))"
proof (cases "\<exists>u. factors_ok ev r s u")
  case True
  then obtain u where "factors_ok ev r s u" by blast
  then have login: "post_login ev r s = open_session ev r (trim_space (rq_form r ''username'')) u
      (s\<lparr>sv_lim := snd (allow (ev_now ev) (remote_ip ev r) (sv_lim s))\<rparr>)"
    using post_login_cases [of ev r s u] by simp
  with assms grants_unless_placid show ?thesis by (metis placid_lim(1) placid_refl snd_conv)
next
  case False
  then have no: "\<not> (password_ok ev r u \<and> totp_ok ev r u)"
    if "rq_form_ok r" "check_csrf r s" "fst (allow (ev_now ev) (remote_ip ev r) (sv_lim s))"
      "user_by_name (trim_space (rq_form r ''username'')) (sv_db s) = Inr u" for u
    using that by (simp add: factors_ok_def lim.granted_iff)
  then show ?thesis by (auto simp: post_login_def Let_def split_beta split: sum.splits)
qed

lemma login_frame: "co_bo (sv_col (snd (post_login ev r s))) = co_bo (sv_col s) \<and>
    co_running (sv_col (snd (post_login ev r s))) = co_running (sv_col s)"
  by (simp add: post_login_def open_session_def log_audit_def set_db_def Let_def split_beta split: sum.splits)

lemma logout_frame: "co_bo (sv_col (snd (post_logout ev r s))) = co_bo (sv_col s) \<and>
    co_running (sv_col (snd (post_logout ev r s))) = co_running (sv_col s)"
  by (auto simp: post_logout_def log_audit_def set_db_def Let_def split: sum.splits option.splits)

lemma action_placid:
  assumes "handler_user ev r s = Some (u, t)" and "s' = snd (post_action ev cfg name r s)"
  shows "unnoticed T (sv_db s) (sv_db s') \<and> co_bo (sv_col s') = co_bo (sv_col s) \<and>
    co_running (sv_col s') =
      (if rq_form_ok r \<and> check_csrf r s
       then (case action_begin (ev_now ev) cfg name (rq_form r ''verb'') (usr_name u) (remote_ip ev r) (sv_col s) of
               Inl e \<Rightarrow> co_running (sv_col s)
             | Inr (h, c) \<Rightarrow> (co_running (sv_col s))(hc_name h \<mapsto> rq_form r ''verb''))
       else co_running (sv_col s))"
  using assms(1) find_host_Some
  by (auto simp: assms(2) post_action_def Let_def begin_Inr log_audit_def set_db_def split: sum.splits)

lemma action_vanished: "handler_user ev r s = None \<Longrightarrow> snd (post_action ev cfg name r s) = s"
  by (simp add: post_action_def)

section \<open>Who is logged in, as an abstract machine\<close>

text \<open>
  The specification knows, of each token, the account it stands for, the address it is bound to
  and the second it ends. Tokens are opened and closed; nothing else happens to them.
\<close>

type_synonym access = "string \<rightharpoonup> user \<times> string \<times> int"

datatype access_event = Opens string user string int | Closes string | Idles

fun access_step :: "access_event \<Rightarrow> access \<Rightarrow> access" where
  "access_step (Opens tok u ip end_at) m = m(tok \<mapsto> (u, ip, end_at))"
| "access_step (Closes tok) m = m(tok := None)"
| "access_step Idles m = m"

definition stands_for :: "access \<Rightarrow> time \<Rightarrow> string \<Rightarrow> string \<Rightarrow> store_error + user" where
  "stands_for m now tok ip =
     (case m tok of
        Some (u, bound, end_at) \<Rightarrow> if ip = bound \<and> unix_sec now < end_at then Inr u else Inl ErrNoUser
      | None \<Rightarrow> Inl ErrNoUser)"

text \<open>
  What the console tells the browser: an answer that sets the session cookie opens a session, or
  ends the one the handler's own lookup found when the cookie's age is negative. A logout clears
  the cookie even when the database refuses to delete the session, and then ends none.
\<close>

definition session_set :: "response \<Rightarrow> cookie option" where
  "session_set rs = find (\<lambda>k. cookie_name k = session_cookie) (rs_cookies rs)"

definition told :: "env \<Rightarrow> request \<Rightarrow> response \<Rightarrow> server \<Rightarrow> access_event" where
  "told ev r rs s =
     (case session_set rs of
        None \<Rightarrow> Idles
      | Some k \<Rightarrow>
          if cookie_max_age k > 0
          then (case user_by_name (trim_space (rq_form r ''username'')) (sv_db s) of
                  Inl e \<Rightarrow> Idles
                | Inr u \<Rightarrow> Opens (cookie_value k) u (remote_ip ev r) (unix_sec (ev_now ev) + cookie_max_age k))
          else if db_fails (sv_db s) SDeleteSession then Idles
          else Closes (case handler_user ev r s of None \<Rightarrow> '''' | Some (u, tok) \<Rightarrow> tok))"

fun told_by :: "config \<Rightarrow> console_event \<Rightarrow> site \<Rightarrow> access_event" where
  "told_by cfg (Request ev r oc) c = told ev r (fst (handle ev cfg r (si_server c))) (si_server c)"
| "told_by cfg _ c = Idles"

text \<open>The one statement a guard needs.\<close>

definition engine_up :: "db \<Rightarrow> bool" where
  "engine_up d \<longleftrightarrow> \<not> db_fails d SSelectSession"

lemma session_set_reply [simp]: "session_set (reply a) = None"
  by (simp add: session_set_def reply_def)

lemma told_reply [simp]: "told ev r (reply a) s = Idles"
  by (simp add: told_def)

lemma session_set_csrf [simp]: "session_set (set_cookie r csrf_cookie v t (reply a)) = None"
  by (simp add: session_set_def set_cookie_def reply_def)

lemma session_set_session: "session_set (set_cookie r session_cookie v t (reply a)) =
    Some \<lparr>cookie_name = session_cookie, cookie_value = v, cookie_path = ''/'', cookie_max_age = go_div t second,
      cookie_http_only = True, cookie_secure = rq_tls r, cookie_same_site = SameSiteStrict\<rparr>"
  by (simp add: session_set_def set_cookie_def reply_def)

lemma session_set_error [simp]: "session_set (login_error ev r m) = None"
  by (simp add: login_error_def Let_def)

text \<open>Only the login and the logout set the session cookie.\<close>

lemma idle_answers:
  "session_set (fst (get_fleet ev cfg r s)) = None" "session_set (fst (get_host ev cfg name r s)) = None"
  "session_set (fst (get_tree ev cfg name r s)) = None" "session_set (fst (get_alerts ev cfg r s)) = None"
  "session_set (fst (get_sante ev cfg r s)) = None" "session_set (fst (get_history ev cfg r s)) = None"
  "session_set (fst (get_audit ev cfg r s)) = None" "session_set (fst (get_explorer r s)) = None"
  "session_set (fst (get_login ev r s)) = None" "session_set (fst (post_action ev cfg name r s)) = None"
  by (simp_all add: get_fleet_def get_host_def get_tree_def get_alerts_def get_sante_def get_history_def
      get_audit_def get_explorer_def get_login_def post_action_def Let_def split_beta
      split: sum.splits option.splits if_splits)

lemma not_granted: "(\<And>tok. \<not> grants_session rs tok) \<Longrightarrow> session_set rs = None"
  by (auto simp: session_set_def grants_session_def find_None_iff)

lemma granted_answer:
  assumes "grants_session (fst (post_login ev r s)) tok"
  shows "fst (post_login ev r s) = set_cookie r session_cookie tok session_ttl (reply (Redirect ''/''))"
proof -
  obtain u where "factors_ok ev r s u" using assms post_login_refused(1) by blast
  then have login: "post_login ev r s = open_session ev r (trim_space (rq_form r ''username'')) u
      (s\<lparr>sv_lim := snd (allow (ev_now ev) (remote_ip ev r) (sv_lim s))\<rparr>)"
    using post_login_cases [of ev r s u] by simp
  from assms show ?thesis unfolding login
    by (auto simp: open_session_def Let_def grants_session_def set_cookie_def reply_def split: sum.splits)
qed

lemma session_end: "unix_sec (t + 8 * hour) = unix_sec t + 28800"
  by (simp add: go_time)

text \<open>The database stands for an abstract state, for whoever asks at \<open>T\<close> or later.\<close>

definition represents :: "time \<Rightarrow> db \<Rightarrow> access \<Rightarrow> bool" where
  "represents T d m \<longleftrightarrow> store_inv d \<and> engine_up d \<and>
     (\<forall>now tok ip. T \<le> now \<longrightarrow> session_user now tok ip d = stands_for m now tok ip)"

lemma represents_quiet: "represents T d m \<Longrightarrow> unnoticed T d d' \<Longrightarrow> represents T d' m"
  by (simp add: represents_def unnoticed_def steady_def engine_up_def)

lemma login_told:
  assumes "represents T (sv_db s) m"
  shows "represents T (sv_db (snd (post_login ev r s)))
    (access_step (told ev r (fst (post_login ev r s)) s) m)"
proof (cases "\<exists>tok. grants_session (fst (post_login ev r s)) tok")
  case False
  then have "placid T s (snd (post_login ev r s))" "session_set (fst (post_login ev r s)) = None"
    using login_placid not_granted by blast+
  with assms show ?thesis by (auto simp: told_def placid_def intro: represents_quiet)
next
  case True
  then obtain tok where granted: "grants_session (fst (post_login ev r s)) tok" by blast
  have inv: "store_inv (sv_db s)" "engine_up (sv_db s)" using assms by (simp_all add: represents_def)
  from login_opens [OF granted inv(1)] obtain u csrf d where
    u: "user_by_name (trim_space (rq_form r ''username'')) (sv_db s) = Inr u" "account (usr_id u) (sv_db s) = Some u"
    and d: "create_session (ev_now ev) tok (usr_id u) (remote_ip ev r) csrf (8 * hour) (sv_db s) = Inr d"
    and s': "sv_db (snd (post_login ev r s)) = audit (ev_now ev) (trim_space (rq_form r ''username'')) (remote_ip ev r)
      ''login'' '''' (fr ''succ`es'') d" by blast
  have told: "told ev r (fst (post_login ev r s)) s =
      Opens tok u (remote_ip ev r) (unix_sec (ev_now ev + 8 * hour))"
    by (simp add: told_def granted_answer [OF granted] session_set_session u session_end)
      (simp add: session_ttl_def go_time)
  have d_eq: "session_user now t ip d = stands_for (m(tok \<mapsto> (u, remote_ip ev r, unix_sec (ev_now ev + 8 * hour)))) now t ip"
    if "T \<le> now" for now t ip
  proof (cases "t = tok")
    case True
    with sessions.find_created [OF inv(1) _ d u(2)] inv(2) show ?thesis
      by (simp add: stands_for_def engine_up_def)
  next
    case False
    with sessions.find_created_other [OF d False] assms that show ?thesis
      by (simp add: represents_def stands_for_def)
  qed
  have steady: "steady (sv_db s) d" using d by (rule steady_session)
  then have "store_inv d" "engine_up d" using inv by (simp_all add: steady_def engine_up_def)
  with d_eq show ?thesis by (simp add: represents_def s' told engine_up_def audit_inv)
qed

lemma logout_told:
  assumes "represents T (sv_db s) m"
  shows "represents T (sv_db (snd (post_logout ev r s)))
    (access_step (told ev r (fst (post_logout ev r s)) s) m)"
proof (cases "check_csrf r s")
  case False
  with assms show ?thesis by (simp add: post_logout_def bad_token_def)
next
  case True
  have inv: "store_inv (sv_db s)" "engine_up (sv_db s)" using assms by (simp_all add: represents_def)
  define tok where "tok = (case handler_user ev r s of None \<Rightarrow> '''' | Some (u, t) \<Rightarrow> t)"
  have out: "fst (post_logout ev r s) = set_cookie r session_cookie '''' (- hour) (reply (Redirect ''/login''))"
    using True by (simp add: post_logout_def Let_def)
  have told: "told ev r (fst (post_logout ev r s)) s =
      (if db_fails (sv_db s) SDeleteSession then Idles else Closes tok)"
    by (simp add: out told_def session_set_session tok_def) (simp add: go_div_def go_time)
  show ?thesis
  proof (cases "delete_session tok (sv_db s)")
    case (Inl e)
    then have "db_fails (sv_db s) SDeleteSession" by (auto simp: delete_session_def split: if_splits)
    moreover have "unnoticed T (sv_db s) (sv_db (snd (post_logout ev r s)))"
      using True Inl by (simp add: post_logout_def Let_def tok_def split: option.splits prod.splits)
    ultimately show ?thesis using assms by (simp add: told represents_quiet)
  next
    case (Inr d)
    then have up: "\<not> db_fails (sv_db s) SDeleteSession" by (auto simp: delete_session_def split: if_splits)
    have after: "unnoticed T d (sv_db (snd (post_logout ev r s)))"
      using True Inr by (simp add: post_logout_def Let_def tok_def split: option.splits prod.splits)
    have "session_user now t ip d = stands_for (m(tok := None)) now t ip" if "T \<le> now" for now t ip
      using sessions.find_removed [OF _ Inr] sessions.find_removed_other [OF Inr] inv(2) assms that
      by (cases "t = tok") (simp_all add: represents_def stands_for_def engine_up_def)
    moreover have "store_inv d" "engine_up d"
      using steady_session(3) [OF Inr] inv by (simp_all add: steady_def engine_up_def)
    ultimately have "represents T d (m(tok := None))" by (simp add: represents_def)
    with after up show ?thesis by (simp add: told represents_quiet)
  qed
qed

lemma handle_told:
  assumes "represents T (sv_db s) m"
  shows "represents T (sv_db (snd (handle ev cfg r s))) (access_step (told ev r (fst (handle ev cfg r s)) s) m)"
proof -
  have idle: "represents T (sv_db (snd rs)) (access_step (told ev r (fst rs) s) m)"
    if "unnoticed T (sv_db s) (sv_db (snd rs))" "session_set (fst rs) = None" for rs
    using assms that by (simp add: told_def represents_quiet)
  have page: "represents T (sv_db (snd (require_auth ev f r s)))
      (access_step (told ev r (fst (require_auth ev f r s)) s) m)"
    if "current_user ev r s \<noteq> None \<Longrightarrow> represents T (sv_db (snd (f r s))) (access_step (told ev r (fst (f r s)) s) m)"
    for f
    using assms that by (simp add: require_auth_def)
  have pages: "represents T (sv_db (snd (post_action ev cfg name r s)))
      (access_step (told ev r (fst (post_action ev cfg name r s)) s) m)"
    for name
  proof (cases "handler_user ev r s")
    case None
    then show ?thesis using idle_answers(10) by (intro idle) (simp_all add: action_vanished)
  next
    case (Some x)
    then show ?thesis using action_placid [OF _ refl] idle_answers(10) by (cases x) (intro idle; auto)
  qed
  have "represents T (sv_db (snd (serve ev cfg r s))) (access_step (told ev r (fst (serve ev cfg r s)) s) m)"
    unfolding serve_def
    by (cases "route_of (rq_method r) (rq_path r)")
      (simp_all add: login_told [OF assms] page pages logout_told [OF assms] idle idle_answers
        placid_pages [unfolded placid_def] assms)
  with assms show ?thesis by (simp add: handle_def split: option.splits)
qed

section \<open>The refinement\<close>

text \<open>The sessions of a database as the specification sees them.\<close>

definition access_of :: "db \<Rightarrow> access" where
  "access_of d tok =
     Option.bind (find (\<lambda>r. se_token r = tok) (db_sessions d))
       (\<lambda>r. map_option (\<lambda>u. (u, se_ip r, se_expires r)) (account (se_user r) d))"

lemma represents_access_of:
  assumes "store_inv d" and "engine_up d"
  shows "represents T d (access_of d)"
proof -
  have up: "\<not> db_fails d SSelectSession" using assms(2) by (simp add: engine_up_def)
  have "session_user now tok ip d = stands_for (access_of d) now tok ip" for now tok ip
  proof (cases "\<exists>row u. row \<in> set (db_sessions d) \<and> se_token row = tok \<and> u \<in> set (db_users d) \<and> se_user row = us_id u")
    case True
    then obtain row u where row: "row \<in> set (db_sessions d)" "se_token row = tok"
      and u: "u \<in> set (db_users d)" "se_user row = us_id u" by blast
    have "distinct (map se_token (db_sessions d))" using assms(1) by (simp add: store_inv_def)
    with row find_map_of [of se_token "db_sessions d" row]
    have "find (\<lambda>r. se_token r = tok) (db_sessions d) = Some row" by simp
    with u account_of_row [OF assms(1) u(1)] have "access_of d tok = Some (user_of u, se_ip row, se_expires row)"
      by (simp add: access_of_def)
    with session_row_found [OF assms(1) row(1) u up, of now ip] row(2) show ?thesis
      by (auto simp: stands_for_def)
  next
    case False
    then have "\<not> session_grants now tok ip d u" for u by (auto simp: session_grants_def)
    with up have "session_user now tok ip d = Inl ErrNoUser" by (simp add: session_user_None)
    moreover have "access_of d tok = None"
    proof (rule ccontr)
      assume "access_of d tok \<noteq> None"
      then obtain row u where "find (\<lambda>r. se_token r = tok) (db_sessions d) = Some row"
        "find (\<lambda>r. us_id r = se_user row) (db_users d) = Some u"
        by (auto simp: access_of_def account_def bind_eq_Some_conv)
      with find_SomeD [of _ "db_sessions d" row] find_SomeD [of _ "db_users d" u] False show False by metis
    qed
    ultimately show ?thesis by (simp add: stands_for_def)
  qed
  with assms show ?thesis by (simp add: represents_def)
qed

fun by_time :: "time \<Rightarrow> console_event \<Rightarrow> bool" where
  "by_time T (Wrap now) \<longleftrightarrow> now \<le> T"
| "by_time T _ \<longleftrightarrow> True"

lemma visit_purges: "a \<in> set (visit_prog cd an h) \<Longrightarrow> purges_sessions a = None"
  using visit_prog_atoms [of a cd an h] by (cases a) auto

lemma fresh_purges:
  assumes "a \<in> fresh cd e" and "purges_sessions a = Some u"
  shows "\<exists>now. e = Wrap now \<and> u = now"
proof -
  have "purges_sessions a = None" if "a \<in> set (action_prog cd oc h verb actor ip)" for oc h verb actor ip
    using that by (auto simp: action_prog_def Let_def dest: visit_purges split: option.splits if_splits)
  with assms visit_purges show ?thesis
    by (cases e) (fastforce simp: operation_thread_def visit_thread_def)+
qed

definition purges_by :: "time \<Rightarrow> thread list \<Rightarrow> bool" where
  "purges_by T ts \<longleftrightarrow> (\<forall>a\<in>pending ts. \<forall>u. purges_sessions a = Some u \<longrightarrow> u \<le> T)"

lemma purges_by_step:
  assumes "purges_by T (si_threads c)" and "by_time T e"
  shows "purges_by T (si_threads (console_step cd cfg e c))"
  using assms pending_step [of cd cfg e c] fresh_purges [of _ cd e] by (fastforce simp: purges_by_def)

interpretation access: refinement "console_step cd cfg" access_step "told_by cfg" "\<lambda>e c. by_time T e"
  "\<lambda>c m. represents T (si_db c) m \<and> purges_by T (si_threads c)" for cd cfg T
proof
  fix c m e
  assume rel: "represents T (si_db c) m \<and> purges_by T (si_threads c)" and time: "by_time T e"
  have "represents T (si_db (console_step cd cfg e c)) (access_step (told_by cfg e c) m)"
  proof (cases e)
    case (Request ev r oc)
    with handle_told rel show ?thesis by simp
  next
    case (Move i)
    have "unnoticed T (co_db (si_col c)) (co_db (atom_do cd cfg a (si_col c)))"
      if "i < length (si_threads c)" "th_prog (si_threads c ! i) = a # p" for a p
      using that rel pending_nth [of i "si_threads c"] by (intro atom_unnoticed) (auto simp: purges_by_def)
    with rel Move show ?thesis
      by (auto simp: on_col_def intro: represents_quiet split: list.splits)
  qed (use rel in \<open>simp_all split: round_state.splits list.splits\<close>)
  with purges_by_step rel time show "represents T (si_db (console_step cd cfg e c)) (access_step (told_by cfg e c) m) \<and>
      purges_by T (si_threads (console_step cd cfg e c))" by blast
qed

lemma proper_always: "(\<And>e c. e \<in> set es \<Longrightarrow> allowed e c) \<Longrightarrow> proper step allowed es c"
  by (induction es arbitrary: c) simp_all

text \<open>
  C4. Who is logged in is what the browsers were told. Start the console with well-formed tables
  and no goroutine under way, on a database that answers the lookups of sessions, and run it
  through any sequence of requests, and of statements of visits, operations and ends of rounds.
  At any time not before the clocks the rounds' ends have read, a token stands for an account
  exactly if it does so in the abstract machine that starts from the sessions of the database and
  takes one step for each session cookie the console set (opened for the account that the login
  named, bound to the address of the login, ending when the cookie's age runs out) and one for
  each cookie it cleared in a logout whose deletion the database accepts (of the session that the
  logout's own lookup found): if, there, the token is open, bound to the address that asks, and
  not at its end. The purges of the table, other logins, visits and operations are no steps of
  that machine, and neither is a logout whose deletion is refused, which clears the cookie but
  ends no session.
\<close>

theorem console_refines_access:
  assumes "store_inv (si_db c)" and "engine_up (si_db c)" and "si_threads c = []"
    and "\<And>t. Wrap t \<in> set es \<Longrightarrow> t \<le> now"
  shows "session_user now tok ip (si_db (console_run cd cfg es c)) =
    stands_for (fold access_step (trace_of (console_step cd cfg) (told_by cfg) es c) (access_of (si_db c))) now tok ip"
proof -
  have "by_time now e" if "e \<in> set es" for e using assms(4) that by (cases e) auto
  then have "proper (console_step cd cfg) (\<lambda>e c. by_time now e) es c" by (intro proper_always)
  moreover have "represents now (si_db c) (access_of (si_db c)) \<and> purges_by now (si_threads c)"
    using represents_access_of [OF assms(1,2)] assms(3) by (simp add: purges_by_def pending_def)
  ultimately show ?thesis
    using access.run_simulates by (fastforce simp: represents_def console_run_def)
qed

definition demo_console :: site where
  "demo_console = \<lparr>si_server = demo_site_server, si_threads = [], si_round = Resting, si_begun = 0\<rparr>"

definition demo_outcome :: outcome where
  "demo_outcome = \<lparr>oc_command = (\<lambda>_. Some PolicyMissing), oc_first = demo_answers, oc_again = demo_answers,
     oc_now = 1600 * second\<rparr>"

lemma demo_login_handled:
  "handle demo_env open_config (demo_login ''secret'') demo_site_server =
   post_login demo_env (demo_login ''secret'') demo_site_server"
proof -
  have "route_of (rq_method (demo_login ''secret'')) (rq_path (demo_login ''secret'')) = PostLogin"
    by (simp add: demo_login_def route_of_def)
  then show ?thesis by (simp add: handle_def demo_allowed serve_def)
qed

lemma demo_told:
  "told demo_env (demo_login ''secret'') (fst (post_login demo_env (demo_login ''secret'') demo_site_server))
     demo_site_server = Opens demo_token (user_of demo_row) (show_nat 0x0A000001) 29800"
proof -
  have "rq_form (demo_login ''secret'') ''username'' = ''root''" by (simp add: demo_login_def)
  then show ?thesis
    by (simp add: told_def granted_answer [OF demo_session] session_set_session demo_user)
      (simp add: session_ttl_def demo_env_def go_time)
qed

text \<open>A login, a first round that visits the host, and a second one that ends with the purge.\<close>

definition demo_day :: "console_event list" where
  "demo_day =
     [Request demo_env (demo_login ''secret'') demo_outcome,
      Tick, Launch (1100 * second) demo_answers, Enter 0, Move 0, Move 0, Move 0, Move 0, Wrap (1200 * second), Move 1, Rest,
      Tick, Launch (1400 * second) demo_answers, Wrap (1500 * second), Move 2, Move 2, Move 2, Rest]"

theorem console_refines_access_witness:
  "session_user (2000 * second) demo_token (show_nat 0x0A000001)
     (si_db (console_run unit_codec open_config demo_day demo_console)) = Inr (user_of demo_row)"
proof -
  have inv: "store_inv (si_db demo_console)" "engine_up (si_db demo_console)" "si_threads demo_console = []"
    by (simp_all add: demo_console_def demo_inv engine_up_def demo_no_failure)
  have "session_user (2000 * second) demo_token (show_nat 0x0A000001)
      (si_db (console_run unit_codec open_config demo_day demo_console)) =
    stands_for (fold access_step (trace_of (console_step unit_codec open_config) (told_by open_config) demo_day demo_console)
      (access_of (si_db demo_console))) (2000 * second) demo_token (show_nat 0x0A000001)"
    by (rule console_refines_access [OF inv]) (auto simp: demo_day_def go_time)
  also have "\<dots> = Inr (user_of demo_row)"
    by (simp add: demo_day_def demo_console_def demo_login_handled demo_told stands_for_def del: console_step.simps)
      (simp add: go_time)
  finally show ?thesis .
qed

end
