(* ===== verification/Amarre_Qr.thy ===== *)
theory Amarre_Qr
  imports Amarre_Strings
begin

text \<open>
  Package \<open>qr\<close> (\<open>qr.go\<close>): a QR code drawn on a terminal with half blocks, two modules per
  character cell. The encoder is a third-party package: it is an argument, which gives the
  square of modules or an error text. The escape sequences are written out, and the property
  reads them back with a small model of a terminal.
\<close>

section \<open>Rendering\<close>

record qr_code =
  qc_size :: int
  qc_black :: "int \<Rightarrow> int \<Rightarrow> bool"

type_synonym encoder = "string \<Rightarrow> string + qr_code"

definition quiet :: int where "quiet = 2"

definition escape :: char where "escape = CHR 0x1B"

definition fg_dark :: string where "fg_dark = escape # ''[30m''"
definition fg_light :: string where "fg_light = escape # ''[97m''"
definition bg_dark :: string where "bg_dark = escape # ''[40m''"
definition bg_light :: string where "bg_light = escape # ''[107m''"
definition reset_colours :: string where "reset_colours = escape # ''[0m''"

lemmas escapes = fg_dark_def fg_light_def bg_dark_def bg_light_def reset_colours_def escape_def

text \<open>A module in coordinates that count the margin; outside the code everything is light.\<close>

definition module_black :: "qr_code \<Rightarrow> int \<Rightarrow> int \<Rightarrow> bool" where
  "module_black q x y =
     (let x' = x - quiet; y' = y - quiet
      in if x' < 0 \<or> y' < 0 \<or> x' \<ge> qc_size q \<or> y' \<ge> qc_size q then False else qc_black q x' y')"

definition half_block :: "bool \<Rightarrow> bool \<Rightarrow> string" where
  "half_block up low =
     (if up \<and> low then fg_dark @ bg_dark
      else if up \<and> \<not> low then fg_dark @ bg_light
      else if \<not> up \<and> low then fg_light @ bg_dark
      else fg_light @ bg_light) @ u_upper_half"

definition half_row :: "qr_code \<Rightarrow> int \<Rightarrow> int \<Rightarrow> string" where
  "half_row q side y =
     concat (map (\<lambda>x. half_block (module_black q x y) (module_black q x (y + 1))) [0..side - 1]) @
     reset_colours @ [newline]"

text \<open>The loop over \<open>y\<close>, two lines of modules at a time.\<close>

function half_rows :: "qr_code \<Rightarrow> int \<Rightarrow> int \<Rightarrow> string" where
  "half_rows q side y = (if y < side then half_row q side y @ half_rows q side (y + 2) else '''')"
  by pat_completeness auto
termination by (relation "measure (\<lambda>(q, side, y). nat (side - y))") auto

declare half_rows.simps [simp del]

definition qr_terminal :: "encoder \<Rightarrow> string \<Rightarrow> string + string" where
  "qr_terminal encode s =
     (case encode s of
        Inl e \<Rightarrow> Inl (''encodage du QR code : '' @ e)
      | Inr q \<Rightarrow> Inr (half_rows q (qc_size q + 2 * quiet) 0))"

definition qr_dimensions :: "encoder \<Rightarrow> string \<Rightarrow> string + int \<times> int" where
  "qr_dimensions encode s =
     (case encode s of
        Inl e \<Rightarrow> Inl e
      | Inr q \<Rightarrow> let side = qc_size q + 2 * quiet in Inr (side, go_div (side + 1) 2))"

section \<open>What a terminal shows\<close>

text \<open>
  The terminal's side: the colour sequences set the two current colours (\<open>Some True\<close> is dark),
  the half block paints a cell whose upper module has the foreground colour and whose lower
  module has the background colour. Anything else is outside this reading.
\<close>

type_synonym colours = "bool option \<times> bool option"

datatype token = Fg bool | Bg bool | Reset | Half | Newline

definition tokens :: "(string \<times> token) list" where
  "tokens = [(fg_dark, Fg True), (fg_light, Fg False), (bg_dark, Bg True), (bg_light, Bg False),
     (reset_colours, Reset), (u_upper_half, Half), ([newline], Newline)]"

definition next_token :: "string \<Rightarrow> (token \<times> string) option" where
  "next_token s =
     map_option (\<lambda>(w, t). (t, drop (length w) s)) (find (\<lambda>(w, t). has_prefix s w) tokens)"

lemma tokens_nonempty: "(w, t) \<in> set tokens \<Longrightarrow> w \<noteq> []"
  by (auto simp: tokens_def escapes utf8_defs)

lemma next_token_shorter: "next_token s = Some (t, r) \<Longrightarrow> length r < length s"
proof -
  assume "next_token s = Some (t, r)"
  then obtain w where w: "(w, t) \<in> set tokens" "has_prefix s w" "r = drop (length w) s"
    by (auto simp: next_token_def dest!: find_SomeD)
  then have "0 < length w" "length w \<le> length s"
    using tokens_nonempty prefix_length_le by (auto simp: has_prefix_iff)
  with w(3) show ?thesis by (simp only: length_drop)
qed

function shown :: "colours \<Rightarrow> colours list \<Rightarrow> string \<Rightarrow> colours list list option" where
  "shown c row s =
     (case next_token s of
        None \<Rightarrow> if s = '''' \<and> row = [] then Some [] else None
      | Some (t, r) \<Rightarrow>
          (case t of
             Fg d \<Rightarrow> shown (Some d, snd c) row r
           | Bg d \<Rightarrow> shown (fst c, Some d) row r
           | Reset \<Rightarrow> shown (None, None) row r
           | Half \<Rightarrow> shown c (row @ [c]) r
           | Newline \<Rightarrow> map_option (\<lambda>rows. row # rows) (shown c [] r)))"
  by pat_completeness auto
termination by (relation "measure (\<lambda>(c, row, s). length s)") (auto dest: next_token_shorter)

declare shown.simps [simp del]

lemma next_token_Nil [simp]: "next_token '''' = None"
  by (auto simp: next_token_def tokens_def escapes utf8_defs has_prefix_def find_None_set)

lemma next_token_words [simp]:
  "next_token (fg_dark @ r) = Some (Fg True, r)"
  "next_token (fg_light @ r) = Some (Fg False, r)"
  "next_token (bg_dark @ r) = Some (Bg True, r)"
  "next_token (bg_light @ r) = Some (Bg False, r)"
  "next_token (reset_colours @ r) = Some (Reset, r)"
  "next_token (u_upper_half @ r) = Some (Half, r)"
  "next_token (newline # r) = Some (Newline, r)"
  by (simp_all add: next_token_def tokens_def escapes utf8_defs newline_def has_prefix_def)

lemma shown_half_block [simp]:
  "shown c row (half_block up low @ r) = shown (Some up, Some low) (row @ [(Some up, Some low)]) r"
  by (cases up; cases low)
    (simp_all add: half_block_def shown.simps [of _ _ "_ @ _"])

lemma shown_half_blocks:
  "shown c row (concat (map (\<lambda>x. half_block (f x) (g x)) xs) @ reset_colours @ newline # r) =
   map_option ((#) (row @ map (\<lambda>x. (Some (f x), Some (g x))) xs)) (shown (None, None) [] r)"
  by (induction xs arbitrary: c row)
    (simp_all add: shown.simps [of _ _ "reset_colours @ _"] shown.simps [of _ _ "newline # _"])

definition module_row :: "qr_code \<Rightarrow> int \<Rightarrow> int \<Rightarrow> colours list" where
  "module_row q side y =
     map (\<lambda>x. (Some (module_black q x y), Some (module_black q x (y + 1)))) [0..side - 1]"

lemma shown_half_row:
  "shown c [] (half_row q side y @ r) = map_option ((#) (module_row q side y)) (shown (None, None) [] r)"
  using shown_half_blocks [of c "[]"] by (simp add: half_row_def module_row_def)

lemma shown_half_rows:
  "shown c [] (half_rows q side y) =
   Some (map (\<lambda>i. module_row q side (y + 2 * int i)) [0..<nat ((side + 1 - y) div 2)])"
proof (induction q side y arbitrary: c rule: half_rows.induct)
  case (1 q side y)
  show ?case
  proof (cases "y < side")
    case True
    have n: "nat ((side + 1 - y) div 2) = Suc (nat ((side + 1 - (y + 2)) div 2))"
      using True by (simp add: nat_eq_iff Suc_nat_eq_nat_zadd1)
    have "shown c [] (half_rows q side y) =
        map_option ((#) (module_row q side y)) (shown (None, None) [] (half_rows q side (y + 2)))"
      by (simp add: half_rows.simps [of q side y] True shown_half_row)
    also have "\<dots> = Some (module_row q side y #
        map (\<lambda>i. module_row q side (y + 2 + 2 * int i)) [0..<nat ((side + 1 - (y + 2)) div 2)])"
      by (simp add: 1 True)
    finally show ?thesis unfolding n
      by (simp add: upt_conv_Cons map_Suc_upt [symmetric] algebra_simps del: upt_Suc)
  next
    case False
    then have "nat ((side + 1 - y) div 2) = 0" by simp
    with False show ?thesis by (simp add: half_rows.simps [of q side y] shown.simps [of c "[]" "[]"])
  qed
qed

section \<open>Property\<close>

text \<open>The colour of the pixel at column \<open>x\<close> and line of modules \<open>y\<close>.\<close>

definition pixel :: "colours list list \<Rightarrow> int \<Rightarrow> int \<Rightarrow> bool option" where
  "pixel rows x y = (if even y then fst else snd) (rows ! nat (y div 2) ! nat x)"

lemma pixel_row:
  assumes "0 \<le> x" "x < side" "0 \<le> y" "y < 2 * h"
  shows "pixel (map (\<lambda>i. module_row q side (2 * int i)) [0..<nat h]) x y = Some (module_black q x y)"
proof -
  have "nat (y div 2) < nat h" using assms by auto
  then have "map (\<lambda>i. module_row q side (2 * int i)) [0..<nat h] ! nat (y div 2) =
      module_row q side (2 * (y div 2))"
    using assms by simp
  moreover have "module_row q side z ! nat x = (Some (module_black q x z), Some (module_black q x (z + 1)))" for z
    using assms by (simp add: module_row_def nth_upto)
  ultimately show ?thesis
    by (cases "even y") (simp_all add: pixel_def)
qed

text \<open>
  C39. The drawing scans. What a terminal shows when the rendering is printed is a rectangle of
  the announced dimensions in which every module of the code, two lines of them per line of
  text, has its colour, surrounded by a light margin of two modules (three at the bottom where
  the number of lines is odd). It fails exactly when the encoder does.
\<close>

theorem terminal_scans:
  assumes "\<And>q. encode s = Inr q \<Longrightarrow> 0 \<le> qc_size q"
  shows "case encode s of
      Inl e \<Rightarrow> (\<exists>msg. qr_terminal encode s = Inl msg) \<and> (\<exists>msg. qr_dimensions encode s = Inl msg)
    | Inr q \<Rightarrow> \<exists>img rows w h. qr_terminal encode s = Inr img \<and> qr_dimensions encode s = Inr (w, h) \<and>
        shown (None, None) [] img = Some rows \<and>
        w = qc_size q + 4 \<and> 2 * h \<in> {w, w + 1} \<and> int (length rows) = h \<and>
        (\<forall>r\<in>set rows. int (length r) = w) \<and>
        (\<forall>x y. 0 \<le> x \<and> x < w \<and> 0 \<le> y \<and> y < 2 * h \<longrightarrow>
           pixel rows x y = Some (2 \<le> x \<and> x < qc_size q + 2 \<and> 2 \<le> y \<and> y < qc_size q + 2 \<and>
             qc_black q (x - 2) (y - 2)))"
proof (cases "encode s")
  case (Inl e)
  then show ?thesis by (simp add: qr_terminal_def qr_dimensions_def)
next
  case (Inr q)
  then have size: "0 \<le> qc_size q" by (rule assms)
  let ?w = "qc_size q + 4" and ?h = "(qc_size q + 5) div 2"
  let ?rows = "map (\<lambda>i. module_row q ?w (2 * int i)) [0..<nat ?h]"
  have "shown (None, None) [] (half_rows q ?w 0) = Some ?rows"
    using shown_half_rows [of "(None, None)" q ?w 0] by (simp add: add.commute)
  moreover have "pixel ?rows x y = Some (2 \<le> x \<and> x < qc_size q + 2 \<and> 2 \<le> y \<and> y < qc_size q + 2 \<and>
      qc_black q (x - 2) (y - 2))" if "0 \<le> x" "x < ?w" "0 \<le> y" "y < 2 * ?h" for x y
    using pixel_row [OF that, of q] by (auto simp: module_black_def quiet_def Let_def)
  moreover have "2 * ?h \<in> {?w, ?w + 1}" by auto
  moreover have "int (length r) = ?w" if "r \<in> set ?rows" for r
    using that size by (auto simp: module_row_def)
  ultimately show ?thesis unfolding Inr sum.case using Inr size
    by (intro exI [of _ "half_rows q ?w 0"] exI [of _ ?rows] exI [of _ ?w] exI [of _ ?h])
      (simp add: qr_terminal_def qr_dimensions_def quiet_def Let_def go_div_nonneg add.commute)
qed

definition demo_code :: qr_code where
  "demo_code = \<lparr>qc_size = 1, qc_black = (\<lambda>x y. True)\<rparr>"

theorem terminal_scans_witness:
  "\<exists>img rows. qr_terminal (\<lambda>_. Inr demo_code) ''otpauth'' = Inr img \<and>
    shown (None, None) [] img = Some rows \<and> length rows = 3 \<and>
    pixel rows 2 2 = Some True \<and> pixel rows 2 3 = Some False"
proof -
  have q: "qc_size demo_code = 1" "qc_black demo_code x y" for x y by (simp_all add: demo_code_def)
  show ?thesis
    using terminal_scans [of "\<lambda>_. Inr demo_code" "''otpauth''"] q by fastforce
qed

end
