(* ===== verification/Amarre_Main.thy ===== *)
theory Amarre_Main
  imports Amarre_Console Amarre_Pool Amarre_Qr
begin

text \<open>
  The command line (\<open>cmd/amarre\<close>) and the construction of the fleet client (\<open>fleet.NewClient\<close>,
  \<open>knownhosts.go\<close>): what each sub-command checks, in order, before it acts, and what it leaves
  in the database.

  The machine the program runs on is a record of functions: files, the environment, the
  terminal, the clock, the random source, and the third-party packages (YAML, SSH keys, the
  SQLite driver, the QR encoder). Log lines and prompts are left out; what a command prints at
  the end is its result.
\<close>

section \<open>Flags\<close>

text \<open>
  \<open>flag.Parse\<close> with \<open>ExitOnError\<close>: \<open>-name value\<close>, \<open>--name value\<close> and \<open>-name=value\<close>; a boolean
  flag takes its value only in the last form; the first other word ends the flags.
\<close>

datatype flag_word = NotFlag | Terminator | BadSyntax | Flag string "string option"

definition named_flag :: "string \<Rightarrow> flag_word" where
  "named_flag n =
     (if n = '''' \<or> hd n = CHR ''-'' \<or> hd n = CHR ''='' then BadSyntax
      else (case cut_at (CHR ''='') n of None \<Rightarrow> Flag n None | Some (a, v) \<Rightarrow> Flag a (Some v)))"

definition flag_word_of :: "string \<Rightarrow> flag_word" where
  "flag_word_of s =
     (if length s < 2 \<or> hd s \<noteq> CHR ''-'' then NotFlag
      else if s ! 1 = CHR ''-'' then (if length s = 2 then Terminator else named_flag (drop 2 s))
      else named_flag (drop 1 s))"

definition parse_bool :: "string \<Rightarrow> bool option" where
  "parse_bool s =
     (if s \<in> set [''1'', ''t'', ''T'', ''true'', ''TRUE'', ''True''] then Some True
      else if s \<in> set [''0'', ''f'', ''F'', ''false'', ''FALSE'', ''False''] then Some False
      else None)"

datatype flag_kind = TextFlag | BoolFlag

type_synonym flag_values = "string \<rightharpoonup> string"

datatype flags = Parsed flag_values | HelpAsked | BadFlags

fun parse_flags :: "(string \<rightharpoonup> flag_kind) \<Rightarrow> flag_values \<Rightarrow> string list \<Rightarrow> flags" where
  "parse_flags kinds vs [] = Parsed vs"
| "parse_flags kinds vs (s # rest) =
     (case flag_word_of s of
        NotFlag \<Rightarrow> Parsed vs
      | Terminator \<Rightarrow> Parsed vs
      | BadSyntax \<Rightarrow> BadFlags
      | Flag n v \<Rightarrow>
          (case kinds n of
             None \<Rightarrow> if n = ''help'' \<or> n = ''h'' then HelpAsked else BadFlags
           | Some BoolFlag \<Rightarrow>
               (case v of
                  None \<Rightarrow> parse_flags kinds (vs(n \<mapsto> ''true'')) rest
                | Some x \<Rightarrow>
                    (case parse_bool x of
                       None \<Rightarrow> BadFlags
                     | Some b \<Rightarrow> parse_flags kinds (vs(n \<mapsto> (if b then ''true'' else ''false''))) rest))
           | Some TextFlag \<Rightarrow>
               (case v of
                  Some x \<Rightarrow> parse_flags kinds (vs(n \<mapsto> x)) rest
                | None \<Rightarrow> (case rest of [] \<Rightarrow> BadFlags | x # rest' \<Rightarrow> parse_flags kinds (vs(n \<mapsto> x)) rest'))))"

definition text_flag :: "flag_values \<Rightarrow> string \<Rightarrow> string \<Rightarrow> string" where
  "text_flag vs n dflt = (case vs n of None \<Rightarrow> dflt | Some x \<Rightarrow> x)"

section \<open>The machine and the errors\<close>

datatype listen_end = ServerClosed | ListenFailed string

record machine =
  ma_home :: string
  ma_read :: "string \<Rightarrow> string + string"
  ma_stat :: "string \<Rightarrow> bool"
  ma_unyaml :: "string \<Rightarrow> config \<Rightarrow> string + config"
  ma_prefix :: "string \<Rightarrow> prefix option"
  ma_addr :: "string \<Rightarrow> addr option"
  ma_parse_key :: "string \<Rightarrow> string option"
  ma_known_hosts :: "string \<Rightarrow> string option"
  ma_open :: "string \<Rightarrow> string + db"
  ma_templates :: "string option"
  ma_listen :: "bool \<Rightarrow> listen_end"
  ma_now :: time
  ma_salt :: "bytes option"
  ma_seed :: "bytes option"
  ma_idkey :: argon2
  ma_stdin :: "string \<times> string"
  ma_prompt :: "nat \<Rightarrow> string + string"
  ma_width :: "int option"
  ma_encode :: encoder

datatype client_error =
    KeyUnreadable string
  | KeyInvalid string
  | KnownHostsUnset
  | KnownHostsMissing string
  | KnownHostsInvalid string

datatype main_error =
    ConfigError config_error
  | NoSource
  | OpenError string
  | StoreError store_error
  | NoAccount
  | ClientError client_error
  | WebError string
  | ListenError string
  | NoUserFlag
  | StdinError string
  | TerminalError string
  | EntriesDiffer
  | PasswordTooShort
  | SecretError auth_error
  | CreateError store_error
  | NoSecondFactor string

definition lift_error :: "('e \<Rightarrow> main_error) \<Rightarrow> 'e + 'a \<Rightarrow> main_error + 'a" where
  "lift_error f r = (case r of Inl e \<Rightarrow> Inl (f e) | Inr x \<Rightarrow> Inr x)"

definition load_config :: "machine \<Rightarrow> string \<Rightarrow> main_error + config" where
  "load_config m path =
     lift_error ConfigError (load (ma_read m path) (ma_unyaml m) (ma_prefix m) (ma_addr m))"

section \<open>The fleet client\<close>

text \<open>Host keys are always verified: without a readable file there is no client.\<close>

definition known_hosts_callback :: "machine \<Rightarrow> string \<Rightarrow> client_error option" where
  "known_hosts_callback m path =
     (if path = '''' then Some KnownHostsUnset
      else if \<not> ma_stat m path then Some (KnownHostsMissing path)
      else map_option KnownHostsInvalid (ma_known_hosts m path))"

definition new_client :: "machine \<Rightarrow> string \<Rightarrow> string \<Rightarrow> client_error + pool" where
  "new_client m key_path known_hosts =
     (case ma_read m key_path of
        Inl e \<Rightarrow> Inl (KeyUnreadable e)
      | Inr raw \<Rightarrow>
          (case ma_parse_key m raw of
             Some e \<Rightarrow> Inl (KeyInvalid e)
           | None \<Rightarrow>
               (case known_hosts_callback m known_hosts of
                  Some e \<Rightarrow> Inl e
                | None \<Rightarrow> Inr new_pool)))"

section \<open>serve\<close>

text \<open>The console's handler, all barriers included, and the HTTP server around it.\<close>

type_synonym handler = "env \<Rightarrow> request \<Rightarrow> server \<Rightarrow> response \<times> server"

definition new_web_handler :: "machine \<Rightarrow> config \<Rightarrow> string + handler" where
  "new_web_handler m cfg =
     (case ma_templates m of Some e \<Rightarrow> Inl e | None \<Rightarrow> Inr (\<lambda>ev r s. handle ev cfg r s))"

datatype tls_version = TLS12

datatype curve = X25519 | CurveP256

record http_server =
  hs_addr :: string
  hs_handler :: handler
  hs_read_header_timeout :: duration
  hs_read_timeout :: duration
  hs_write_timeout :: duration
  hs_idle_timeout :: duration
  hs_max_header_bytes :: int
  hs_min_version :: tls_version
  hs_curves :: "curve list"

definition new_http_server :: "machine \<Rightarrow> config \<Rightarrow> main_error + http_server" where
  "new_http_server m cfg =
     (case new_web_handler m cfg of
        Inl e \<Rightarrow> Inl (WebError e)
      | Inr h \<Rightarrow>
          Inr \<lparr>hs_addr = cfg_listen cfg, hs_handler = h, hs_read_header_timeout = 10 * second, hs_read_timeout = 30 * second,
            hs_write_timeout = 60 * second, hs_idle_timeout = 120 * second, hs_max_header_bytes = 2 ^ 16,
            hs_min_version = TLS12, hs_curves = [X25519, CurveP256]\<rparr>)"

text \<open>The console once it listens: its configuration, its state, and whether over TLS.\<close>

record console =
  cs_config :: config
  cs_server :: server
  cs_pool :: pool
  cs_http :: http_server
  cs_tls :: bool

definition start_console :: "machine \<Rightarrow> flag_values \<Rightarrow> main_error + console" where
  "start_console m vs =
     (case load_config m (text_flag vs ''config'' ''amarre.yml'') of
        Inl e \<Rightarrow> Inl e
      | Inr cfg \<Rightarrow>
          if cfg_allowed_cidrs cfg = [] then Inl NoSource
          else let kh = text_flag vs ''known-hosts'' '''';
                   kh' = (if kh = '''' then ma_home m @ ''/.ssh/known_hosts'' else kh)
            in (case ma_open m (cfg_state_db cfg) of
                  Inl e \<Rightarrow> Inl (OpenError e)
                | Inr d \<Rightarrow>
                    (case count_users d of
                       Inl e \<Rightarrow> Inl (StoreError e)
                     | Inr n \<Rightarrow>
                         if n = 0 then Inl NoAccount
                         else (case new_client m (cfg_fleet_key cfg) kh' of
                                 Inl e \<Rightarrow> Inl (ClientError e)
                               | Inr pl \<Rightarrow>
                                   (case new_http_server m cfg of
                                      Inl e \<Rightarrow> Inl e
                                    | Inr srv \<Rightarrow>
                                        Inr \<lparr>cs_config = cfg, cs_server = new_server (new_collector d),
                                          cs_pool = pl, cs_http = srv,
                                          cs_tls = (cfg_tls_cert cfg \<noteq> '''' \<and> cfg_tls_key cfg \<noteq> '''')\<rparr>)))))"

text \<open>
  A console that starts has a source it admits and an account that can open it; what runs
  from then on, requests and rounds, starts from \<open>new_console\<close> on the database.
\<close>

lemma started_console:
  assumes "start_console m vs = Inr c"
  shows "\<exists>d. ma_open m (cfg_state_db (cs_config c)) = Inr d \<and> db_users d \<noteq> [] \<and>
    cfg_allowed_cidrs (cs_config c) \<noteq> [] \<and> cs_pool c = new_pool \<and>
    hs_handler (cs_http c) = (\<lambda>ev r s. handle ev (cs_config c) r s) \<and>
    si_server (new_console d) = cs_server c"
  using assms by (auto simp: start_console_def Let_def count_users_def new_client_def new_http_server_def
      new_web_handler_def      new_console_def split: sum.splits if_splits option.splits)

definition cmd_serve :: "machine \<Rightarrow> flag_values \<Rightarrow> main_error option" where
  "cmd_serve m vs =
     (case start_console m vs of
        Inl e \<Rightarrow> Some e
      | Inr c \<Rightarrow> (case ma_listen m (cs_tls c) of ServerClosed \<Rightarrow> None | ListenFailed e \<Rightarrow> Some (ListenError e)))"

section \<open>The second factor on the terminal\<close>

definition show_totp :: "machine \<Rightarrow> string \<Rightarrow> string \<Rightarrow> string" where
  "show_totp m user secret =
     (let uri = provisioning_uri ''Amarre'' user secret;
          warn_width = (case (qr_dimensions (ma_encode m) uri, ma_width m) of
            (Inr (cols, rows), Some w) \<Rightarrow>
              if w > 0 \<and> cols > w
              then ''  (terminal de '' @ show_int w @ '' colonnes, le code en demande '' @ show_int cols @
                '' '' @ u_emdash @ [newline] @
                fr ''   ~elargis la fen^etre ou utilise la saisie manuelle ci-dessous)'' @ [newline, newline]
              else ''''
          | _ \<Rightarrow> '''');
          img = (case qr_terminal (ma_encode m) uri of Inl e \<Rightarrow> '''' | Inr x \<Rightarrow> x)
      in [newline] @ ''Second facteur '' @ u_emdash @ fr '' `a enregistrer dans ton application TOTP.'' @
         [newline, newline] @ warn_width @ img @
         [newline] @ ''Si le QR code ne passe pas, saisie manuelle :'' @ [newline, newline] @
         ''  secret    : '' @ secret @ [newline] @
         ''  type      : temporel (TOTP)'' @ [newline] @
         ''  algorithme: SHA-1'' @ [newline] @
         ''  chiffres  : 6'' @ [newline] @
         fr ''  p~eriode   : 30 s'' @ [newline, newline] @
         fr ''Sans ce code, la connexion sera refus~ee m^eme avec le bon mot de passe.'' @ [newline])"

section \<open>useradd and totp\<close>

text \<open>\<open>ReadString\<close> up to and with the first line feed, and \<open>strings.TrimRight\<close> of the line's end.\<close>

definition read_line :: "string \<times> string \<Rightarrow> string \<times> string option" where
  "read_line input =
     (case cut_at newline (fst input) of
        Some (l, _) \<Rightarrow> (l @ [newline], None)
      | None \<Rightarrow> (fst input, Some (snd input)))"

definition trim_line_end :: "string \<Rightarrow> string" where
  "trim_line_end s = rev (dropWhile (\<lambda>c. c = CHR 0x0D \<or> c = newline) (rev s))"

definition ask_password :: "machine \<Rightarrow> flag_values \<Rightarrow> main_error + string" where
  "ask_password m vs =
     (if text_flag vs ''password-stdin'' ''false'' = ''true''
      then (case read_line (ma_stdin m) of
              (line, err) \<Rightarrow>
                if err \<noteq> None \<and> line = '''' then Inl (StdinError (str_of err))
                else Inr (trim_line_end line))
      else (case ma_prompt m 0 of
              Inl e \<Rightarrow> Inl (TerminalError e)
            | Inr p1 \<Rightarrow>
                (case ma_prompt m 1 of
                   Inl e \<Rightarrow> Inl (TerminalError e)
                 | Inr p2 \<Rightarrow> if p1 \<noteq> p2 then Inl EntriesDiffer else Inr p1)))"

text \<open>
  From the password on: the account is stored with a fresh secret, or nothing is. (A derivation
  that panics would end the process, which the error \<open>Panicked\<close> stands for here.)
\<close>

definition add_account :: "machine \<Rightarrow> string \<Rightarrow> string \<Rightarrow> db \<Rightarrow> main_error + string \<times> db" where
  "add_account m user pw d =
     (if length pw < 12 then Inl PasswordTooShort
      else (case hash_password (ma_idkey m) (ma_salt m) pw of
              Inl e \<Rightarrow> Inl (SecretError e)
            | Inr hash \<Rightarrow>
                (case new_totp_secret (ma_seed m) of
                   Inl e \<Rightarrow> Inl (SecretError e)
                 | Inr secret \<Rightarrow>
                     (case create_user (ma_now m) user hash secret d of
                        Inl e \<Rightarrow> Inl (CreateError e)
                      | Inr d' \<Rightarrow> Inr (secret, d')))))"

text \<open>A command's result: what it prints, and the database it leaves.\<close>

definition cmd_user_add :: "machine \<Rightarrow> flag_values \<Rightarrow> main_error + string \<times> db" where
  "cmd_user_add m vs =
     (let user = text_flag vs ''user'' '''' in
      if user = '''' then Inl NoUserFlag
      else (case load_config m (text_flag vs ''config'' ''amarre.yml'') of
              Inl e \<Rightarrow> Inl e
            | Inr cfg \<Rightarrow>
                (case ma_open m (cfg_state_db cfg) of
                   Inl e \<Rightarrow> Inl (OpenError e)
                 | Inr d \<Rightarrow>
                     (case ask_password m vs of
                        Inl e \<Rightarrow> Inl e
                      | Inr pw \<Rightarrow>
                          (case add_account m user pw d of
                             Inl e \<Rightarrow> Inl e
                           | Inr (secret, d') \<Rightarrow>
                               Inr ([newline] @ ''Compte '' @ u_laquo @ '' '' @ user @ '' '' @ u_raquo @
                                 fr '' cr~e~e.'' @ [newline] @ show_totp m user secret, d'))))))"

definition cmd_totp :: "machine \<Rightarrow> flag_values \<Rightarrow> main_error + string" where
  "cmd_totp m vs =
     (let user = text_flag vs ''user'' '''' in
      if user = '''' then Inl NoUserFlag
      else (case load_config m (text_flag vs ''config'' ''amarre.yml'') of
              Inl e \<Rightarrow> Inl e
            | Inr cfg \<Rightarrow>
                (case ma_open m (cfg_state_db cfg) of
                   Inl e \<Rightarrow> Inl (OpenError e)
                 | Inr d \<Rightarrow>
                     (case totp_secret user d of
                        Inl e \<Rightarrow> Inl (StoreError e)
                      | Inr secret \<Rightarrow>
                          if secret = '''' then Inl (NoSecondFactor user)
                          else Inr (show_totp m user secret)))))"

section \<open>main\<close>

datatype exit_status = Exit int

definition config_kinds :: "string \<rightharpoonup> flag_kind" where
  "config_kinds = [''config'' \<mapsto> TextFlag]"

definition with_flags ::
  "(string \<rightharpoonup> flag_kind) \<Rightarrow> string list \<Rightarrow> (flag_values \<Rightarrow> main_error option) \<Rightarrow> exit_status" where
  "with_flags kinds args run =
     (case parse_flags kinds Map.empty args of
        Parsed vs \<Rightarrow> (case run vs of None \<Rightarrow> Exit 0 | Some e \<Rightarrow> Exit 1)
      | HelpAsked \<Rightarrow> Exit 0
      | BadFlags \<Rightarrow> Exit 2)"

definition error_of :: "main_error + 'a \<Rightarrow> main_error option" where
  "error_of r = (case r of Inl e \<Rightarrow> Some e | Inr x \<Rightarrow> None)"

text \<open>\<open>main\<close>, on the arguments after the program's name.\<close>

definition amarre_main :: "machine \<Rightarrow> string list \<Rightarrow> exit_status" where
  "amarre_main m args =
     (case args of
        [] \<Rightarrow> Exit 2
      | cmd # rest \<Rightarrow>
          if cmd = ''serve''
          then with_flags (config_kinds(''known-hosts'' \<mapsto> TextFlag)) rest (cmd_serve m)
          else if cmd = ''useradd''
          then with_flags (config_kinds(''user'' \<mapsto> TextFlag, ''password-stdin'' \<mapsto> BoolFlag)) rest
            (\<lambda>vs. error_of (cmd_user_add m vs))
          else if cmd = ''totp''
          then with_flags (config_kinds(''user'' \<mapsto> TextFlag)) rest (\<lambda>vs. error_of (cmd_totp m vs))
          else if cmd = ''version'' then Exit 0
          else Exit 2)"

text \<open>What \<open>main\<close> itself prints, on the standard output and on the standard error.\<close>

definition usage :: "string \<Rightarrow> string" where
  "usage version =
     ''amarre '' @ version @ '' '' @ u_emdash @ '' console de sauvegarde restic de parc'' @ [CHR 0x0A, CHR 0x0A] @
     ''  amarre serve   --config amarre.yml'' @ [CHR 0x0A] @
     ''  amarre useradd --config amarre.yml --user <nom>'' @ [CHR 0x0A] @
     ''  amarre totp    --config amarre.yml --user <nom>   # r'' @ fr ''~eaffiche le QR code'' @ [CHR 0x0A] @
     ''  amarre version'' @ [CHR 0x0A]"

definition main_prints :: "string \<Rightarrow> string list \<Rightarrow> string \<times> string" where
  "main_prints version args =
     (case args of
        [] \<Rightarrow> ('''', usage version)
      | cmd # rest \<Rightarrow>
          if cmd \<in> {''serve'', ''useradd'', ''totp''} then ('''', '''')
          else if cmd = ''version'' then (''amarre '' @ version @ [CHR 0x0A], '''')
          else ('''', usage version))"

section \<open>Facts\<close>

text \<open>Who is shown the usage gets the status of a misuse.\<close>

lemma usage_fails: "main_prints version args = ('''', usage version) \<Longrightarrow> amarre_main m args = Exit 2"
  by (simp add: main_prints_def amarre_main_def usage_def split: list.splits if_splits)

lemma totp_code_digits: "c \<in> set (totp_code digest) \<Longrightarrow> \<exists>d<10. c = digit_char d"
proof -
  assume "c \<in> set (totp_code digest)"
  then consider "c = CHR ''0''" | n where "c \<in> set (show_nat n)"
    by (auto simp: totp_code_def pad6_def Let_def split: if_splits)
  then show ?thesis
  proof cases
    case 1
    then have "c = digit_char 0" by (simp add: digit_char_def)
    then show ?thesis by (intro exI [of _ 0]) simp
  next
    case 2
    then show ?thesis by (rule show_nat_chars)
  qed
qed

lemma trim_totp_code [simp]: "trim_space (totp_code digest) = totp_code digest"
proof (rule trim_space_visible)
  have ne: "totp_code digest \<noteq> []" using totp_code_length [of digest] by auto
  have vis: "visible (digit_char d)" if "d < 10" for d
    using that by (drule_tac less_10_cases) (auto simp: visible_def digit_char_def)
  have "visible c" if "c \<in> set (totp_code digest)" for c
    using totp_code_digits [OF that] vis by auto
  then show "totp_code digest = [] \<or> visible (hd (totp_code digest)) \<and> visible (last (totp_code digest))"
    using ne by simp
qed

lemma trim_right_prefix: "prefix (trim_right s) s"
  using strip_front_suffix [of "map rev space_runes" "rev s"]
  by (simp add: trim_right_def suffix_to_prefix)

lemma trim_space_idem: "trim_space (trim_space s) = trim_space s"
proof -
  let ?t = "trim_space s"
  have "\<not> has_prefix ?t w" if "w \<in> set space_runes" for w
  proof
    assume "has_prefix ?t w"
    then have "prefix w (trim_left s)"
      using trim_right_prefix [of "trim_left s"] prefix_order.trans
      by (auto simp: trim_space_def has_prefix_iff)
    then show False
      using strip_front_stuck [OF that space_runes_nonempty [OF that], of s]
      by (simp add: trim_left_def has_prefix_iff)
  qed
  then have "trim_left ?t = ?t" by (simp add: trim_left_def strip_front_id)
  moreover have "trim_right (trim_right u) = trim_right u" for u
  proof -
    let ?r = "strip_front (map rev space_runes) (rev u)"
    have "strip_front (map rev space_runes) ?r = ?r"
      by (rule strip_front_id) (use strip_front_stuck in blast)
    then show ?thesis by (simp add: trim_right_def)
  qed
  ultimately show ?thesis by (simp add: trim_space_def)
qed

lemma add_account_iff:
  "add_account m user pw d = Inr (secret, d') \<longleftrightarrow>
   12 \<le> length pw \<and> new_totp_secret (ma_seed m) = Inr secret \<and>
   (\<exists>hash. hash_password (ma_idkey m) (ma_salt m) pw = Inr hash \<and>
     create_user (ma_now m) user hash secret d = Inr d')"
  by (auto simp: add_account_def split: sum.splits if_splits)

text \<open>The account made is the one its name finds, and stays so when others are added.\<close>

lemma created_user_found:
  assumes "create_user now name hash secret d = Inr d'" and "prefix (db_users d') (db_users e)"
    and "\<not> db_fails e SSelectUser"
  shows "\<exists>i. user_by_name name e =
    Inr \<lparr>usr_id = i, usr_name = name, usr_hash = hash, usr_totp = secret\<rparr>"
proof -
  have "find (\<lambda>r. us_name r = name) (db_users d) = None"
    using assms(1) by (auto simp: find_None_set create_user_def split: if_splits)
  moreover obtain later where "db_users e = db_users d' @ later" using assms(2) by (auto simp: prefix_def)
  ultimately show ?thesis
    using assms(1,3) by (auto simp: create_user_def user_by_name_def find_append_None user_of_def str_of_def split: if_splits)
qed

lemma sublist_after: "sublist xs ys \<Longrightarrow> sublist xs (zs @ ys)"
  by (metis append_assoc sublist_def)

lemma printed_secret: "sublist secret (show_totp m user secret)"
  unfolding show_totp_def Let_def by ((rule sublist_append_rightI | rule sublist_after)+)

text \<open>What a successful \<open>useradd\<close> leaves behind.\<close>

lemma user_added:
  assumes "cmd_user_add m vs = Inr (printed, d)" and "ask_password m vs = Inr pw" and "ma_seed m = Some b"
    and "prefix (db_users d) (db_users e)" and "\<not> db_fails e SSelectUser"
  shows "\<exists>i hash. sublist (b32_encode b) printed \<and> hash_password (ma_idkey m) (ma_salt m) pw = Inr hash \<and>
    user_by_name (text_flag vs ''user'' '''') e =
      Inr \<lparr>usr_id = i, usr_name = text_flag vs ''user'' '''', usr_hash = hash, usr_totp = b32_encode b\<rparr>"
proof -
  let ?name = "text_flag vs ''user'' ''''"
  obtain d0 secret where add: "add_account m ?name pw d0 = Inr (secret, d)"
    and out: "printed = [newline] @ ''Compte '' @ u_laquo @ '' '' @ ?name @ '' '' @ u_raquo @
      fr '' cr~e~e.'' @ [newline] @ show_totp m ?name secret"
    using assms(1,2) by (auto simp: cmd_user_add_def Let_def split: sum.splits if_splits)
  obtain hash where made: "new_totp_secret (Some b) = Inr secret"
      "hash_password (ma_idkey m) (ma_salt m) pw = Inr hash"
      "create_user (ma_now m) ?name hash secret d0 = Inr d"
    using add assms(3) by (auto simp: add_account_iff)
  have secret: "secret = b32_encode b" using made(1) by (simp add: new_totp_secret_def)
  have "sublist (b32_encode b) printed"
    unfolding out secret by (intro sublist_after printed_secret)
  then show ?thesis using created_user_found [OF made(3) assms(4,5)] made(2) secret by blast
qed

section \<open>Property\<close>

text \<open>
  C38. An account made on the command line opens the console. Let \<open>useradd\<close> succeed, Argon2 behave as
  documented, and the console run on a database that still has the accounts there were then,
  others perhaps added behind them, and that answers the lookup of accounts. The secret that
  \<open>useradd\<close> prints and the password it read are then what the login asks for: when the name has
  no surrounding spaces, a form with a good form token, from an address that has attempts left,
  with that name, that password and the current code of that secret is let through to the
  session, for that account. For a name with surrounding spaces, which \<open>useradd\<close> also accepts, no
  form is ever accepted, on whatever database: the login trims the name it looks up.
\<close>

theorem created_account_logs_in:
  assumes "cmd_user_add m vs = Inr (printed, d)" and "name = text_flag vs ''user'' ''''"
    and "ask_password m vs = Inr pw" and "ma_seed m = Some b" and "b \<noteq> []"
    and "idkey_length (ma_idkey m)" and "ev_idkey ev = ma_idkey m"
    and "prefix (db_users d) (db_users (sv_db s))" and "\<not> db_fails (sv_db s) SSelectUser"
    and "rq_form_ok r" and "check_csrf r s"
    and "int (recent_attempts (sv_lim s) (remote_ip ev r) (ev_now ev)) < lim_max (sv_lim s)"
    and "rq_form r ''username'' = name" and "rq_form r ''password'' = pw"
    and "rq_form r ''totp'' = totp_code (ev_hmac ev b (be64 (totp_counter (ev_now ev))))"
  shows "sublist (b32_encode b) printed \<and>
    (trim_space name = name \<longrightarrow>
       (\<exists>u. usr_name u = name \<and> post_login ev r s =
          open_session ev r name u (s\<lparr>sv_lim := snd (allow (ev_now ev) (remote_ip ev r) (sv_lim s))\<rparr>))) \<and>
    (trim_space name \<noteq> name \<longrightarrow> (\<forall>ev' r' s' u. factors_ok ev' r' s' u \<longrightarrow> usr_name u \<noteq> name))"
proof (intro conjI impI allI)
  obtain i hash where out: "sublist (b32_encode b) printed"
    and hash: "hash_password (ma_idkey m) (ma_salt m) pw = Inr hash"
    and u: "user_by_name name (sv_db s) = Inr \<lparr>usr_id = i, usr_name = name, usr_hash = hash, usr_totp = b32_encode b\<rparr>"
    using user_added [OF assms(1,3,4,8,9)] unfolding assms(2) by blast
  show "sublist (b32_encode b) printed" by (rule out)
  let ?u = "\<lparr>usr_id = i, usr_name = name, usr_hash = hash, usr_totp = b32_encode b\<rparr>"
  show "\<exists>u. usr_name u = name \<and> post_login ev r s =
      open_session ev r name u (s\<lparr>sv_lim := snd (allow (ev_now ev) (remote_ip ev r) (sv_lim s))\<rparr>)"
    if "trim_space name = name"
  proof -
    obtain salt where salt: "ma_salt m = Some salt"
      using hash by (cases "ma_salt m") (auto simp: hash_password_def)
    then have "password_ok ev r ?u"
      using verify_password_hash [of "ma_idkey m" salt pw hash] hash assms by (simp add: password_ok_def)
    moreover have "totp_ok ev r ?u"
      using own_code_iff [of b "b32_encode b"] assms by (auto simp: totp_ok_def new_totp_secret_def intro!: bexI [of _ 0])
    ultimately have "factors_ok ev r s ?u"
      using assms that u by (simp add: factors_ok_def)
    then show ?thesis using post_login_cases [of ev r s ?u] that assms by (intro exI [of _ ?u]) simp
  qed
  fix ev' r' s' u
  assume trim: "trim_space name \<noteq> name" and "factors_ok ev' r' s' u"
  then have "usr_name u = trim_space (rq_form r' ''username'')"
    using user_by_name_row by (fastforce simp: factors_ok_def user_of_def)
  with trim show "usr_name u \<noteq> name" by (metis trim_space_idem)
qed

text \<open>An account is created on an empty database from standard input, then used.\<close>

definition demo_machine :: machine where
  "demo_machine = \<lparr>ma_home = ''/root'', ma_read = (\<lambda>_. Inr ''''), ma_stat = (\<lambda>_. True),
     ma_unyaml = (\<lambda>raw c. Inr (c\<lparr>cfg_fleet_key := ''k''\<rparr>)), ma_prefix = (\<lambda>_. None),
     ma_addr = (\<lambda>_. None), ma_parse_key = (\<lambda>_. None), ma_known_hosts = (\<lambda>_. None),
     ma_open = (\<lambda>_. Inr empty_db), ma_templates = None, ma_listen = (\<lambda>_. ServerClosed),
     ma_now = 0, ma_salt = Some [1, 2, 3], ma_seed = Some [4, 5], ma_idkey = ev_idkey demo_env,
     ma_stdin = (''correct horse'' @ [CHR 0x0D, newline], ''EOF''), ma_prompt = (\<lambda>_. Inl ''''),
     ma_width = None, ma_encode = (\<lambda>_. Inl ''data too long'')\<rparr>"

definition demo_flags :: flag_values where
  "demo_flags = [''user'' \<mapsto> ''admin'', ''password-stdin'' \<mapsto> ''true'']"

definition demo_form :: "string \<Rightarrow> string" where
  "demo_form k =
     (if k = ''username'' then ''admin'' else if k = ''password'' then ''correct horse''
      else if k = ''csrf'' then ''c''
      else totp_code (ev_hmac demo_env [4, 5] (be64 (totp_counter (ev_now demo_env)))))"

lemma demo_created:
  "\<exists>printed d. cmd_user_add demo_machine demo_flags = Inr (printed, d) \<and> db_fails d = (\<lambda>_. False)"
proof -
  have "ask_password demo_machine demo_flags = Inr ''correct horse''" by code_simp
  then show ?thesis
    by (simp add: cmd_user_add_def demo_flags_def text_flag_def load_config_def load_def demo_machine_def
        lift_error_def validate_def default_config_def add_account_def hash_password_def demo_env_def argon_defs
        new_totp_secret_def create_user_def empty_db_def Let_def)
qed

theorem created_account_logs_in_witness:
  "\<exists>printed d r s u. cmd_user_add demo_machine demo_flags = Inr (printed, d) \<and> sv_db s = d \<and>
     usr_name u = ''admin'' \<and> sublist (b32_encode [4, 5]) printed \<and>
     post_login demo_env r s = open_session demo_env r ''admin'' u
       (s\<lparr>sv_lim := snd (allow (ev_now demo_env) (remote_ip demo_env r) (sv_lim s))\<rparr>)"
proof -
  obtain printed d where d: "cmd_user_add demo_machine demo_flags = Inr (printed, d)" "db_fails d = (\<lambda>_. False)"
    using demo_created by blast
  let ?r = "demo_request\<lparr>rq_csrf := Some ''c'', rq_form := demo_form\<rparr>"
  let ?s = "new_server (new_collector d)"
  have name: "text_flag demo_flags ''user'' '''' = ''admin''" by (simp add: demo_flags_def text_flag_def)
  have pw: "ask_password demo_machine demo_flags = Inr ''correct horse''" by code_simp
  have db: "sv_db ?s = d" by (simp add: new_server_def new_collector_def)
  have seed: "ma_seed demo_machine = Some [4, 5]" "ev_idkey demo_env = ma_idkey demo_machine"
    by (simp_all add: demo_machine_def)
  have len: "idkey_length (ma_idkey demo_machine)"
    using demo_idkey by (simp add: demo_machine_def)
  have lim: "int (recent_attempts (sv_lim ?s) (remote_ip demo_env ?r) (ev_now demo_env)) < lim_max (sv_lim ?s)"
    by (simp add: new_server_def new_limiter_def recent_attempts_def kept_attempts_def attempts_of_def)
  have form: "rq_form_ok ?r" "check_csrf ?r ?s"
    by (simp_all add: check_csrf_def demo_request_def demo_form_def)
  have fields: "rq_form ?r ''username'' = ''admin''" "rq_form ?r ''password'' = ''correct horse''"
      "rq_form ?r ''totp'' = totp_code (ev_hmac demo_env [4, 5] (be64 (totp_counter (ev_now demo_env))))"
    by (simp_all add: demo_form_def)
  have "trim_space ''admin'' = ''admin''"
    by (rule trim_space_visible) (auto simp: visible_def)
  moreover have same: "prefix (db_users d) (db_users (sv_db ?s))" "\<not> db_fails (sv_db ?s) SSelectUser"
    by (simp_all add: db d)
  moreover note created_account_logs_in [OF d(1) name [symmetric] pw seed(1) _ len seed(2) same form lim fields]
  ultimately show ?thesis using d(1) db by blast
qed

end
