(* ===== verification/Amarre_Present.thy ===== *)
theory Amarre_Present
  imports Amarre_Sante
begin

text \<open>
  The template functions of package \<open>web\<close> (\<open>funcs.go\<close>) and its charts (\<open>charts.go\<close>): how sizes,
  ages, durations, states and outcomes are worded, and the SVG drawn on the server.

  Floating point is that of the theory of quantities: every operation the code does in
  \<open>float64\<close> is rounded, and \<open>fixed\<close> is \<open>%.kf\<close>, which rounds the exact value, ties to even. The
  layout of calendar times is a parameter. A panic is \<open>None\<close>.
\<close>

section \<open>Numbers\<close>

definition fixed :: "nat \<Rightarrow> rat \<Rightarrow> string" where
  "fixed k x =
     (let n = nat (round_even (\<bar>x\<bar> * 10 ^ k)); r = show_nat (n mod 10 ^ k);
          body = show_nat (n div 10 ^ k) @
            (if k = 0 then '''' else CHR ''.'' # replicate (k - length r) (CHR ''0'') @ r)
      in if x < 0 then CHR ''-'' # body else body)"

definition pct :: "int \<Rightarrow> int \<Rightarrow> string" where
  "pct a b = (if b = 0 then u_emdash else fixed 0 (f64 (f64 (f64 (of_int a) * 100) / f64 (of_int b))))"

function unit_loop :: "int \<Rightarrow> int \<Rightarrow> nat \<Rightarrow> int \<times> nat" where
  "unit_loop m dv ex = (if m \<ge> 1024 then unit_loop (m div 1024) (dv * 1024) (ex + 1) else (dv, ex))"
  by pat_completeness auto
termination by (relation "measure (\<lambda>(m, dv, ex). nat m)") auto

declare unit_loop.simps [simp del]

definition human_bytes :: "int \<Rightarrow> string option" where
  "human_bytes n =
     (if n < 1024 then Some (show_int n @ '' o'')
      else (case unit_loop (go_div n 1024) 1024 0 of
              (dv, ex) \<Rightarrow>
                if ex < length ''kMGTP''
                then Some (fixed 1 (f64 (f64 (of_int n) / f64 (of_int dv))) @ '' '' @ [''kMGTP'' ! ex] @ ''o'')
                else None))"

definition ratio_text :: "rat \<Rightarrow> string" where
  "ratio_text f = (if f \<le> 0 then u_emdash else fixed 2 f @ '' '' @ [CHR 0xC3, CHR 0x97])"

section \<open>Durations\<close>

text \<open>\<open>d.Minutes()\<close> and \<open>d.Seconds()\<close>, as \<open>Hours\<close>: whole units plus the rest.\<close>

definition in_units :: "duration \<Rightarrow> duration \<Rightarrow> rat" where
  "in_units d u =
     (let n = go_div d u; ns = d - n * u
      in f64 (f64 (of_int n) + f64 (f64 (of_int ns) / of_int u)))"

definition minutes :: "duration \<Rightarrow> rat" where "minutes d = in_units d minute"

definition seconds :: "duration \<Rightarrow> rat" where "seconds d = in_units d second"

definition age_text :: "duration \<Rightarrow> string" where
  "age_text d =
     (if d \<le> 0 then u_emdash
      else if d < minute then fr ''`a l'instant''
      else if d < hour then show_int (trunc (minutes d)) @ '' min''
      else if d < 48 * hour then show_int (trunc (hours d)) @ '' h''
      else show_int (trunc (f64 (hours d / 24))) @ '' j'')"

definition duration_text :: "duration \<Rightarrow> string" where
  "duration_text d =
     (if d \<le> 0 then u_emdash
      else if d < minute then fixed 0 (seconds d) @ '' s''
      else show_int (trunc (minutes d)) @ '' min '' @ pad2 (trunc (seconds d) mod 60))"

definition since_text :: "time \<Rightarrow> time \<Rightarrow> duration" where
  "since_text now t = (if is_zero t then 0 else time_sub now t)"

definition stamp_text :: "(string \<Rightarrow> time \<Rightarrow> string) \<Rightarrow> time \<Rightarrow> string" where
  "stamp_text fmt t = (if is_zero t then u_emdash else fmt ''02/01 15:04'' t)"

section \<open>Words\<close>

definition outcome_short :: "string \<Rightarrow> string" where
  "outcome_short s =
     (if s = fr ''succ`es'' then fr ''succ`es''
      else if s = fr ''demand~e'' then fr ''demand~e''
      else if has_prefix s (fr ''refus~e'') then fr ''refus~e''
      else if has_prefix s (fr ''~echec'') then fr ''~echec''
      else fr ''~echec'')"

definition outcome_class :: "string \<Rightarrow> string" where
  "outcome_class s =
     (if s = fr ''succ`es'' then ''o-ok''
      else if s = fr ''demand~e'' then ''o-mute''
      else if has_prefix s (fr ''refus~e'') then ''o-warn''
      else ''o-crit'')"

definition state_label :: "string \<Rightarrow> string" where
  "state_label s =
     (if s = ''ok'' then fr ''`a jour''
      else if s = ''overdue'' then fr ''~ech~eance d~epass~ee''
      else if s = ''nobackup'' then ''aucune sauvegarde''
      else ''injoignable'')"

text \<open>\<open>dict\<close> on a flat list: a key that is not a string is skipped with its value, a last key
  without value too.\<close>

fun dict :: "('v \<Rightarrow> string option) \<Rightarrow> 'v list \<Rightarrow> (string \<rightharpoonup> 'v) \<Rightarrow> string \<rightharpoonup> 'v" where
  "dict str (k # v # kvs) m = dict str kvs (case str k of None \<Rightarrow> m | Some s \<Rightarrow> m(s \<mapsto> v))"
| "dict str _ m = m"

section \<open>Shortening\<close>

definition byte :: "char \<Rightarrow> nat" where "byte c = of_char c"

text \<open>A string as Go's runes: valid UTF-8 sequences, any other byte read as U+FFFD.\<close>

definition follow :: "nat \<Rightarrow> nat \<Rightarrow> nat \<Rightarrow> string \<Rightarrow> bool" where
  "follow n lo hi r \<longleftrightarrow> length (take n r) = n \<and> lo \<le> byte (hd r) \<and> byte (hd r) \<le> hi \<and>
     (\<forall>c\<in>set (take n r). 0x80 \<le> byte c \<and> byte c \<le> 0xBF)"

fun rune_width :: "string \<Rightarrow> nat option" where
  "rune_width [] = None"
| "rune_width (c # r) =
     (let b = byte c in
      if b < 0x80 then Some 1
      else if 0xC2 \<le> b \<and> b \<le> 0xDF \<and> follow 1 0x80 0xBF r then Some 2
      else if b = 0xE0 \<and> follow 2 0xA0 0xBF r then Some 3
      else if b = 0xED \<and> follow 2 0x80 0x9F r then Some 3
      else if 0xE1 \<le> b \<and> b \<le> 0xEF \<and> b \<noteq> 0xED \<and> follow 2 0x80 0xBF r then Some 3
      else if b = 0xF0 \<and> follow 3 0x90 0xBF r then Some 4
      else if 0xF1 \<le> b \<and> b \<le> 0xF3 \<and> follow 3 0x80 0xBF r then Some 4
      else if b = 0xF4 \<and> follow 3 0x80 0x8F r then Some 4
      else None)"

definition rune_error :: string where "rune_error = [CHR 0xEF, CHR 0xBF, CHR 0xBD]"

function runes :: "string \<Rightarrow> string list" where
  "runes s =
     (case s of
        [] \<Rightarrow> []
      | c # r \<Rightarrow>
          (case rune_width s of
             None \<Rightarrow> rune_error # runes r
           | Some k \<Rightarrow> take (Suc (k - 1)) s # runes (drop (k - 1) r)))"
  by pat_completeness auto
termination by (relation "measure length") auto

declare runes.simps [simp del] rune_width.simps [simp del]

definition short_text :: "int \<Rightarrow> string \<Rightarrow> string option" where
  "short_text n s =
     (let r = runes s in
      if int (length r) \<le> n then Some s
      else if n < 1 then None
      else Some (concat (take (nat (n - 1)) r) @ u_ellipsis))"

section \<open>Sparkline\<close>

text \<open>
  A chart is computed as numbers first, then the markup around them. Coordinates are printed
  with one decimal.
\<close>

definition range_step :: "int \<times> int \<Rightarrow> int \<Rightarrow> int \<times> int" where
  "range_step r v = (if v < fst r then v else fst r, if v > snd r then v else snd r)"

definition spark_range :: "int list \<Rightarrow> int \<times> int" where
  "spark_range vals = foldl range_step (hd vals, hd vals) vals"

definition spark_y :: "rat \<Rightarrow> int \<Rightarrow> rat \<Rightarrow> int \<Rightarrow> rat" where
  "spark_y h mn spread v =
     f64 (f64 (h - 2) - f64 (f64 (f64 (of_int (wrap64 (v - mn))) / spread) * f64 (h - 5)))"

definition spark_points :: "int list \<Rightarrow> rat \<Rightarrow> rat \<Rightarrow> (rat \<times> rat) list" where
  "spark_points vals w h =
     (let (mn, mx) = spark_range vals;
          spread0 = f64 (of_int (wrap64 (mx - mn)));
          spread = (if spread0 = 0 then 1 else spread0);
          step = f64 (w / f64 (of_int (int (length vals) - 1)))
      in map (\<lambda>i. (if i = 0 then 0 else f64 (f64 (of_int (int i)) * step), spark_y h mn spread (vals ! i)))
           [0..<length vals])"

definition svg_point :: "string \<Rightarrow> rat \<times> rat \<Rightarrow> string" where
  "svg_point cmd p = cmd @ fixed 1 (fst p) @ '' '' @ fixed 1 (snd p)"

definition svg_path :: "(rat \<times> rat) list \<Rightarrow> string" where
  "svg_path ps = (case ps of [] \<Rightarrow> '''' | p # qs \<Rightarrow> svg_point ''M'' p @ concat (map (svg_point '' L'') qs))"

definition muted :: "string \<Rightarrow> string" where
  "muted s = ''<span class='' @ [CHR 0x22] @ ''muted'' @ [CHR 0x22] @ ''>'' @ s @ ''</span>''"

definition spark_svg :: "int list \<Rightarrow> rat \<Rightarrow> rat \<Rightarrow> string" where \<open>
  spark_svg vals w h =
    (if length vals < 2 then muted u_emdash
     else let ps = spark_points vals w h; d = svg_path ps
       in ''<svg width="'' @ fixed 0 w @ ''" height="'' @ fixed 0 h @ ''" viewBox="0 0 '' @ fixed 0 w @
          '' '' @ fixed 0 h @ ''" preserveAspectRatio="none" '' @
          ''style="max-width:100%" aria-hidden="true">'' @
          ''<path d="'' @ d @ '' L'' @ fixed 1 w @ '' '' @ fixed 0 h @ '' L0 '' @ fixed 0 h @
          '' Z" fill="var(--accent)" opacity=".10"/>'' @
          ''<path d="'' @ d @ ''" fill="none" stroke="var(--accent)" stroke-width="2" '' @
          ''stroke-linejoin="round" stroke-linecap="round" vector-effect="non-scaling-stroke"/>'' @
          ''<circle cx="'' @ fixed 1 (fst (last ps)) @ ''" cy="'' @ fixed 1 (snd (last ps)) @
          ''" r="2.6" fill="var(--accent)" '' @
          ''stroke="var(--surface)" stroke-width="2"/></svg>'')\<close>

definition sparkline :: "int list \<Rightarrow> string" where "sparkline vals = spark_svg vals 84 20"

definition sparkline_from_checks :: "check list \<Rightarrow> string" where
  "sparkline_from_checks cs = spark_svg (map ck_size cs) 640 60"

section \<open>Bars and curves\<close>

definition ch_w :: rat where "ch_w = 320"
definition ch_h :: rat where "ch_h = 118"
definition pad_l :: rat where "pad_l = 34"
definition pad_r :: rat where "pad_r = 6"
definition pad_t :: rat where "pad_t = 8"
definition pad_b :: rat where "pad_b = 20"

definition inner_w :: rat where "inner_w = ch_w - pad_l - pad_r"
definition inner_h :: rat where "inner_h = ch_h - pad_t - pad_b"

lemmas chart_consts = ch_w_def ch_h_def pad_l_def pad_r_def pad_t_def pad_b_def inner_w_def inner_h_def

definition axis_line :: "rat \<Rightarrow> (rat \<Rightarrow> string) \<Rightarrow> rat \<Rightarrow> string" where \<open>
  axis_line peak fmt i =
    (let y = f64 (f64 (pad_t + inner_h) - f64 (f64 (inner_h * i) / 2))
     in ''<line x1="'' @ fixed 0 pad_l @ ''" y1="'' @ fixed 1 y @ ''" x2="'' @ fixed 0 (ch_w - pad_r) @
        ''" y2="'' @ fixed 1 y @ ''" stroke="var(--grid)" stroke-width="1"/>'' @
        ''<text x="'' @ fixed 1 (pad_l - 5) @ ''" y="'' @ fixed 1 (f64 (y + 3)) @
        ''" text-anchor="end" font-family="ui-monospace,monospace" '' @
        ''font-size="9" fill="var(--ink-3)">'' @ fmt (f64 (f64 (peak * i) / 2)) @ ''</text>'')\<close>

definition axes :: "rat \<Rightarrow> (rat \<Rightarrow> string) \<Rightarrow> string" where
  "axes peak fmt = concat (map (axis_line peak fmt) [0, 1, 2])"

definition chart_open :: "string \<Rightarrow> string" where \<open>
  chart_open label =
    ''<svg viewBox="0 0 '' @ fixed 0 ch_w @ '' '' @ fixed 0 ch_h @
    ''" style="width:100%;height:auto" role="img" '' @ ''aria-label="'' @ label @ ''">''\<close>

text \<open>The largest value, or one, with headroom.\<close>

definition chart_top :: "rat \<Rightarrow> rat list \<Rightarrow> rat" where
  "chart_top headroom vs =
     (let m = foldl (\<lambda>m v. if v > m then v else m) 0 vs
      in f64 ((if m = 0 then 1 else m) * f64 headroom))"

record bar_box =
  bb_x :: rat
  bb_y :: rat
  bb_w :: rat
  bb_h :: rat
  bb_r :: rat

definition place_bar :: "nat \<Rightarrow> rat \<Rightarrow> nat \<Rightarrow> int \<Rightarrow> bar_box" where
  "place_bar n peak i packed =
     (let bw = f64 (inner_w / f64 (of_int (int n)));
          h0 = f64 (f64 (f64 (of_int packed) / peak) * inner_h);
          h = (if h0 < 2 then 2 else h0);
          w0 = f64 (bw - 2); w = (if w0 < 1 then 1 else w0);
          r1 = (if 4 > h then h else 4); r = (if r1 > f64 (w / 2) then f64 (w / 2) else r1)
      in \<lparr>bb_x = f64 (f64 (pad_l + f64 (f64 (of_int (int i)) * bw)) + 1),
          bb_y = f64 (f64 (pad_t + inner_h) - h), bb_w = w, bb_h = h, bb_r = r\<rparr>)"

text \<open>The charts have a copy of their own.\<close>

definition chart_bytes :: "int \<Rightarrow> string option" where
  "chart_bytes n =
     (if n < 1024 then Some (show_int n @ '' o'')
      else (case unit_loop (go_div n 1024) 1024 0 of
              (dv, ex) \<Rightarrow>
                if ex < length ''kMGTP''
                then Some (fixed 1 (f64 (f64 (of_int n) / f64 (of_int dv))) @ '' '' @ [''kMGTP'' ! ex] @ ''o'')
                else None))"

lemma chart_bytes_same: "chart_bytes = human_bytes"
  by (simp add: fun_eq_iff chart_bytes_def human_bytes_def)

definition map_opacity :: "int \<Rightarrow> rat \<Rightarrow> rat" where
  "map_opacity v peak =
     (if f64 (of_int v) \<ge> f64 (f64 (peak / f64 (112 / 100)) * f64 (999 / 1000)) then 1 else f64 (72 / 100))"

definition bar_svg :: "(string \<Rightarrow> time \<Rightarrow> string) \<Rightarrow> rat \<Rightarrow> bar_box \<Rightarrow> snapshot \<Rightarrow> string option" where \<open>
  bar_svg fmt peak b s =
    (let x = bb_x b; y = bb_y b; w = bb_w b; h = bb_h b; r = bb_r b;
         p = (\<lambda>x y. fixed 1 x @ '' '' @ fixed 1 y); xw = f64 (x + w)
     in map_option (\<lambda>size.
       ''<path d="M'' @ p x (f64 (y + h)) @ '' L'' @ p x (f64 (y + r)) @
       '' Q'' @ p x y @ '' '' @ p (f64 (x + r)) y @ '' L'' @ p (f64 (xw - r)) y @ '' '' @
       ''Q'' @ p xw y @ '' '' @ p xw (f64 (y + r)) @ '' L'' @ p xw (f64 (y + h)) @
       '' Z" fill="var(--accent)" opacity="'' @ fixed 2 (map_opacity (sn_packed s) peak) @ ''"><title>'' @
       fmt ''02/01 15:04'' (sn_time s) @ '' '' @ u_emdash @ '' '' @ size @ ''</title></path>'')
       (chart_bytes (sn_packed s)))\<close>

fun all_some :: "'a option list \<Rightarrow> 'a list option" where
  "all_some [] = Some []"
| "all_some (None # xs) = None"
| "all_some (Some x # xs) = map_option ((#) x) (all_some xs)"

definition bar_chart :: "(string \<Rightarrow> time \<Rightarrow> string) \<Rightarrow> snapshot list \<Rightarrow> string option" where
  "bar_chart fmt snaps =
     (if snaps = [] then Some (muted (fr ''Pas de donn~ees.''))
      else let peak = chart_top (112 / 100) (map (\<lambda>s. f64 (of_int (sn_packed s))) snaps)
        in map_option (\<lambda>bars.
             chart_open (fr ''Volume ajout~e au d~ep^ot par sauvegarde'') @
             axes peak (\<lambda>v. fixed 0 (f64 (v / 1000000))) @ concat bars @ ''</svg>'')
           (all_some (map (\<lambda>i. bar_svg fmt peak (place_bar (length snaps) peak i (sn_packed (snaps ! i))) (snaps ! i))
              [0..<length snaps])))"

text \<open>\<open>d.Round(m)\<close>: to the nearest multiple, halves away from zero.\<close>

definition duration_round :: "duration \<Rightarrow> duration \<Rightarrow> duration" where
  "duration_round m d =
     (let r = \<bar>d - go_div d m * m\<bar> in
      if d < 0
      then (if r + r < m then d + r else if in_int64 (d - m + r) then d - m + r else - (2 ^ 63))
      else (if r + r < m then d - r else if in_int64 (d + m - r) then d + m - r else 2 ^ 63 - 1))"

definition line_points :: "snapshot list \<Rightarrow> rat \<Rightarrow> (rat \<times> rat) list" where
  "line_points snaps peak =
     (let step = f64 (inner_w / f64 (of_int (int (length snaps) - 1)))
      in map (\<lambda>i. (f64 (pad_l + f64 (f64 (of_int (int i)) * step)),
             f64 (f64 (pad_t + inner_h) - f64 (f64 (seconds (sn_duration (snaps ! i)) / peak) * inner_h))))
           [0..<length snaps])"

definition dot_svg :: "(string \<Rightarrow> time \<Rightarrow> string) \<Rightarrow> bool \<Rightarrow> rat \<times> rat \<Rightarrow> snapshot \<Rightarrow> string" where \<open>
  dot_svg fmt final p s =
    ''<circle cx="'' @ fixed 1 (fst p) @ ''" cy="'' @ fixed 1 (snd p) @ ''" r="'' @
    (if final then ''3.6'' else ''2.4'') @ ''" fill="var(--accent)" '' @
    ''stroke="var(--surface)" stroke-width="2"><title>'' @ fmt ''02/01 15:04'' (sn_time s) @ '' '' @ u_emdash @
    '' '' @ duration_string (duration_round second (sn_duration s)) @ ''</title></circle>''\<close>

definition line_chart :: "(string \<Rightarrow> time \<Rightarrow> string) \<Rightarrow> snapshot list \<Rightarrow> string" where \<open>
  line_chart fmt snaps =
    (if length snaps < 2 then muted (fr ''Deux sauvegardes sont n~ecessaires pour une courbe.'')
     else let peak = chart_top (115 / 100) (map (\<lambda>s. seconds (sn_duration s)) snaps);
              ps = line_points snaps peak; d = svg_path ps
       in chart_open (fr ''Dur~ee des sauvegardes'') @ axes peak (\<lambda>v. fixed 0 v @ ''s'') @
          ''<path d="'' @ d @ '' L'' @ svg_point '''' (fst (last ps), f64 (pad_t + inner_h)) @
          '' L'' @ svg_point '''' (pad_l, f64 (pad_t + inner_h)) @
          '' Z" fill="var(--accent)" opacity=".09"/>'' @
          ''<path d="'' @ d @ ''" fill="none" stroke="var(--accent)" stroke-width="2" '' @
          ''stroke-linejoin="round" stroke-linecap="round"/>'' @
          concat (map (\<lambda>i. dot_svg fmt (i = length snaps - 1) (ps ! i) (snaps ! i)) [0..<length snaps]) @
          ''</svg>'')\<close>

section \<open>The remaining template functions\<close>

definition tpl_add :: "int \<Rightarrow> int \<Rightarrow> int" where "tpl_add a b = wrap64 (a + b)"

definition join_text :: "string list \<Rightarrow> string" where "join_text ss = join_with ''  '' ss"

text \<open>A host without an evaluated state comes as a zero record, whose name is empty.\<close>

definition tpl_combined :: "host_view \<Rightarrow> sante \<Rightarrow> string" where
  "tpl_combined v s = combined v s (sa_name s \<noteq> '''')"

end
