(* ===== verification/Amarre_Present_Facts.thy ===== *)
theory Amarre_Present_Facts
  imports Amarre_Present
begin

text \<open>
  What the template functions and the sparkline guarantee: sizes are readable to a tenth and
  have a unit up to a bound, shortened texts keep to their length and to rune boundaries, and
  the points of a sparkline are printed inside the drawing.
\<close>

section \<open>Rounding\<close>

lemma round_even_ge: "of_int m - 1 / 2 < x \<Longrightarrow> m \<le> round_even x"
proof -
  assume "of_int m - 1 / 2 < x"
  then have "of_int m - 1 < (of_int (round_even x) :: rat)" using round_even_near [of x] by linarith
  then have "of_int (m - 1) < (of_int (round_even x) :: rat)" by simp
  then show ?thesis by (simp only: of_int_less_iff)
qed

lemma round_even_le: "x < of_int m + 1 / 2 \<Longrightarrow> round_even x \<le> m"
proof -
  assume "x < of_int m + 1 / 2"
  then have "(of_int (round_even x) :: rat) < of_int m + 1" using round_even_near [of x] by linarith
  then have "(of_int (round_even x) :: rat) < of_int (m + 1)" by simp
  then show ?thesis by (simp only: of_int_less_iff)
qed

lemma f64_quotient:
  assumes "0 \<le> a" and "0 < b"
  shows "f64 (f64 a / f64 b) \<le> a / b * (1 + 1 / 10 ^ 12)" "a / b * (1 - 1 / 10 ^ 12) \<le> f64 (f64 a / f64 b)"
    "0 \<le> f64 (f64 a / f64 b)" "0 < f64 b"
proof -
  define u :: rat where "u = 1 / 2 ^ 53"
  have u: "0 < u" "0 < 1 - u" by (simp_all add: u_def)
  note B = f64_bounds [folded u_def]
  have a: "0 \<le> f64 a" "f64 a \<le> a * (1 + u)" "a * (1 - u) \<le> f64 a" using B [OF assms(1)] by simp_all
  have b: "b * (1 - u) \<le> f64 b" "f64 b \<le> b * (1 + u)" using B [of b] assms(2) by simp_all
  have bp: "0 < b * (1 - u)" using assms(2) u(2) by (rule mult_pos_pos)
  with b show fb: "0 < f64 b" by linarith
  have q: "0 \<le> f64 a / f64 b" using a(1) fb by simp
  show "0 \<le> f64 (f64 a / f64 b)" by (rule B(3) [OF q])
  have "f64 a / f64 b \<le> (a * (1 + u)) / (b * (1 - u))"
    using a b bp fb assms u by (intro frac_le) auto
  then have "f64 a / f64 b * (1 + u) \<le> (a * (1 + u)) / (b * (1 - u)) * (1 + u)"
    using u by (intro mult_right_mono) auto
  also have "\<dots> = a / b * ((1 + u) * (1 + u) / (1 - u))" by simp
  also have "(1 + u) * (1 + u) / (1 - u) \<le> 1 + 1 / 10 ^ 12" by (simp add: u_def)
  then have "a / b * ((1 + u) * (1 + u) / (1 - u)) \<le> a / b * (1 + 1 / 10 ^ 12)"
    using assms by (intro mult_left_mono) auto
  finally show "f64 (f64 a / f64 b) \<le> a / b * (1 + 1 / 10 ^ 12)" using B(1) [OF q] by linarith
  have "(a * (1 - u)) / (b * (1 + u)) \<le> f64 a / f64 b"
    using a b fb assms u by (intro frac_le) auto
  then have "(a * (1 - u)) / (b * (1 + u)) * (1 - u) \<le> f64 a / f64 b * (1 - u)"
    using u by (intro mult_right_mono) auto
  moreover have "(a * (1 - u)) / (b * (1 + u)) * (1 - u) = a / b * ((1 - u) * (1 - u) / (1 + u))" by simp
  moreover have "a / b * (1 - 1 / 10 ^ 12) \<le> a / b * ((1 - u) * (1 - u) / (1 + u))"
    using assms by (intro mult_left_mono) (auto simp: u_def)
  ultimately show "a / b * (1 - 1 / 10 ^ 12) \<le> f64 (f64 a / f64 b)" using B(2) [OF q] by linarith
qed

section \<open>Sizes\<close>

lemma unit_loop_spec:
  "0 < m \<Longrightarrow> \<exists>j. unit_loop m dv ex = (dv * 1024 ^ j, ex + j) \<and> 1024 ^ j \<le> m \<and> m < 1024 ^ (j + 1)"
proof (induction m dv ex rule: unit_loop.induct)
  case (1 m dv ex)
  show ?case
  proof (cases "m \<ge> 1024")
    case True
    then obtain j where j: "unit_loop (m div 1024) (dv * 1024) (ex + 1) = (dv * 1024 * 1024 ^ j, ex + 1 + j)"
        "1024 ^ j \<le> m div 1024" "m div 1024 < 1024 ^ (j + 1)"
      using 1 by fastforce
    have "1024 * 1024 ^ j \<le> m" using j(2) by linarith
    moreover have "m < 1024 * 1024 ^ (j + 1)" using j(3) by linarith
    ultimately have "1024 ^ (j + 1) \<le> m" "m < 1024 ^ (j + 1 + 1)" by simp_all
    with j(1) True show ?thesis by (intro exI [of _ "j + 1"]) (simp add: unit_loop.simps [of m])
  next
    case False
    with 1 show ?thesis by (intro exI [of _ 0]) (simp add: unit_loop.simps [of m])
  qed
qed

lemma fixed_tenths:
  assumes "0 \<le> x"
  shows "fixed 1 x = (let n = nat (round_even (x * 10)) in show_nat (n div 10) @ ''.'' @ [digit_char (n mod 10)])"
proof -
  have "show_nat (n mod 10) = [digit_char (n mod 10)]" for n
    by (simp add: show_nat.simps [of "n mod 10"])
  with assms show ?thesis by (simp add: fixed_def Let_def)
qed

lemma human_bytes_unit:
  assumes "1024 \<le> n"
  shows "\<exists>j. unit_loop (go_div n 1024) 1024 0 = (1024 ^ (j + 1), j) \<and> 1024 ^ (j + 1) \<le> n \<and> n < 1024 ^ (j + 2)"
proof -
  have "go_div n 1024 = n div 1024" using assms by simp
  moreover have "0 < n div 1024" using assms by (simp add: pos_imp_zdiv_pos_iff)
  then obtain j where j: "unit_loop (n div 1024) 1024 0 = (1024 * 1024 ^ j, 0 + j)"
      "1024 ^ j \<le> n div 1024" "n div 1024 < 1024 ^ (j + 1)"
    using unit_loop_spec [of "n div 1024" 1024 0] by blast
  have "1024 * 1024 ^ j \<le> n" using j(2) by linarith
  moreover have "n < 1024 * 1024 ^ (j + 1)" using j(3) by linarith
  ultimately show ?thesis using j(1) by (intro exI [of _ j]) simp
qed

text \<open>A quotient below 1024, computed in floating point and printed to the tenth.\<close>

lemma tenth_error:
  fixes n d :: rat
  assumes "0 \<le> n" "0 < d" "n < 1024 * d"
  defines "y \<equiv> f64 (f64 n / f64 d)"
  shows "0 \<le> y" "\<bar>of_nat (nat (round_even (y * 10))) - 10 * (n / d)\<bar> \<le> 1 / 2 + 1 / 10 ^ 6"
proof -
  define x where "x = n / d"
  have x: "0 \<le> x" "x < 1024" using assms by (simp_all add: x_def pos_divide_less_eq)
  have y: "y \<le> x * (1 + 1 / 10 ^ 12)" "x * (1 - 1 / 10 ^ 12) \<le> y" "0 \<le> y"
    using f64_quotient [OF assms(1,2)] by (simp_all add: x_def y_def)
  then show "0 \<le> y" by simp
  have "x * (1 + 1 / 10 ^ 12) = x + x / 10 ^ 12" "x * (1 - 1 / 10 ^ 12) = x - x / 10 ^ 12"
    by (simp_all add: distrib_left right_diff_distrib)
  with y(1,2) have "y \<le> x + x / 10 ^ 12" "x - x / 10 ^ 12 \<le> y" by simp_all
  moreover have "x / 10 ^ 12 \<le> 1024 / 10 ^ 12" using x by (intro divide_right_mono) auto
  moreover have "(1024 / 10 ^ 12 :: rat) \<le> 1 / 10 ^ 7" by simp
  ultimately have "y \<le> x + 1 / 10 ^ 7" "x - 1 / 10 ^ 7 \<le> y" by linarith+
  then have near: "\<bar>y * 10 - 10 * x\<bar> \<le> 1 / 10 ^ 6" unfolding abs_le_iff by simp_all
  have "0 \<le> round_even (y * 10)" by (rule round_even_ge) (use y(3) in simp)
  then have "of_nat (nat (round_even (y * 10))) = (of_int (round_even (y * 10)) :: rat)" by simp
  with near round_even_near [of "y * 10"]
  show "\<bar>of_nat (nat (round_even (y * 10))) - 10 * (n / d)\<bar> \<le> 1 / 2 + 1 / 10 ^ 6"
    unfolding x_def by linarith
qed

text \<open>
  C40. Sizes. From one kibioctet on, a size is printed with one decimal and the unit whose power
  of 1024 it lies above and below the next of, and the printed number is the size in that unit,
  rounded to a tenth (the two floating-point operations before the rounding may shift it by a
  millionth of a tenth, which matters only for a size that close to the middle of two tenths).
  From 2 to the 60 octets on there is no unit: the code indexes past its table and panics.
\<close>

theorem bytes_readable:
  assumes "1024 \<le> n"
  shows "if n < 2 ^ 60
    then \<exists>k t. k < 5 \<and> 1024 ^ (k + 1) \<le> n \<and> n < 1024 ^ (k + 2) \<and>
      human_bytes n = Some (show_nat (t div 10) @ ''.'' @ [digit_char (t mod 10)] @ '' '' @ [''kMGTP'' ! k] @ ''o'') \<and>
      \<bar>of_nat t - 10 * (of_int n / 1024 ^ (k + 1))\<bar> \<le> (1 / 2 + 1 / 10 ^ 6 :: rat)
    else human_bytes n = None"
proof -
  obtain k where k: "unit_loop (go_div n 1024) 1024 0 = (1024 ^ (k + 1), k)"
      "1024 ^ (k + 1) \<le> n" "n < 1024 ^ (k + 2)"
    using human_bytes_unit [OF assms] by blast
  show ?thesis
  proof (cases "n < 2 ^ 60")
    case True
    have "k < 5"
    proof (rule ccontr)
      assume "\<not> k < 5"
      then have "(1024::int) ^ 6 \<le> 1024 ^ (k + 1)" by (intro power_increasing) auto
      with k(2) True show False by simp
    qed
    define d :: rat where "d = 1024 ^ (k + 1)"
    define y where "y = f64 (f64 (of_int n) / f64 (of_int (1024 ^ (k + 1))))"
    have "(of_int n :: rat) < of_int (1024 ^ (k + 2))" using k(3) by (simp only: of_int_less_iff)
    then have d: "of_int n < 1024 * d" "0 < d" "of_int (1024 ^ (k + 1)) = d" by (simp_all add: d_def)
    have y: "0 \<le> y" "\<bar>of_nat (nat (round_even (y * 10))) - 10 * (of_int n / d)\<bar> \<le> 1 / 2 + 1 / 10 ^ 6"
      using tenth_error [OF _ d(2,1)] assms unfolding y_def d(3) by simp_all
    define t where "t = nat (round_even (y * 10))"
    have "human_bytes n =
        Some (show_nat (t div 10) @ ''.'' @ [digit_char (t mod 10)] @ '' '' @ [''kMGTP'' ! k] @ ''o'')"
      using assms k(1) \<open>k < 5\<close> fixed_tenths [OF y(1)] by (simp add: human_bytes_def y_def t_def Let_def)
    with y(2) True k(2,3) \<open>k < 5\<close> show ?thesis by (auto simp: t_def d_def)
  next
    case False
    have "\<not> k < 5"
    proof
      assume "k < 5"
      then have "(1024::int) ^ (k + 2) \<le> 1024 ^ 6" by (intro power_increasing) auto
      with k(3) False show False by simp
    qed
    with assms k(1) False show ?thesis by (simp add: human_bytes_def)
  qed
qed

theorem bytes_readable_witness:
  "(\<exists>k t. 1024 ^ (k + 1) \<le> (1536::int) \<and> 1536 < (1024::int) ^ (k + 2) \<and>
      human_bytes 1536 = Some (show_nat (t div 10) @ ''.'' @ [digit_char (t mod 10)] @ '' '' @ [''kMGTP'' ! k] @ ''o'')) \<and>
   human_bytes (2 ^ 60) = None"
proof -
  have "(1536::int) < 2 ^ 60" "\<not> (2 ^ 60 :: int) < 2 ^ 60" by simp_all
  with bytes_readable [of 1536] bytes_readable [of "2 ^ 60"] show ?thesis by auto
qed

section \<open>Shortened texts\<close>

lemma follow_take: "follow n lo hi r \<Longrightarrow> 0 < n \<Longrightarrow> follow n lo hi (take n r @ t)"
  by (cases r) (auto simp: follow_def hd_append split: if_splits)

lemma follow_length: "follow n lo hi r \<Longrightarrow> n \<le> length r"
  unfolding follow_def by (metis length_take min.cobounded1)

lemma rune_width_take:
  assumes "rune_width s = Some k"
  shows "0 < k" "k \<le> length s" "rune_width (take k s @ t) = Some k"
proof -
  obtain c r where s: "s = c # r" using assms by (cases s) (auto simp: rune_width.simps)
  show "0 < k" "k \<le> length s"
    using assms unfolding s rune_width.simps Let_def
    by (auto split: if_splits dest!: follow_length)
  show "rune_width (take k s @ t) = Some k"
    using assms unfolding s rune_width.simps Let_def
    by (auto split: if_splits simp: rune_width.simps follow_take
        numeral_2_eq_2 [symmetric] numeral_3_eq_3 [symmetric])
qed

text \<open>A rune is a text that reads as one rune; reading a sequence of them gives it back.\<close>

definition one_rune :: "string \<Rightarrow> bool" where
  "one_rune w \<longleftrightarrow> rune_width w = Some (length w)"

lemma one_rune_error: "one_rune rune_error" "one_rune u_ellipsis"
  by (simp_all add: one_rune_def rune_error_def u_ellipsis_def rune_width.simps byte_def follow_def)

lemma runes_some: "rune_width s = Some k \<Longrightarrow> runes s = take k s # runes (drop k s)"
proof -
  assume k: "rune_width s = Some k"
  then obtain c r where s: "s = c # r" by (cases s) (auto simp: rune_width.simps)
  obtain j where "k = Suc j" using rune_width_take(1) [OF k] gr0_implies_Suc by blast
  with k s show ?thesis by (simp add: runes.simps [of "c # r"])
qed

lemma runes_append: "one_rune w \<Longrightarrow> runes (w @ t) = w # runes t"
proof -
  assume w: "one_rune w"
  then have "rune_width (w @ t) = Some (length w)"
    using rune_width_take(3) [of w "length w" t] by (simp add: one_rune_def)
  then show ?thesis by (simp add: runes_some)
qed

lemma runes_concat: "(\<And>w. w \<in> set ws \<Longrightarrow> one_rune w) \<Longrightarrow> runes (concat ws @ t) = ws @ runes t"
  by (induction ws) (simp_all add: runes_append)

lemma runes_one: "w \<in> set (runes s) \<Longrightarrow> one_rune w"
proof (induction s rule: runes.induct)
  case (1 s)
  show ?case
  proof (cases s)
    case Nil
    with 1 show ?thesis by (simp add: runes.simps)
  next
    case (Cons c r)
    show ?thesis
    proof (cases "rune_width s")
      case None
      with 1 Cons show ?thesis by (auto simp: runes.simps [of "c # r"] one_rune_error)
    next
      case (Some k)
      have "one_rune (take k s)"
        using rune_width_take(2) [OF Some] rune_width_take(3) [OF Some, of "[]"] by (simp add: one_rune_def min_absorb2)
      moreover obtain j where "k = Suc j" using rune_width_take(1) [OF Some] gr0_implies_Suc by blast
      then have "w \<in> set (runes (drop k s)) \<Longrightarrow> one_rune w" using 1(2) Cons Some by simp
      ultimately show ?thesis using 1(3) runes_some [OF Some] by auto
    qed
  qed
qed

text \<open>
  Shortened texts. A text shortened to \<open>n\<close> reads as at most \<open>n\<close> characters: all of its own
  when they fit, else its first \<open>n - 1\<close> followed by an ellipsis; no multi-byte character is cut
  in the middle. It fails exactly for an \<open>n\<close> below one on a text that does not fit.
\<close>

theorem short_fits:
  "case short_text n s of
     None \<Rightarrow> n < 1 \<and> n < int (length (runes s))
   | Some t \<Rightarrow> int (length (runes t)) \<le> n \<and>
       (if int (length (runes s)) \<le> n then t = s
        else runes t = take (nat (n - 1)) (runes s) @ [u_ellipsis])"
proof (cases "int (length (runes s)) \<le> n \<or> n < 1")
  case True
  then show ?thesis by (auto simp: short_text_def Let_def)
next
  case False
  have "one_rune w" if "w \<in> set (take (nat (n - 1)) (runes s))" for w
    using that in_set_takeD runes_one by fast
  then have "runes (concat (take (nat (n - 1)) (runes s)) @ u_ellipsis) = take (nat (n - 1)) (runes s) @ runes u_ellipsis"
    by (rule runes_concat)
  moreover have "runes u_ellipsis = [u_ellipsis]"
    using runes_append [OF one_rune_error(2), of "[]"] by (simp add: runes.simps [of "[]"])
  ultimately show ?thesis using False by (auto simp: short_text_def Let_def min_def)
qed

section \<open>Sparkline\<close>

lemma spark_range_bounds:
  "fst r \<le> snd r \<Longrightarrow> (let r' = foldl range_step r vs in
     fst r' \<le> fst r \<and> snd r \<le> snd r' \<and> fst r' \<le> snd r' \<and> (\<forall>v\<in>set vs. fst r' \<le> v \<and> v \<le> snd r') \<and>
     fst r' \<in> insert (fst r) (set vs) \<and> snd r' \<in> insert (snd r) (set vs))"
proof (induction vs arbitrary: r)
  case (Cons v vs)
  have r: "fst (range_step r v) \<le> fst r" "snd r \<le> snd (range_step r v)"
    "fst (range_step r v) \<le> v" "v \<le> snd (range_step r v)" "fst (range_step r v) \<le> snd (range_step r v)"
    "fst (range_step r v) \<in> {fst r, v}" "snd (range_step r v) \<in> {snd r, v}"
    using Cons.prems by (auto simp: range_step_def)
  from Cons.IH [OF r(5)] r show ?case unfolding foldl_Cons Let_def by (auto intro: order_trans)
qed simp

lemma spark_range_ok:
  assumes "vals \<noteq> []" and "spark_range vals = (mn, mx)"
  shows "mn \<in> set vals" "mx \<in> set vals" "v \<in> set vals \<Longrightarrow> mn \<le> v \<and> v \<le> mx"
  using spark_range_bounds [of "(hd vals, hd vals)" vals] assms hd_in_set [OF assms(1)]
  by (auto simp: spark_range_def Let_def)

lemma f64_tight:
  assumes "0 \<le> x"
  shows "f64 x \<le> x * (1 + 1 / 10 ^ 12)" "x * (1 - 1 / 10 ^ 12) \<le> f64 x" "0 \<le> f64 x"
proof -
  have "x * (1 + 1 / 2 ^ 53) \<le> x * (1 + 1 / 10 ^ 12)" "x * (1 - 1 / 10 ^ 12) \<le> x * (1 - 1 / 2 ^ 53)"
    using assms by (intro mult_left_mono; simp)+
  with f64_bounds [OF assms] show "f64 x \<le> x * (1 + 1 / 10 ^ 12)" "x * (1 - 1 / 10 ^ 12) \<le> f64 x" "0 \<le> f64 x"
    by linarith+
qed

lemma spread_error: "a * (1 - 1 / 10 ^ 12) = a - a / 10 ^ 12" "a * (1 + 1 / 10 ^ 12) = a + a / 10 ^ 12"
  for a :: rat
  by (simp_all only: distrib_left right_diff_distrib mult_1_right times_divide_eq_right)

lemma f64_step:
  assumes "0 \<le> w" and "0 < b"
  shows "0 \<le> f64 (w / f64 b)" "f64 (w / f64 b) \<le> w / b * (1 + 3 / 10 ^ 12)"
proof -
  define e :: rat where "e = 1 / 10 ^ 12"
  have e: "0 < e" "0 < 1 - e" by (simp_all add: e_def)
  note B = f64_tight [folded e_def]
  have b: "b * (1 - e) \<le> f64 b" using B(2) [of b] assms(2) by simp
  have bp: "0 < b * (1 - e)" using assms(2) e(2) by (rule mult_pos_pos)
  with b have q: "0 \<le> w / f64 b" using assms(1) by simp
  show "0 \<le> f64 (w / f64 b)" by (rule B(3) [OF q])
  have "w / f64 b \<le> w / (b * (1 - e))" using assms(1) b bp by (intro frac_le) auto
  then have "w / f64 b * (1 + e) \<le> w / (b * (1 - e)) * (1 + e)" using e by (intro mult_right_mono) auto
  also have "\<dots> = w / b * ((1 + e) / (1 - e))" by simp
  also have "(1 + e) / (1 - e) \<le> 1 + 3 / 10 ^ 12" by (simp add: e_def)
  then have "w / b * ((1 + e) / (1 - e)) \<le> w / b * (1 + 3 / 10 ^ 12)"
    using assms by (intro mult_left_mono) auto
  finally show "f64 (w / f64 b) \<le> w / b * (1 + 3 / 10 ^ 12)" using B(1) [OF q] by linarith
qed

lemma spark_x_inside:
  assumes "0 \<le> i" "i \<le> b" "0 < b" "0 \<le> w" "w \<le> 1000"
  shows "0 \<le> f64 (f64 i * f64 (w / f64 b))" "f64 (f64 i * f64 (w / f64 b)) \<le> w + 1 / 1000"
proof -
  let ?e = "1 / 10 ^ 12 :: rat"
  have i: "0 \<le> f64 i" "f64 i \<le> i * (1 + ?e)" using f64_tight [OF assms(1)] by simp_all
  note s = f64_step [OF assms(4,3)]
  have nn: "0 \<le> f64 i * f64 (w / f64 b)" using i s by (intro mult_nonneg_nonneg) auto
  show "0 \<le> f64 (f64 i * f64 (w / f64 b))" by (rule f64_tight(3) [OF nn])
  have "f64 i * f64 (w / f64 b) \<le> (i * (1 + ?e)) * (w / b * (1 + 3 / 10 ^ 12))"
    using i s assms by (intro mult_mono) auto
  also have "\<dots> = (i / b * w) * ((1 + ?e) * (1 + 3 / 10 ^ 12))" by simp
  also have "\<dots> \<le> w * ((1 + ?e) * (1 + 3 / 10 ^ 12))"
  proof (rule mult_right_mono)
    have "i / b \<le> 1" using assms by simp
    then have "i / b * w \<le> 1 * w" using assms(4) by (rule mult_right_mono)
    then show "i / b * w \<le> w" by simp
  qed simp
  finally have "f64 i * f64 (w / f64 b) * (1 + ?e) \<le> w * ((1 + ?e) * (1 + 3 / 10 ^ 12)) * (1 + ?e)"
    by (rule mult_right_mono) simp
  also have "\<dots> = w * ((1 + ?e) * (1 + 3 / 10 ^ 12) * (1 + ?e))" by simp
  also have "\<dots> \<le> w * (1 + 1 / 10 ^ 6)" using assms(4) by (intro mult_left_mono) simp_all
  also have "\<dots> \<le> w + 1 / 1000" using assms(5) by (simp add: distrib_left)
  finally show "f64 (f64 i * f64 (w / f64 b)) \<le> w + 1 / 1000" using f64_tight(1) [OF nn] by linarith
qed

lemma spark_y_inside:
  assumes "0 \<le> q" "q \<le> 1 + 1 / 10 ^ 12" "5 \<le> h" "h \<le> 1000"
  shows "3 - 1 / 1000 \<le> f64 (f64 (h - 2) - f64 (q * f64 (h - 5)))"
    "f64 (f64 (h - 2) - f64 (q * f64 (h - 5))) \<le> h - 2 + 1 / 1000"
proof -
  let ?e = "1 / 10 ^ 12 :: rat"
  have c: "(h - 2) * (1 - ?e) \<le> f64 (h - 2)" "f64 (h - 2) \<le> (h - 2) * (1 + ?e)"
    using f64_tight [of "h - 2"] assms by simp_all
  have s: "0 \<le> f64 (h - 5)" "f64 (h - 5) \<le> (h - 5) * (1 + ?e)"
    using f64_tight [of "h - 5"] assms by simp_all
  define p where "p = f64 (q * f64 (h - 5))"
  have qs: "0 \<le> q * f64 (h - 5)" using assms s by simp
  have "q * f64 (h - 5) \<le> (1 + ?e) * ((h - 5) * (1 + ?e))"
    using assms s by (intro mult_mono) auto
  then have "q * f64 (h - 5) * (1 + ?e) \<le> (1 + ?e) * ((h - 5) * (1 + ?e)) * (1 + ?e)"
    by (rule mult_right_mono) simp
  also have "\<dots> = (h - 5) * ((1 + ?e) * (1 + ?e) * (1 + ?e))" by simp
  also have "\<dots> \<le> (h - 5) * (1 + 1 / 10 ^ 11)" using assms by (intro mult_left_mono) simp_all
  finally have "f64 (q * f64 (h - 5)) \<le> (h - 5) * (1 + 1 / 10 ^ 11)" using f64_tight(1) [OF qs] by linarith
  then have p: "0 \<le> p" "p \<le> (h - 5) + (h - 5) / 10 ^ 11"
    using f64_tight(3) [OF qs] unfolding p_def distrib_left by simp_all
  define z where "z = f64 (h - 2) - p"
  have "(h - 5) / 10 ^ 11 \<le> 1000 / 10 ^ 11" using assms by (intro divide_right_mono) auto
  moreover have "(h - 2) / 10 ^ 12 \<le> 1000 / 10 ^ 12" using assms by (intro divide_right_mono) auto
  moreover have "(1000 / 10 ^ 12 :: rat) \<le> 1 / 10 ^ 7" "(1000 / 10 ^ 11 :: rat) \<le> 1 / 10 ^ 7" by simp_all
  ultimately have z: "3 - 2 / 10 ^ 7 \<le> z" "z \<le> h - 2 + 1 / 10 ^ 7"
    using c [unfolded spread_error] p unfolding z_def by linarith+
  have z0: "0 \<le> z" using z(1) by (rule order_trans [rotated]) simp
  have "z / 10 ^ 12 \<le> 1001 / 10 ^ 12" using z assms by (intro divide_right_mono) auto
  moreover have "(1001 / 10 ^ 12 :: rat) \<le> 1 / 10 ^ 7" "(3 / 10 ^ 7 :: rat) \<le> 1 / 1000" by simp_all
  ultimately have "3 - 1 / 1000 \<le> f64 z" "f64 z \<le> h - 2 + 1 / 1000"
    using f64_tight(1,2) [OF z0, unfolded spread_error] z by linarith+
  then show "3 - 1 / 1000 \<le> f64 (f64 (h - 2) - f64 (q * f64 (h - 5)))"
    "f64 (f64 (h - 2) - f64 (q * f64 (h - 5))) \<le> h - 2 + 1 / 1000"
    by (simp_all add: z_def p_def)
qed

lemma spark_share:
  fixes a b :: int
  assumes "0 \<le> a" "a \<le> b"
  defines "q \<equiv> f64 (f64 (of_int a) / (if f64 (of_int b) = 0 then 1 else f64 (of_int b)))"
  shows "0 \<le> q \<and> q \<le> 1 + 1 / 10 ^ 12"
proof (cases "b = 0")
  case True
  with assms have "a = 0" by simp
  then show ?thesis by (simp add: q_def f64_def)
next
  case False
  then have pos: "0 \<le> (of_int a :: rat)" "0 < (of_int b :: rat)" using assms by simp_all
  note Q = f64_quotient [OF pos]
  have q: "q = f64 (f64 (of_int a) / f64 (of_int b))" using Q(4) by (simp add: q_def)
  have "(of_int a :: rat) / of_int b \<le> 1" using assms pos(2) by simp
  then have "(of_int a :: rat) / of_int b * (1 + 1 / 10 ^ 12) \<le> 1 * (1 + 1 / 10 ^ 12)"
    by (rule mult_right_mono) simp
  then have "(of_int a :: rat) / of_int b * (1 + 1 / 10 ^ 12) \<le> 1 + 1 / 10 ^ 12"
    unfolding mult_1 .
  from order_trans [OF Q(1) this] Q(3) show ?thesis unfolding q by blast
qed

text \<open>
  Sparklines stay in their drawing. Whatever the sizes, every point of the curve is printed,
  to the tenth, between the left and right edges and at least three units under the top and two
  above the bottom, rounding of the floating-point steps included; a constant series divides
  by one instead of zero.
\<close>

theorem sparkline_inside:
  assumes "2 \<le> length vals" and "\<And>v. v \<in> set vals \<Longrightarrow> 0 \<le> v \<and> v < 2 ^ 63"
    and "0 \<le> w" "w \<le> 1000" "5 \<le> h" "h \<le> 1000" and "i < length vals"
  shows "let (x, y) = spark_points vals (of_int w) (of_int h) ! i in
    0 \<le> round_even (x * 10) \<and> round_even (x * 10) \<le> 10 * w \<and>
    30 \<le> round_even (y * 10) \<and> round_even (y * 10) \<le> 10 * (h - 2)"
proof -
  obtain mn mx where range: "spark_range vals = (mn, mx)" by fastforce
  have ne: "vals \<noteq> []" using assms(1) by auto
  note r = spark_range_ok [OF ne range]
  let ?v = "vals ! i" and ?b = "of_int (int (length vals) - 1) :: rat"
  have v: "mn \<le> ?v" "?v \<le> mx" using r(3) assms(7) by simp_all
  have "in_int64 (?v - mn)" "in_int64 (mx - mn)"
    using assms(2) [OF r(1)] assms(2) [OF r(2)] v by (auto simp: in_int64_def)
  then have wrap: "wrap64 (?v - mn) = ?v - mn" "wrap64 (mx - mn) = mx - mn" by simp_all
  define spread where "spread = (if f64 (of_int (mx - mn)) = 0 then 1 else f64 (of_int (mx - mn)))"
  define q where "q = f64 (f64 (of_int (?v - mn)) / spread)"
  have q: "0 \<le> q" "q \<le> 1 + 1 / 10 ^ 12"
    using spark_share [of "?v - mn" "mx - mn"] v by (simp_all add: q_def spread_def)
  let ?x = "if i = 0 then 0 else f64 (f64 (of_int (int i)) * f64 (of_int w / f64 ?b))"
  let ?y = "f64 (f64 (of_int h - 2) - f64 (q * f64 (of_int h - 5)))"
  have point: "spark_points vals (of_int w) (of_int h) ! i = (?x, ?y)"
    using assms(7) by (simp add: spark_points_def range wrap spark_y_def q_def spread_def Let_def)
  have x: "0 \<le> ?x" "?x \<le> of_int w + 1 / 1000"
    using spark_x_inside [of "of_int (int i)" ?b "of_int w"] assms by (auto simp: of_nat_diff)
  have y: "3 - 1 / 1000 \<le> ?y" "?y \<le> of_int h - 2 + 1 / 1000"
    using spark_y_inside [OF q, of "of_int h"] assms by simp_all
  have "0 \<le> round_even (?x * 10)" "round_even (?x * 10) \<le> 10 * w"
    by (rule round_even_ge round_even_le; use x in simp)+
  moreover have "30 \<le> round_even (?y * 10)" "round_even (?y * 10) \<le> 10 * (h - 2)"
    by (rule round_even_ge round_even_le; use y in simp)+
  ultimately show ?thesis unfolding point by simp
qed

theorem sparkline_inside_demo:
  "let (x, y) = spark_points [10, 30, 20] 84 20 ! 2 in
     round_even (x * 10) \<le> 840 \<and> 30 \<le> round_even (y * 10) \<and> round_even (y * 10) \<le> 180"
proof -
  have "0 \<le> v \<and> v < 2 ^ 63" if "v \<in> set [10, 30, 20]" for v :: int
    using that by auto
  from sparkline_inside [OF _ this, of "[10, 30, 20]" 84 20 2] show ?thesis
    by (simp add: split_beta Let_def)
qed

end
