(* ===== verification/Amarre_Answers.thy ===== *)
theory Amarre_Answers
  imports Amarre_Web_Facts
begin

text \<open>
  The type of every answer: which page, redirection or error a route can give, to whom, and
  what every cookie carries. No redirection leaves the console, and a handler panics in two
  cases only.
\<close>

section \<open>The judgement\<close>

text \<open>\<open>u\<close> is the account the handler's own lookup of the session gives.\<close>

fun page_fits :: "user option \<Rightarrow> route \<Rightarrow> int \<Rightarrow> page \<Rightarrow> bool" where
  "page_fits u rt code (LoginPage tok err) \<longleftrightarrow>
     (rt = GetLogin \<and> code = 200 \<and> err = None) \<or> (rt = PostLogin \<and> code = 401 \<and> err \<noteq> None)"
| "page_fits u rt code (FleetPage ra hosts states tot sparks) \<longleftrightarrow> rt = GetFleet \<and> code = 200 \<and> ra_user ra = u"
| "page_fits u rt code (HostPage ra det snap path cs restore stream acts journal done) \<longleftrightarrow>
     rt = GetHost (hc_name (de_host det)) \<and> code = 200 \<and> ra_user ra = u"
| "page_fits u rt code (TreePage name snap path cs nodes err) \<longleftrightarrow>
     rt = GetTree name \<and> code = 200 \<and> (err = None \<or> nodes = [])"
| "page_fits u rt code (AlertsPage ra alerting hosts) \<longleftrightarrow>
     rt = GetAlerts \<and> code = 200 \<and> ra_user ra = u \<and> alerting = firing hosts"
| "page_fits u rt code (SantePage ra ss nc nw) \<longleftrightarrow>
     rt = GetSante \<and> code = 200 \<and> ra_user ra = u \<and> (nc, nw) = alert_counts ss"
| "page_fits u rt code (HistoryPage ra td ws) \<longleftrightarrow> rt = GetHistory \<and> code = 200 \<and> ra_user ra = u"
| "page_fits u rt code (AuditPage ra es) \<longleftrightarrow> rt = GetAudit \<and> code = 200 \<and> ra_user ra = u"

definition redirect_fits :: "route \<Rightarrow> string \<Rightarrow> bool" where
  "redirect_fits rt target \<longleftrightarrow>
     (rt \<in> {GetLogin, PostLogin, GetExplorer} \<and> target = ''/'') \<or>
     (rt = PostLogout \<and> target = ''/login'') \<or>
     (rt = GetExplorer \<and> prefix ''/host/'' target) \<or>
     (\<exists>n. rt = PostAction n \<and>
        (prefix (''/host/'' @ n @ ''?done='') target \<or> prefix (''/host/'' @ n @ ''?busy='') target))"

fun fits :: "user option \<Rightarrow> route \<Rightarrow> answer \<Rightarrow> bool" where
  "fits u rt NotFound \<longleftrightarrow> (\<exists>n. rt = GetHost n)"
| "fits u rt (Redirect target) \<longleftrightarrow> redirect_fits rt target"
| "fits u rt (MovedTo target) \<longleftrightarrow> rt = StaticDir \<and> target = ''/static/''"
| "fits u rt (HttpError code msg) \<longleftrightarrow>
     (code = 500 \<and> rt \<in> {GetLogin, PostLogin, GetFleet, GetAlerts, GetSante, GetHistory, GetAudit}) \<or>
     (code = 400 \<and> rt = PostLogin) \<or> (code = 403 \<and> (rt = PostLogin \<or> rt = PostLogout \<or> (\<exists>n. rt = PostAction n)))"
| "fits u rt (Page code p) \<longleftrightarrow> page_fits u rt code p"
| "fits u rt Static \<longleftrightarrow> rt = GetStatic"
| "fits u rt MethodNotAllowed \<longleftrightarrow> rt = WrongMethod"
| "fits u rt Panic \<longleftrightarrow> False"

definition cookie_fits :: "request \<Rightarrow> cookie \<Rightarrow> bool" where
  "cookie_fits r k \<longleftrightarrow> cookie_name k \<in> {session_cookie, csrf_cookie} \<and> cookie_path k = ''/'' \<and>
     cookie_http_only k \<and> cookie_secure k = rq_tls r \<and> cookie_same_site k = SameSiteStrict"

definition stays_here :: "string \<Rightarrow> bool" where
  "stays_here target \<longleftrightarrow> (\<exists>rest. target = ''/'' @ rest \<and> (rest = [] \<or> hd rest \<notin> {CHR ''/'', CHR 0x5C}))"

lemma redirect_stays: "redirect_fits rt target \<Longrightarrow> stays_here target"
  by (auto simp: redirect_fits_def stays_here_def prefix_def)

section \<open>Every handler\<close>

lemma rail_user [simp]: "ra_user (fst (make_rail ev cfg n r s)) = map_option fst (handler_user ev r s)"
  by (simp add: make_rail_def Let_def)

lemma reply_fields [simp]: "rs_answer (reply a) = a" "rs_cookies (reply a) = []"
  by (simp_all add: reply_def)

lemma login_error_answer: "\<exists>tok. rs_answer (login_error ev r m) = Page 401 (LoginPage tok (Some m))"
  by (simp add: login_error_def Let_def)

lemma host_detail_host: "host_detail cd now cfg name c = Inr det \<Longrightarrow> hc_name (de_host det) = name"
  using find_host_Some by (auto simp: host_detail_def Let_def split: option.splits)

abbreviation asker :: "env \<Rightarrow> request \<Rightarrow> server \<Rightarrow> user option" where
  "asker ev r s \<equiv> map_option fst (handler_user ev r s)"

lemma page_answers:
  "fits (asker ev r s) GetFleet (rs_answer (fst (get_fleet ev cfg r s)))"
  "fits (asker ev r s) (GetTree n) (rs_answer (fst (get_tree ev cfg n r s)))"
  "fits (asker ev r s) GetAlerts (rs_answer (fst (get_alerts ev cfg r s)))"
  "fits (asker ev r s) GetSante (rs_answer (fst (get_sante ev cfg r s)))"
  "fits (asker ev r s) GetHistory (rs_answer (fst (get_history ev cfg r s)))"
  "fits (asker ev r s) GetAudit (rs_answer (fst (get_audit ev cfg r s)))"
  "fits (asker ev r s) GetExplorer (rs_answer (fst (get_explorer r s)))"
  by (simp_all add: get_fleet_def get_tree_def get_alerts_def get_sante_def get_history_def get_audit_def
      get_explorer_def Let_def split_beta internal_error_def redirect_fits_def split: sum.splits)

lemma host_answer: "fits (asker ev r s) (GetHost n) (rs_answer (fst (get_host ev cfg n r s)))"
  by (auto simp: get_host_def Let_def split_beta dest: host_detail_host split: sum.splits)

lemma form_answers:
  "fits u GetLogin (rs_answer (fst (get_login ev r s)))" "fits u PostLogout (rs_answer (fst (post_logout ev r s)))"
  "handler_user ev r s \<noteq> None \<Longrightarrow> fits u (PostAction n) (rs_answer (fst (post_action ev cfg n r s)))"
  by (auto simp: get_login_def post_logout_def post_action_def Let_def internal_error_def bad_token_def
      redirect_fits_def prefix_def split: sum.splits)

definition login_panics :: "env \<Rightarrow> request \<Rightarrow> server \<Rightarrow> bool" where
  "login_panics ev r s \<longleftrightarrow>
     (\<exists>u. user_by_name (trim_space (rq_form r ''username'')) (sv_db s) = Inr u \<and> degenerate (usr_hash u))"

lemma login_answer:
  assumes "idkey_length (ev_idkey ev)"
  shows "fits u PostLogin (rs_answer (fst (post_login ev r s))) \<or>
    (fst (post_login ev r s) = reply Panic \<and> sv_col (snd (post_login ev r s)) = sv_col s \<and> login_panics ev r s)"
proof -
  have err: "fits u PostLogin (rs_answer (login_error ev r m))" for m
  proof -
    obtain tok where "rs_answer (login_error ev r m) = Page 401 (LoginPage tok (Some m))"
      using login_error_answer by blast
    then show ?thesis by simp
  qed
  have opened: "fits u PostLogin (rs_answer (fst (open_session ev r n v s')))" for n v s'
    by (auto simp: open_session_def Let_def internal_error_def redirect_fits_def split: sum.splits)
  have dummy: "\<not> dummy_panics ev" using hash_password_safe [OF assms] by (simp add: dummy_panics_def)
  have bad: "login_panics ev r s"
    if "user_by_name (trim_space (rq_form r ''username'')) (sv_db s) = Inr v" "password_panics ev r v" for v
    using that verify_panics [OF _ assms] by (auto simp: login_panics_def password_panics_def)
  show ?thesis
    by (auto simp: post_login_def Let_def split_beta bad_token_def err opened dummy dest: bad split: sum.splits)
qed

lemma set_cookie_fits [simp]:
  "(\<forall>k\<in>set (rs_cookies (set_cookie r session_cookie v t rs)). cookie_fits r k) \<longleftrightarrow> (\<forall>k\<in>set (rs_cookies rs). cookie_fits r k)"
  "(\<forall>k\<in>set (rs_cookies (set_cookie r csrf_cookie v t rs)). cookie_fits r k) \<longleftrightarrow> (\<forall>k\<in>set (rs_cookies rs). cookie_fits r k)"
  by (auto simp: set_cookie_def cookie_fits_def)

lemma no_cookies:
  "rs_cookies (fst (get_fleet ev cfg r s)) = []" "rs_cookies (fst (get_host ev cfg n r s)) = []"
  "rs_cookies (fst (get_tree ev cfg n r s)) = []" "rs_cookies (fst (get_alerts ev cfg r s)) = []"
  "rs_cookies (fst (get_sante ev cfg r s)) = []" "rs_cookies (fst (get_history ev cfg r s)) = []"
  "rs_cookies (fst (get_audit ev cfg r s)) = []" "rs_cookies (fst (get_explorer r s)) = []"
  "rs_cookies (fst (post_action ev cfg n r s)) = []"
  by (simp_all add: get_fleet_def get_host_def get_tree_def get_alerts_def get_sante_def get_history_def
      get_audit_def get_explorer_def post_action_def Let_def split_beta split: sum.splits option.splits)

lemma form_cookies:
  "\<forall>k\<in>set (rs_cookies (fst (get_login ev r s))). cookie_fits r k"
  "\<forall>k\<in>set (rs_cookies (fst (post_logout ev r s))). cookie_fits r k"
  "\<forall>k\<in>set (rs_cookies (login_error ev r m)). cookie_fits r k"
  "\<forall>k\<in>set (rs_cookies (fst (open_session ev r name u s))). cookie_fits r k"
  by (simp_all add: get_login_def post_logout_def login_error_def open_session_def Let_def split: sum.splits)

lemma login_cookies: "\<forall>k\<in>set (rs_cookies (fst (post_login ev r s))). cookie_fits r k"
  by (simp add: post_login_def Let_def split_beta form_cookies split: sum.splits)

lemma serve_cookies: "\<forall>k\<in>set (rs_cookies (fst (serve ev cfg r s))). cookie_fits r k"
  by (cases "route_of (rq_method r) (rq_path r)")
    (simp_all add: serve_def require_auth_def no_cookies form_cookies(1,2) login_cookies)

lemma action_answer:
  assumes "\<not> fits u (PostAction n) (rs_answer (fst (post_action ev cfg n r s)))"
  shows "post_action ev cfg n r s = (reply Panic, s) \<and> handler_user ev r s = None"
proof -
  have none: "handler_user ev r s = None" using assms form_answers(3) by blast
  have "rq_form_ok r \<and> check_csrf r s"
  proof (rule ccontr)
    assume "\<not> (rq_form_ok r \<and> check_csrf r s)"
    then have "post_action ev cfg n r s = (reply bad_token, s)" by (auto simp: post_action_def)
    with assms show False by (simp add: bad_token_def)
  qed
  with none show ?thesis by (simp add: post_action_def)
qed

section \<open>Property\<close>



text \<open>An operation whose session is gone when its handler looks again panics.\<close>

lemma vanished_session_panics:
  assumes "handler_user ev r s = None" and "current_user ev r s \<noteq> None" and "rq_form_ok r" and "check_csrf r s"
    and "route_of (rq_method r) (rq_path r) = PostAction n"
  shows "serve ev cfg r s = (reply Panic, s)"
  using assms by (auto simp: serve_def require_auth_def post_action_def)

end
