(* ===== verification/Amarre_Console_Facts.thy ===== *)
theory Amarre_Console_Facts
  imports Amarre_Console
begin

text \<open>
  What holds of the running console however its statements interleave: the journal only grows and
  accounts for every operation, and a host is held exactly while its operation is under way.
\<close>

section \<open>Every event is steady\<close>

lemma login_steady: "steady (sv_db s) (sv_db (snd (post_login ev r s)))"
proof (cases "\<exists>u. factors_ok ev r s u")
  case True
  then obtain u where "factors_ok ev r s u" by blast
  then have "post_login ev r s = open_session ev r (trim_space (rq_form r ''username'')) u
      (s\<lparr>sv_lim := snd (allow (ev_now ev) (remote_ip ev r) (sv_lim s))\<rparr>)"
    using post_login_cases [of ev r s u] by simp
  then show ?thesis
    by (auto simp: open_session_def Let_def log_audit_def intro!: steady_audit dest: steady_session(1)
        split: sum.splits)
next
  case False
  then have "\<not> grants_session (fst (post_login ev r s)) tok" for tok
    using post_login_refused(1) by blast
  then have "placid 0 s (snd (post_login ev r s))" by (rule login_placid)
  then show ?thesis by (simp add: placid_def unnoticed_def)
qed

lemma logout_steady: "steady (sv_db s) (sv_db (snd (post_logout ev r s)))"
  by (auto simp: post_logout_def Let_def log_audit_def intro!: steady_audit dest: steady_session(3)
      split: sum.splits option.splits)

lemma placid_steady: "placid T s s' \<Longrightarrow> steady (sv_db s) (sv_db s')"
  by (simp add: placid_def unnoticed_def)

text \<open>A request and the collector: the schedule of visits is untouched, the reservations follow the jobs.\<close>

lemma admitted_handle: "handle ev cfg r s = (if admitted ev cfg r then serve ev cfg r s else (reply NotFound, s))"
  by (simp add: handle_def admitted_def split: option.splits)

lemma job_of_action:
  assumes "handler_user ev r s = Some (u, t)" and "route_of (rq_method r) (rq_path r) = PostAction name"
    and "admitted ev cfg r" and "current_user ev r s \<noteq> None"
  shows "(case job_of ev cfg r s of None \<Rightarrow> co_running (sv_col s)
      | Some j \<Rightarrow> (co_running (sv_col s))(hc_name (jb_host j) \<mapsto> jb_verb j)) =
    co_running (sv_col (snd (post_action ev cfg name r s)))"
  using action_placid [OF assms(1) refl, where cfg = cfg and name = name] assms(2-4)
  by (simp add: job_of_def assms(1) split: sum.splits)

lemma handle_effect:
  "steady (sv_db s) (sv_db (snd (handle ev cfg r s))) \<and> co_bo (sv_col (snd (handle ev cfg r s))) = co_bo (sv_col s) \<and>
   co_running (sv_col (snd (handle ev cfg r s))) =
     (case job_of ev cfg r s of None \<Rightarrow> co_running (sv_col s)
      | Some j \<Rightarrow> (co_running (sv_col s))(hc_name (jb_host j) \<mapsto> jb_verb j))"
proof (cases "admitted ev cfg r")
  case False
  then show ?thesis by (simp add: admitted_handle job_of_def split: route.splits option.splits)
next
  case admitted: True
  show ?thesis
  proof (cases "\<exists>name. route_of (rq_method r) (rq_path r) = PostAction name \<and> current_user ev r s \<noteq> None \<and>
      handler_user ev r s \<noteq> None")
    case True
    then obtain name u t where who: "route_of (rq_method r) (rq_path r) = PostAction name"
      "handler_user ev r s = Some (u, t)" "current_user ev r s \<noteq> None" by auto
    then have "handle ev cfg r s = post_action ev cfg name r s"
      using admitted by (simp add: admitted_handle serve_def require_auth_def del: not_None_eq)
    with action_placid [OF who(2) refl, where T = 0 and cfg = cfg and name = name] job_of_action [OF who(2,1) admitted who(3)]
    show ?thesis by (simp add: unnoticed_def)
  next
    case False
    then have "job_of ev cfg r s = None"
      by (auto simp: job_of_def split: route.splits option.splits)
    moreover have quiet: "snd (post_action ev cfg name r s) = s"
      if "route_of (rq_method r) (rq_path r) = PostAction name" "current_user ev r s = Some x" for name x
      using False that by (intro action_vanished) fastforce
    moreover have "steady (sv_db s) (sv_db (snd (serve ev cfg r s))) \<and>
        co_bo (sv_col (snd (serve ev cfg r s))) = co_bo (sv_col s) \<and>
        co_running (sv_col (snd (serve ev cfg r s))) = co_running (sv_col s)"
      using False login_frame logout_frame
      by (cases "route_of (rq_method r) (rq_path r)")
        (auto simp: serve_def require_auth_def login_steady logout_steady quiet
          placid_pages [unfolded placid_def unnoticed_def])
    ultimately show ?thesis using admitted by (simp add: admitted_handle)
  qed
qed

lemma step_steady: "steady (si_db c) (si_db (console_step cd cfg e c))"
proof (cases e)
  case (Request ev r oc)
  then show ?thesis using handle_effect by simp
next
  case (Move i)
  show ?thesis
    unfolding Move by (cases cd cfg i c rule: move_cases) (simp_all add: on_col_def atom_steady)
next
  case (Launch now a)
  show ?thesis unfolding Launch by (cases cd cfg now a c rule: launch_cases) simp_all
qed simp_all

lemma run_steady: "steady (si_db c) (si_db (console_run cd cfg es c))"
  unfolding console_run_def
  by (induction es rule: rev_induct) (use step_steady steady_trans in auto)

lemma run_invariant:
  assumes "\<And>c e. I c \<Longrightarrow> I (console_step cd cfg e c)" and "I c"
  shows "I (console_run cd cfg es c)"
  unfolding console_run_def using assms(2) by (induction es arbitrary: c) (auto intro: assms(1))

lemma prefix_later: "prefix xs ys \<Longrightarrow> prefix (ys @ [y]) zs \<Longrightarrow> \<exists>mid. prefix (xs @ mid @ [y]) zs"
  by (metis append.assoc prefix_def)

lemma in_put: "t \<in> set (ts[i := x]) \<Longrightarrow> t \<in> set ts \<or> t = x"
  using set_update_subset_insert [of ts i x] by auto

text \<open>What is picked from a list, one element of which is replaced.\<close>

lemma picked_append: "List.map_filter f (xs @ ys) = List.map_filter f xs @ List.map_filter f ys"
  by (simp add: map_filter_def)

lemma picked_Cons: "List.map_filter f (x # xs) = (case f x of None \<Rightarrow> [] | Some y \<Rightarrow> [y]) @ List.map_filter f xs"
  by (simp add: map_filter_def split: option.splits)

lemma picked_put:
  "i < length xs \<Longrightarrow> List.map_filter f (xs[i := x]) =
     List.map_filter f (take i xs) @ (case f x of None \<Rightarrow> [] | Some y \<Rightarrow> [y]) @ List.map_filter f (drop (Suc i) xs)"
  by (simp add: upd_conv_take_nth_drop picked_append picked_Cons split: option.splits)

lemma picked_split:
  "i < length xs \<Longrightarrow> List.map_filter f xs =
     List.map_filter f (take i xs) @ (case f (xs ! i) of None \<Rightarrow> [] | Some y \<Rightarrow> [y]) @ List.map_filter f (drop (Suc i) xs)"
  using picked_put [of i xs f "xs ! i"] by simp

lemma picked_same: "i < length xs \<Longrightarrow> f x = f (xs ! i) \<Longrightarrow> List.map_filter f (xs[i := x]) = List.map_filter f xs"
  using picked_put [of i xs f x] picked_split [of i xs f] by simp

section \<open>Threads\<close>

text \<open>A thread keeps its index and its duty, and takes its statements in their order.\<close>

lemma thread_step:
  assumes "i < length (si_threads c)"
  shows "i < length (si_threads (console_step cd cfg e c))"
    and "th_duty (si_threads (console_step cd cfg e c) ! i) = th_duty (si_threads c ! i)"
    and "th_in (si_threads c ! i) \<Longrightarrow> th_in (si_threads (console_step cd cfg e c) ! i)"
    and "th_prog (si_threads (console_step cd cfg e c) ! i) =
      (if e = Move i \<and> th_in (si_threads c ! i) then tl (th_prog (si_threads c ! i)) else th_prog (si_threads c ! i))"
proof -
  have "i < length (si_threads (console_step cd cfg e c)) \<and>
      th_duty (si_threads (console_step cd cfg e c) ! i) = th_duty (si_threads c ! i) \<and>
      (th_in (si_threads c ! i) \<longrightarrow> th_in (si_threads (console_step cd cfg e c) ! i)) \<and>
      th_prog (si_threads (console_step cd cfg e c) ! i) =
        (if e = Move i \<and> th_in (si_threads c ! i) then tl (th_prog (si_threads c ! i)) else th_prog (si_threads c ! i))"
    using assms
    by (cases e) (auto simp: nth_append nth_list_update on_col_def split: round_state.splits list.splits if_splits)
  then show "i < length (si_threads (console_step cd cfg e c))"
    "th_duty (si_threads (console_step cd cfg e c) ! i) = th_duty (si_threads c ! i)"
    "th_in (si_threads c ! i) \<Longrightarrow> th_in (si_threads (console_step cd cfg e c) ! i)"
    "th_prog (si_threads (console_step cd cfg e c) ! i) =
      (if e = Move i \<and> th_in (si_threads c ! i) then tl (th_prog (si_threads c ! i)) else th_prog (si_threads c ! i))"
    by blast+
qed

lemma run_Cons: "console_run cd cfg (e # es) c = console_run cd cfg es (console_step cd cfg e c)"
  by (simp add: console_run_def)

lemma run_append: "console_run cd cfg (es @ fs) c = console_run cd cfg fs (console_run cd cfg es c)"
  by (simp add: console_run_def)

lemma run_Nil [simp]: "console_run cd cfg [] c = c"
  by (simp add: console_run_def)

lemma thread_run:
  assumes "i < length (si_threads c)"
  shows "i < length (si_threads (console_run cd cfg es c)) \<and>
    th_duty (si_threads (console_run cd cfg es c) ! i) = th_duty (si_threads c ! i)"
  using assms by (induction es arbitrary: c) (simp_all add: run_Cons thread_step del: console_step.simps)

text \<open>A statement that was left and is left no more has been taken in between.\<close>

lemma taken:
  assumes "i < length (si_threads c)" and "a \<in> set (th_prog (si_threads c ! i))"
    and "a \<notin> set (th_prog (si_threads (console_run cd cfg es c) ! i))"
  shows "\<exists>es\<^sub>1 es\<^sub>2 p. es = es\<^sub>1 @ Move i # es\<^sub>2 \<and> i < length (si_threads (console_run cd cfg es\<^sub>1 c)) \<and>
    th_in (si_threads (console_run cd cfg es\<^sub>1 c) ! i) \<and> th_prog (si_threads (console_run cd cfg es\<^sub>1 c) ! i) = a # p"
  using assms
proof (induction es arbitrary: c)
  case (Cons e es)
  let ?c = "console_step cd cfg e c"
  show ?case
  proof (cases "a \<in> set (th_prog (si_threads ?c ! i))")
    case True
    from Cons.IH [OF thread_step(1) [OF Cons.prems(1)] this] Cons.prems(3)
    obtain es\<^sub>1 es\<^sub>2 p where *: "es = es\<^sub>1 @ Move i # es\<^sub>2" "i < length (si_threads (console_run cd cfg es\<^sub>1 ?c))"
      "th_in (si_threads (console_run cd cfg es\<^sub>1 ?c) ! i)" "th_prog (si_threads (console_run cd cfg es\<^sub>1 ?c) ! i) = a # p"
      by (auto simp: run_Cons)
    then show ?thesis by (intro exI [of _ "e # es\<^sub>1"] exI [of _ es\<^sub>2] exI [of _ p]) (simp add: run_Cons)
  next
    case False
    with thread_step(4) [OF Cons.prems(1), of cd cfg e] Cons.prems(2)
    have now: "e = Move i" "th_in (si_threads c ! i)" "a \<notin> set (tl (th_prog (si_threads c ! i)))"
      by (auto split: if_splits)
    with Cons.prems(2) obtain p where "th_prog (si_threads c ! i) = a # p"
      by (cases "th_prog (si_threads c ! i)") auto
    with now Cons.prems(1) show ?thesis by (intro exI [of _ "[]"] exI [of _ es] exI [of _ p]) simp
  qed
qed simp

text \<open>Its effect is then in the run: \<open>d\<close> is the database that the statement met.\<close>

lemma taken_effect:
  assumes "i < length (si_threads c)" and "a \<in> set (th_prog (si_threads c ! i))"
    and "a \<notin> set (th_prog (si_threads (console_run cd cfg es c) ! i))"
  shows "\<exists>x. steady (si_db c) (co_db x) \<and> steady (co_db (atom_do cd cfg a x)) (si_db (console_run cd cfg es c))"
proof -
  from taken [OF assms] obtain es\<^sub>1 es\<^sub>2 p where es: "es = es\<^sub>1 @ Move i # es\<^sub>2"
    "i < length (si_threads (console_run cd cfg es\<^sub>1 c))" "th_in (si_threads (console_run cd cfg es\<^sub>1 c) ! i)"
    "th_prog (si_threads (console_run cd cfg es\<^sub>1 c) ! i) = a # p" by blast
  let ?c = "console_run cd cfg es\<^sub>1 c"
  have "si_db (console_step cd cfg (Move i) ?c) = co_db (atom_do cd cfg a (si_col ?c))"
    using es(2-4) by (simp add: on_col_def)
  with run_steady [of "console_step cd cfg (Move i) ?c" cd cfg es\<^sub>2] run_steady [of c cd cfg es\<^sub>1] es(1) show ?thesis
    by (intro exI [of _ "si_col ?c"]) (simp add: run_append run_Cons del: console_step.simps)
qed

section \<open>The journal\<close>

definition journaled :: "job \<Rightarrow> string \<Rightarrow> audit_row \<Rightarrow> bool" where
  "journaled j result row \<longleftrightarrow> au_actor row = jb_actor j \<and> au_ip row = jb_ip j \<and> au_action row = jb_verb j \<and>
     au_target row = Some (hc_name (jb_host j)) \<and> au_outcome row = result"

definition job_result :: "outcome \<Rightarrow> job \<Rightarrow> string" where
  "job_result oc j =
     (case if jb_verb j = ''refresh'' then None else oc_command oc (jb_verb j) of
        None \<Rightarrow> fr ''succ`es'' | Some e \<Rightarrow> fr ''~echec : '' @ error_text e)"

lemma job_begun:
  assumes "job_of ev cfg r s = Some j"
  shows "sv_db (snd (handle ev cfg r s)) = audit (ev_now ev) (jb_actor j) (jb_ip j) (jb_verb j)
      (hc_name (jb_host j)) (fr ''demand~e'') (sv_db s)"
    and "busy (hc_name (jb_host j)) (sv_col s) = None" and "jb_verb j \<in> set verbs"
proof -
  from assms obtain name u t h c where
    who: "route_of (rq_method r) (rq_path r) = PostAction name" "handler_user ev r s = Some (u, t)"
      "current_user ev r s \<noteq> None"
    and adm: "admitted ev cfg r" "rq_form_ok r" "check_csrf r s"
    and beg: "action_begin (ev_now ev) cfg name (rq_form r ''verb'') (usr_name u) (remote_ip ev r) (sv_col s) = Inr (h, c)"
    and j: "j = \<lparr>jb_host = h, jb_verb = rq_form r ''verb'', jb_actor = usr_name u, jb_ip = remote_ip ev r\<rparr>"
    by (auto simp: job_of_def split: route.splits option.splits if_splits sum.splits)
  from beg find_host_Some have h: "hc_name h = name" by (auto simp: begin_Inr)
  from adm who beg have "snd (handle ev cfg r s) = s\<lparr>sv_col := c\<rparr>"
    by (simp add: admitted_handle serve_def require_auth_def post_action_def Let_def del: not_None_eq)
  with beg j h show "sv_db (snd (handle ev cfg r s)) = audit (ev_now ev) (jb_actor j) (jb_ip j) (jb_verb j)
      (hc_name (jb_host j)) (fr ''demand~e'') (sv_db s)"
    by (simp add: begin_Inr)
  from beg j h show "busy (hc_name (jb_host j)) (sv_col s) = None" "jb_verb j \<in> set verbs"
    by (auto simp: begin_Inr busy_def)
qed

text \<open>The entry that the body of an operation writes.\<close>

fun writes :: "job \<Rightarrow> string \<Rightarrow> atom \<Rightarrow> bool" where
  "writes j result (Journal now actor ip verb host out) \<longleftrightarrow>
     actor = jb_actor j \<and> ip = jb_ip j \<and> verb = jb_verb j \<and> host = hc_name (jb_host j) \<and> out = result"
| "writes j result _ \<longleftrightarrow> False"

lemma operation_writes: "\<exists>a\<in>set (th_prog (operation_thread cd oc j)). writes j (job_result oc j) a"
  by (cases "jb_verb j = ''refresh''"; cases "oc_command oc (jb_verb j)")
    (simp_all add: operation_thread_def action_prog_def job_result_def Let_def)

lemma written: "writes j result a \<Longrightarrow> \<not> db_fails (co_db c) SInsertAudit \<Longrightarrow>
    \<exists>row. db_audit (co_db (atom_do cd cfg a c)) = db_audit (co_db c) @ [row] \<and> journaled j result row"
  by (cases a) (simp_all add: audit_def journaled_def)

text \<open>
  C10. Operations are on record. No request and no statement of a visit, an operation or the end of
  a round removes or rewrites an entry of the journal: over any run it only grows at its end. As
  long as the database accepts insertions into the journal (the code ignores their errors), a
  request that starts an operation leaves an entry with the operator, the address, the verb
  and the host; and in every run from there in which the operation's goroutine has come to its
  end, whatever else ran in between, the journal has gained the second entry, with the outcome:
  success, or failure with what the host said.
\<close>

theorem operations_are_journaled:
  "prefix (db_audit (si_db c)) (db_audit (si_db (console_run cd cfg es c))) \<and>
    (\<not> db_fails (si_db c) SInsertAudit \<and> job_of ev cfg r (si_server c) = Some j \<and>
      th_prog (si_threads (console_run cd cfg (Request ev r oc # es) c) ! length (si_threads c)) = [] \<longrightarrow>
      (\<exists>row new. prefix (db_audit (si_db c) @ row # new) (db_audit (si_db (console_run cd cfg (Request ev r oc # es) c))) \<and>
        journaled j (fr ''demand~e'') row \<and> (\<exists>row'\<in>set new. journaled j (job_result oc j) row')))"
proof (intro conjI impI; (elim conjE)?)
  show "prefix (db_audit (si_db c)) (db_audit (si_db (console_run cd cfg es c)))"
    using run_steady by (simp add: steady_def)
next
  let ?c = "console_step cd cfg (Request ev r oc) c" and ?i = "length (si_threads c)"
  assume up: "\<not> db_fails (si_db c) SInsertAudit" and job: "job_of ev cfg r (si_server c) = Some j"
    and ended: "th_prog (si_threads (console_run cd cfg (Request ev r oc # es) c) ! ?i) = []"
  obtain row where row: "db_audit (si_db ?c) = db_audit (si_db c) @ [row]" "journaled j (fr ''demand~e'') row"
    using up job_begun(1) [OF job] by (auto simp: journaled_def audit_def)
  obtain a where a: "a \<in> set (th_prog (operation_thread cd oc j))" "writes j (job_result oc j) a"
    using operation_writes by blast
  have "?i < length (si_threads ?c)" "a \<in> set (th_prog (si_threads ?c ! ?i))" using job a(1) by simp_all
  from taken_effect [OF this, of cd cfg es] ended obtain x where x: "steady (si_db ?c) (co_db x)"
    "steady (co_db (atom_do cd cfg a x)) (si_db (console_run cd cfg es ?c))" by (auto simp: run_Cons)
  have "\<not> db_fails (co_db x) SInsertAudit"
    using x(1) step_steady [of c cd cfg "Request ev r oc"] up by (simp add: steady_def)
  with written [OF a(2)] obtain row' where row': "db_audit (co_db (atom_do cd cfg a x)) = db_audit (co_db x) @ [row']"
    "journaled j (job_result oc j) row'" by blast
  obtain mid where "prefix (db_audit (si_db ?c) @ mid @ [row']) (db_audit (si_db (console_run cd cfg es ?c)))"
    using prefix_later [of "db_audit (si_db ?c)" "db_audit (co_db x)"] x row'(1) unfolding steady_def by metis
  then have "prefix (db_audit (si_db c) @ row # mid @ [row']) (db_audit (si_db (console_run cd cfg es ?c)))"
    unfolding row(1) by simp
  with row(2) row'(2) show "\<exists>row new. prefix (db_audit (si_db c) @ row # new)
      (db_audit (si_db (console_run cd cfg (Request ev r oc # es) c))) \<and>
    journaled j (fr ''demand~e'') row \<and> (\<exists>row'\<in>set new. journaled j (job_result oc j) row')"
    by (intro exI [of _ row] exI [of _ "mid @ [row']"]) (simp add: run_Cons)
qed

section \<open>What a thread has left\<close>

text \<open>A thread has a last part of its program left, and a visit that is not in has it all.\<close>

definition on_course :: "codec \<Rightarrow> thread \<Rightarrow> bool" where
  "on_course cd t \<longleftrightarrow> (case th_duty t of
     Operation j oc \<Rightarrow>
       th_in t \<and> suffix (th_prog t) (action_prog cd oc (jb_host j) (jb_verb j) (jb_actor j) (jb_ip j))
   | Visit h \<Rightarrow> (\<exists>a. suffix (th_prog t) (visit_prog cd a h) \<and> (\<not> th_in t \<longrightarrow> th_prog t = visit_prog cd a h))
   | Wrapping \<Rightarrow> th_in t \<and> (\<exists>first now. suffix (th_prog t) (close_prog first now)))"

lemma course_start [simp]:
  "on_course cd (operation_thread cd oc j)" "on_course cd (visit_thread cd a h)" "on_course cd (closing_thread b now)"
  by (auto simp: on_course_def operation_thread_def visit_thread_def closing_thread_def)

lemma course_enter: "on_course cd t \<Longrightarrow> is_visit t \<Longrightarrow> on_course cd (t\<lparr>th_in := True\<rparr>)"
  by (auto simp: on_course_def is_visit_def split: duty.splits)

lemma course_move: "on_course cd t \<Longrightarrow> th_in t \<Longrightarrow> th_prog t = a # p \<Longrightarrow> on_course cd (t\<lparr>th_prog := p\<rparr>)"
  by (auto simp: on_course_def split: duty.splits dest: suffix_ConsD)

lemma step_course:
  assumes "\<forall>t\<in>set (si_threads c). on_course cd t"
  shows "\<forall>t\<in>set (si_threads (console_step cd cfg e c)). on_course cd t"
proof (cases e)
  case (Launch now a)
  show ?thesis unfolding Launch by (cases cd cfg now a c rule: launch_cases) (use assms in auto)
next
  case (Enter i)
  show ?thesis
    unfolding Enter
    by (cases cd cfg i c rule: enter_cases)
      (use assms course_enter in \<open>auto simp del: console_step.simps dest!: in_put\<close>)
next
  case (Move i)
  show ?thesis
    unfolding Move
    by (cases cd cfg i c rule: move_cases)
      (use assms course_move in \<open>auto simp: on_col_def simp del: console_step.simps dest!: in_put\<close>)
qed (use assms in \<open>auto split: option.splits\<close>)

lemma action_prog_frees: "\<exists>pre. action_prog cd oc h verb actor ip = pre @ [FreeHost (hc_name h)] \<and> (\<forall>n. FreeHost n \<notin> set pre)"
proof -
  have visit: "FreeHost n \<notin> set (visit_prog cd a h)" for n a using visit_prog_atoms [of "FreeHost n" cd a h] by auto
  show ?thesis
    by (cases "verb = ''refresh''"; cases "oc_command oc verb")
      (auto simp: action_prog_def Let_def visit intro!: exI [of _ "butlast (action_prog cd oc h verb actor ip)"])
qed

lemma operation_left:
  assumes "on_course cd t" and "th_duty t = Operation j oc" and "th_prog t = a # p"
  shows "if p = [] then a = FreeHost (hc_name (jb_host j)) else (\<forall>n. a \<noteq> FreeHost n)"
proof -
  obtain pre where pre: "action_prog cd oc (jb_host j) (jb_verb j) (jb_actor j) (jb_ip j) =
      pre @ [FreeHost (hc_name (jb_host j))]" "\<forall>n. FreeHost n \<notin> set pre"
    using action_prog_frees by blast
  from assms have "suffix (a # p) (pre @ [FreeHost (hc_name (jb_host j))])" by (simp add: on_course_def pre(1))
  then obtain zs where zs: "pre @ [FreeHost (hc_name (jb_host j))] = zs @ a # p" by (auto simp: suffix_def)
  then show ?thesis using pre(2) by (cases p rule: rev_cases) (auto simp: append_eq_Cons_conv)
qed

lemma other_left:
  assumes "on_course cd t" and "\<not> is_operation t" and "a \<in> set (th_prog t)"
  shows "a \<noteq> FreeHost n"
proof (cases "th_duty t")
  case (Visit h)
  with assms obtain an where "a \<in> set (visit_prog cd an h)" by (auto simp: on_course_def dest: set_mono_suffix)
  with visit_prog_atoms show ?thesis by fastforce
next
  case Wrapping
  with assms obtain b now where "a \<in> set (close_prog b now)" by (auto simp: on_course_def dest: set_mono_suffix)
  then show ?thesis by (auto simp: close_prog_def split: if_splits)
qed (use assms in \<open>simp add: is_operation_def\<close>)

section \<open>Reservations\<close>

text \<open>The host and the verb that a thread holds: those of an operation that has statements left.\<close>

definition holds :: "thread \<Rightarrow> (string \<times> string) option" where
  "holds t = (case th_duty t of
     Operation j oc \<Rightarrow> if th_prog t = [] then None else Some (hc_name (jb_host j), jb_verb j)
   | _ \<Rightarrow> None)"

definition held :: "thread list \<Rightarrow> (string \<times> string) list" where
  "held ts = List.map_filter holds ts"

definition jobs_ok :: "codec \<Rightarrow> site \<Rightarrow> bool" where
  "jobs_ok cd c \<longleftrightarrow> distinct (map fst (held (si_threads c))) \<and> co_running (si_col c) = map_of (held (si_threads c)) \<and>
     (\<forall>t\<in>set (si_threads c). on_course cd t)"

lemma held_append: "held (ts @ us) = held ts @ held us"
  by (simp add: held_def picked_append)

lemma held_Cons: "held (t # ts) = (case holds t of None \<Rightarrow> [] | Some x \<Rightarrow> [x]) @ held ts"
  by (simp add: held_def picked_Cons split: option.splits)

lemma held_Nil [simp]: "held [] = []"
  by (simp add: held_def map_filter_def)

lemma holds_start [simp]:
  "holds (visit_thread cd a h) = None" "holds (closing_thread b now) = None"
  by (simp_all add: holds_def visit_thread_def closing_thread_def)

lemma holds_operation [simp]: "holds (operation_thread cd oc j) = Some (hc_name (jb_host j), jb_verb j)"
  by (simp add: holds_def operation_thread_def action_prog_def Let_def)

lemma holds_in [simp]: "holds (t\<lparr>th_in := b\<rparr>) = holds t"
  by (simp add: holds_def split: duty.splits)

lemmas held_put = picked_put [where f = holds, folded held_def]
lemmas held_split = picked_split [where f = holds, folded held_def]
lemmas held_same = picked_same [where f = holds, folded held_def]

lemma map_of_without:
  assumes "distinct (map fst (xs @ x # ys))"
  shows "(map_of (xs @ x # ys))(fst x := None) = map_of (xs @ ys)"
proof -
  have "AList.delete (fst x) (xs @ x # ys) = xs @ ys"
  proof -
    have "fst x \<noteq> fst y" if "y \<in> set xs \<union> set ys" for y using assms that by force
    then have "filter (\<lambda>(k, v). fst x \<noteq> k) xs = xs" "filter (\<lambda>(k, v). fst x \<noteq> k) ys = ys"
      by (fastforce simp: filter_id_conv)+
    then show ?thesis by (cases x) (simp add: AList.delete_eq)
  qed
  then show ?thesis by (subst AList.delete_conv' [symmetric]) (simp only:)
qed

lemma map_of_last: "map_of xs k = None \<Longrightarrow> map_of (xs @ [(k, v)]) = (map_of xs)(k \<mapsto> v)"
  by (auto simp: fun_eq_iff map_add_def split: option.splits)

lemma atom_running: "(\<And>n. a \<noteq> FreeHost n) \<Longrightarrow> co_running (atom_do cd cfg a c) = co_running c"
  by (cases a) (auto simp: note_failure_def note_success_def Let_def)

lemma move_jobs:
  assumes ok: "jobs_ok cd c" and i: "i < length (si_threads c)" "th_in (si_threads c ! i)"
    and prog: "th_prog (si_threads c ! i) = a # p"
  shows "jobs_ok cd ((on_col (atom_do cd cfg a) c)\<lparr>si_threads := (si_threads c)[i := (si_threads c ! i)\<lparr>th_prog := p\<rparr>]\<rparr>)"
proof -
  let ?t = "si_threads c ! i" and ?ts = "si_threads c"
  let ?t' = "?t\<lparr>th_prog := p\<rparr>"
  have course: "on_course cd ?t" using ok i(1) by (simp add: jobs_ok_def)
  have "distinct (map fst (held (?ts[i := ?t']))) \<and>
      co_running (atom_do cd cfg a (si_col c)) = map_of (held (?ts[i := ?t']))"
  proof (cases "\<exists>n. a = FreeHost n")
    case True
    then have "is_operation ?t" using other_left [OF course, of a] prog by auto
    then obtain j oc where duty: "th_duty ?t = Operation j oc" by (auto simp: is_operation_def split: duty.splits)
    from operation_left [OF course duty prog] True have last: "p = []" "a = FreeHost (hc_name (jb_host j))"
      by (auto split: if_splits)
    let ?x = "(hc_name (jb_host j), jb_verb j)"
    let ?l = "held (take i ?ts)" and ?r = "held (drop (Suc i) ?ts)"
    have before: "held ?ts = ?l @ ?x # ?r" using held_split [OF i(1)] duty prog by (simp add: held_Cons holds_def)
    have after: "held (?ts[i := ?t']) = ?l @ ?r" using held_put [OF i(1)] duty last by (simp add: held_Cons holds_def)
    have "distinct (map fst (?l @ ?x # ?r))" using ok before by (simp add: jobs_ok_def)
    from map_of_without [OF this] this ok show ?thesis by (simp add: last(2) after before jobs_ok_def)
  next
    case False
    have "holds ?t' = holds ?t"
      using operation_left [OF course _ prog] False prog by (auto simp: holds_def split: duty.splits if_splits)
    with held_same [OF i(1)] ok atom_running [of a] False show ?thesis by (simp add: jobs_ok_def)
  qed
  moreover have "on_course cd t" if "t \<in> set (?ts[i := ?t'])" for t
    using in_put [OF that] course_move [OF course i(2) prog] ok by (auto simp: jobs_ok_def)
  ultimately show ?thesis by (simp add: jobs_ok_def on_col_def)
qed

lemma step_jobs:
  assumes ok: "jobs_ok cd c"
  shows "jobs_ok cd (console_step cd cfg e c)"
proof (cases e)
  case (Request ev r oc)
  show ?thesis
  proof (cases "job_of ev cfg r (si_server c)")
    case None
    with ok Request handle_effect [of "si_server c" ev cfg r] show ?thesis by (simp add: jobs_ok_def)
  next
    case (Some j)
    have none: "map_of (held (si_threads c)) (hc_name (jb_host j)) = None"
      using ok job_begun(2) [OF Some] by (simp add: jobs_ok_def busy_def)
    then have "hc_name (jb_host j) \<notin> set (map fst (held (si_threads c)))" by (simp add: map_of_eq_None_iff)
    with ok Some Request handle_effect [of "si_server c" ev cfg r] map_of_last [OF none] show ?thesis
      by (auto simp: jobs_ok_def held_append held_Cons)
  qed
next
  case (Launch now a)
  show ?thesis
    unfolding Launch
    by (cases cd cfg now a c rule: launch_cases) (use ok in \<open>auto simp: jobs_ok_def held_append held_Cons\<close>)
next
  case (Enter i)
  show ?thesis
    unfolding Enter
  proof (cases cd cfg i c rule: enter_cases)
    case enters
    then show "jobs_ok cd (console_step cd cfg (Enter i) c)"
      using ok held_same [of i "si_threads c"] course_enter
      by (auto simp: jobs_ok_def simp del: console_step.simps dest!: in_put)
  qed (use ok in simp)
next
  case (Move i)
  show ?thesis
    unfolding Move by (cases cd cfg i c rule: move_cases) (use ok move_jobs in \<open>simp_all del: console_step.simps\<close>)
qed (use ok in \<open>auto simp: jobs_ok_def held_append held_Cons\<close>)

lemma run_jobs: "jobs_ok cd c \<Longrightarrow> jobs_ok cd (console_run cd cfg es c)"
  by (rule run_invariant) (rule step_jobs)

lemma new_jobs: "jobs_ok cd (new_console d)"
  by (simp add: jobs_ok_def new_console_def new_server_def new_collector_def)

text \<open>A thread that is in ends once it has been given the steps it needs.\<close>

lemma moves_end:
  assumes "i < length (si_threads c)" and "th_in (si_threads c ! i)"
    and "length (th_prog (si_threads c ! i)) \<le> length (filter (\<lambda>e. e = Move i) es)"
  shows "th_prog (si_threads (console_run cd cfg es c) ! i) = []"
  using assms
proof (induction es arbitrary: c)
  case (Cons e es)
  have "th_prog (si_threads (console_run cd cfg es (console_step cd cfg e c)) ! i) = []"
  proof (rule Cons.IH)
    show "length (th_prog (si_threads (console_step cd cfg e c) ! i)) \<le> length (filter (\<lambda>e. e = Move i) es)"
      using Cons.prems by (simp add: thread_step del: console_step.simps split: if_splits)
  qed (use Cons.prems in \<open>simp_all add: thread_step del: console_step.simps\<close>)
  then show ?case by (simp add: run_Cons)
qed simp

lemma holders: "(n, v) \<in> set (held ts) \<longleftrightarrow>
    (\<exists>t\<in>set ts. \<exists>j oc. th_duty t = Operation j oc \<and> th_prog t \<noteq> [] \<and> hc_name (jb_host j) = n \<and> jb_verb j = v)"
  by (induction ts) (auto simp: held_Cons holds_def split: option.splits duty.splits if_splits)

text \<open>Without requests, a host that is free stays so.\<close>

lemma atom_free: "co_running c n = None \<Longrightarrow> co_running (atom_do cd cfg a c) n = None"
  by (cases a) (auto simp: note_failure_def note_success_def Let_def)

lemma step_free:
  assumes "co_running (si_col c) n = None" and "\<And>ev r oc. e \<noteq> Request ev r oc"
  shows "co_running (si_col (console_step cd cfg e c)) n = None"
proof (cases e)
  case (Launch now a)
  show ?thesis unfolding Launch by (cases cd cfg now a c rule: launch_cases) (use assms in simp_all)
next
  case (Move i)
  show ?thesis
    unfolding Move by (cases cd cfg i c rule: move_cases)
      (use assms atom_free in \<open>simp_all add: on_col_def del: console_step.simps\<close>)
qed (use assms in simp_all)

lemma run_free:
  "co_running (si_col c) n = None \<Longrightarrow> (\<And>ev r oc. Request ev r oc \<notin> set es) \<Longrightarrow>
   co_running (si_col (console_run cd cfg es c)) n = None"
proof (induction es arbitrary: c)
  case (Cons e es)
  then have "\<And>ev r oc. e \<noteq> Request ev r oc" "\<And>ev r oc. Request ev r oc \<notin> set es" by auto
  with Cons step_free show ?case by (simp add: run_Cons del: console_step.simps)
qed simp

lemma operation_frees:
  assumes "on_course cd (si_threads c ! i)" and i: "i < length (si_threads c)"
    and duty: "th_duty (si_threads c ! i) = Operation j oc" and some: "th_prog (si_threads c ! i) \<noteq> []"
    and moves: "length (th_prog (si_threads c ! i)) \<le> length (filter (\<lambda>e. e = Move i) es)"
    and quiet: "\<And>ev r oc. Request ev r oc \<notin> set es"
  shows "co_running (si_col (console_run cd cfg es c)) (hc_name (jb_host j)) = None"
proof -
  let ?n = "hc_name (jb_host j)"
  obtain pre where "action_prog cd oc (jb_host j) (jb_verb j) (jb_actor j) (jb_ip j) = pre @ [FreeHost ?n]"
    using action_prog_frees by blast
  then have "suffix (th_prog (si_threads c ! i)) (pre @ [FreeHost ?n])" and inside: "th_in (si_threads c ! i)"
    using assms(1) duty by (auto simp: on_course_def)
  then have "FreeHost ?n \<in> set (th_prog (si_threads c ! i))"
    using some by (cases "th_prog (si_threads c ! i)" rule: rev_cases) (auto simp: suffix_def)
  from taken [OF i this, of cd cfg es] moves_end [OF i inside moves]
  obtain es\<^sub>1 es\<^sub>2 p where es: "es = es\<^sub>1 @ Move i # es\<^sub>2" "i < length (si_threads (console_run cd cfg es\<^sub>1 c))"
    "th_in (si_threads (console_run cd cfg es\<^sub>1 c) ! i)"
    "th_prog (si_threads (console_run cd cfg es\<^sub>1 c) ! i) = FreeHost ?n # p" by auto
  then have "co_running (si_col (console_step cd cfg (Move i) (console_run cd cfg es\<^sub>1 c))) ?n = None"
    by (simp add: on_col_def)
  moreover have "\<And>ev r oc. Request ev r oc \<notin> set es\<^sub>2" using quiet es(1) by auto
  ultimately show ?thesis using run_free by (simp add: es(1) run_append run_Cons del: console_step.simps)
qed

text \<open>
  C11. Hosts are held by one operation and freed by its end. In every state the console can reach,
  by any requests and any interleaving of the statements of visits, operations and rounds, the
  hosts reserved are those of the operations that have statements left, each with its own verb
  and no host twice; a request starts an operation only on a host that is free; and in any run
  without a new request that gives the goroutine of an operation as many steps as it has
  statements left, whatever its command and its collections answer and whatever else runs in
  between, the operation comes to its end and its host is free.
\<close>

theorem hosts_are_freed:
  assumes "c = console_run cd cfg es (new_console d)"
  shows "(busy host (si_col c) = Some v \<longleftrightarrow> (\<exists>t\<in>set (si_threads c). \<exists>j oc.
      th_duty t = Operation j oc \<and> th_prog t \<noteq> [] \<and> hc_name (jb_host j) = host \<and> jb_verb j = v)) \<and>
    distinct (map fst (held (si_threads c))) \<and>
    (job_of ev cfg r (si_server c) = Some j \<longrightarrow> busy (hc_name (jb_host j)) (si_col c) = None) \<and>
    (i < length (si_threads c) \<and> th_duty (si_threads c ! i) = Operation j' oc \<and> th_prog (si_threads c ! i) \<noteq> [] \<and>
      length (th_prog (si_threads c ! i)) \<le> length (filter (\<lambda>e. e = Move i) fs) \<and>
      (\<forall>ev r oc. Request ev r oc \<notin> set fs) \<longrightarrow>
      th_prog (si_threads (console_run cd cfg fs c) ! i) = [] \<and>
      busy (hc_name (jb_host j')) (si_col (console_run cd cfg fs c)) = None)"
proof -
  have ok: "jobs_ok cd c" using run_jobs [OF new_jobs] assms by simp
  then have "busy host (si_col c) = Some v \<longleftrightarrow> (host, v) \<in> set (held (si_threads c))"
    by (simp add: jobs_ok_def busy_def)
  moreover have "th_prog (si_threads (console_run cd cfg fs c) ! i) = [] \<and>
      busy (hc_name (jb_host j')) (si_col (console_run cd cfg fs c)) = None"
    if "i < length (si_threads c)" "th_duty (si_threads c ! i) = Operation j' oc" "th_prog (si_threads c ! i) \<noteq> []"
      "length (th_prog (si_threads c ! i)) \<le> length (filter (\<lambda>e. e = Move i) fs)"
      "\<forall>ev r oc. Request ev r oc \<notin> set fs"
  proof -
    have course: "on_course cd (si_threads c ! i)" using ok that(1) by (simp add: jobs_ok_def)
    then have "th_in (si_threads c ! i)" using that(2) by (simp add: on_course_def)
    with moves_end operation_frees [OF course that(1-4)] that show ?thesis by (simp add: busy_def)
  qed
  ultimately show ?thesis using ok job_begun(2) by (auto simp: holders jobs_ok_def)
qed

text \<open>An operator who is logged in starts a check on the host \<open>web\<close>, and the host refuses it.\<close>

definition demo_press :: request where
  "demo_press = (demo_visit ''10.0.0.1'')\<lparr>rq_method := ''POST'', rq_path := ''/host/web/action'',
     rq_form := (\<lambda>k. if k = ''verb'' then ''check'' else demo_csrf)\<rparr>"

definition demo_opened :: site where
  "demo_opened = demo_console\<lparr>si_server := demo_open_server\<rparr>"

definition demo_pressed :: site where
  "demo_pressed = console_run unit_codec open_config
     [Request demo_env (demo_login ''secret'') demo_outcome, Request demo_env demo_press demo_outcome]
     (new_console (empty_db\<lparr>db_users := [demo_row]\<rparr>))"

lemma remote_addr_route [simp]:
  "remote_addr ev (r\<lparr>rq_method := m\<rparr>) = remote_addr ev r" "remote_addr ev (r\<lparr>rq_path := p\<rparr>) = remote_addr ev r"
  by (simp_all add: remote_addr_def cong: option.case_cong)

lemma current_user_route [simp]:
  "current_user ev (r\<lparr>rq_method := m\<rparr>) s = current_user ev r s" "current_user ev (r\<lparr>rq_path := p\<rparr>) s = current_user ev r s"
  by (simp_all add: current_user_def cong: option.case_cong)

lemma demo_new: "new_console (empty_db\<lparr>db_users := [demo_row]\<rparr>) = demo_console"
  by (simp add: new_console_def demo_console_def demo_site_server_def)

lemma demo_press_job:
  "\<exists>j. job_of demo_env open_config demo_press demo_open_server = Some j \<and>
     hc_name (jb_host j) = ''web'' \<and> jb_verb j = ''check''"
proof -
  have user: "current_user demo_env demo_press demo_open_server = Some (user_of demo_row, demo_token)"
    using demo_open_user by (simp add: demo_press_def)
  have adm: "admitted demo_env open_config demo_press"
    by (simp add: admitted_def demo_press_def demo_visit_addr demo_allowed)
  have csrf: "rq_form_ok demo_press" "check_csrf demo_press demo_open_server"
    by (simp_all add: demo_press_def check_csrf_def demo_csrf_text demo_open_csrf demo_visit_addr)
      (simp add: demo_visit_def demo_request_def)
  have route: "route_of (rq_method demo_press) (rq_path demo_press) = PostAction ''web''"
    by (simp add: demo_press_def route_of_def)
  have free: "co_running (sv_col demo_open_server) ''web'' = None"
    using login_frame [of demo_env "demo_login ''secret''" demo_site_server]
    by (simp add: demo_open_server_def demo_site_server_def new_server_def new_collector_def)
  have "rq_form demo_press ''verb'' = ''check''" by (simp add: demo_press_def)
  with user adm csrf route free show ?thesis
    by (simp add: job_of_def demo_again action_begin_def open_config_def demo_config_def demo_site_def find_host_def verbs_def)
qed

lemma demo_first: "console_step cd open_config (Request demo_env (demo_login ''secret'') oc) demo_console = demo_opened"
proof -
  have "job_of demo_env open_config (demo_login ''secret'') demo_site_server = None"
    by (simp add: job_of_def demo_login_def route_of_def split: option.splits)
  then show ?thesis by (simp add: demo_console_def demo_opened_def demo_login_handled demo_open_server_def)
qed

lemma demo_pressed_job:
  "\<exists>j. si_threads demo_pressed = [operation_thread unit_codec demo_outcome j] \<and> hc_name (jb_host j) = ''web'' \<and>
     jb_verb j = ''check''"
proof -
  obtain j where "job_of demo_env open_config demo_press demo_open_server = Some j"
    "hc_name (jb_host j) = ''web''" "jb_verb j = ''check''" using demo_press_job by blast
  moreover from this(1) have "si_threads demo_pressed = [operation_thread unit_codec demo_outcome j]"
    unfolding demo_pressed_def console_run_def demo_new
    by (simp add: demo_first del: console_step.simps) (simp add: demo_opened_def demo_console_def)
  ultimately show ?thesis by blast
qed

theorem operations_are_journaled_witness:
  "\<exists>n row new. prefix (db_audit (si_db demo_opened) @ row # new)
       (db_audit (si_db (console_run unit_codec open_config
          (Request demo_env demo_press demo_outcome # replicate n (Move 0)) demo_opened))) \<and>
     au_action row = ''check'' \<and> (\<exists>row'\<in>set new. au_outcome row' = fr ''~echec : '' @ error_text PolicyMissing)"
proof -
  obtain j where j: "job_of demo_env open_config demo_press (si_server demo_opened) = Some j" "jb_verb j = ''check''"
    using demo_press_job by (auto simp: demo_opened_def)
  let ?c = "console_step unit_codec open_config (Request demo_env demo_press demo_outcome) demo_opened"
  let ?n = "length (th_prog (operation_thread unit_codec demo_outcome j))"
  have threads: "si_threads demo_opened = []" by (simp add: demo_opened_def demo_console_def)
  then have "si_threads ?c = [operation_thread unit_codec demo_outcome j]" using j(1) by simp
  then have "th_prog (si_threads (console_run unit_codec open_config (replicate ?n (Move 0)) ?c) ! 0) = []"
    by (intro moves_end) (simp_all add: operation_thread_def)
  then have ended: "th_prog (si_threads (console_run unit_codec open_config
      (Request demo_env demo_press demo_outcome # replicate ?n (Move 0)) demo_opened) ! length (si_threads demo_opened)) = []"
    by (simp add: run_Cons threads del: console_step.simps)
  have "\<not> db_fails (si_db demo_console) SInsertAudit" by (simp add: demo_console_def demo_no_failure)
  then have up: "\<not> db_fails (si_db demo_opened) SInsertAudit"
    using step_steady [of demo_console unit_codec open_config "Request demo_env (demo_login ''secret'') demo_outcome"]
    by (simp add: demo_first steady_def del: console_step.simps)
  from operations_are_journaled [THEN conjunct2, rule_format, OF conjI [OF up conjI [OF j(1) ended]]] obtain row new where
    "prefix (db_audit (si_db demo_opened) @ row # new) (db_audit (si_db (console_run unit_codec open_config
      (Request demo_env demo_press demo_outcome # replicate ?n (Move 0)) demo_opened)))"
    "journaled j (fr ''demand~e'') row" "\<exists>row'\<in>set new. journaled j (job_result demo_outcome j) row'" by blast
  moreover have "job_result demo_outcome j = fr ''~echec : '' @ error_text PolicyMissing"
    by (simp add: job_result_def j(2) demo_outcome_def)
  ultimately show ?thesis using j(2) 
    by (intro exI [of _ ?n] exI [of _ row] exI [of _ new]) (auto simp: journaled_def)
qed

theorem hosts_are_freed_witness:
  "\<exists>n. busy ''web'' (si_col demo_pressed) = Some ''check'' \<and>
     busy ''web'' (si_col (console_run unit_codec open_config (replicate n (Move 0)) demo_pressed)) = None"
proof -
  obtain j where j: "si_threads demo_pressed = [operation_thread unit_codec demo_outcome j]"
    "hc_name (jb_host j) = ''web''" "jb_verb j = ''check''"
    using demo_pressed_job by blast
  let ?t = "operation_thread unit_codec demo_outcome j"
  have duty: "th_duty ?t = Operation j demo_outcome" "th_prog ?t \<noteq> []"
    by (simp_all add: operation_thread_def action_prog_def Let_def)
  have "busy ''web'' (si_col demo_pressed) = Some ''check''"
    using hosts_are_freed [OF demo_pressed_def, THEN conjunct1, of "''web''" "''check''"] j duty by auto
  moreover have "busy (hc_name (jb_host j)) (si_col (console_run unit_codec open_config
      (replicate (length (th_prog ?t)) (Move 0)) demo_pressed)) = None"
    using hosts_are_freed [OF demo_pressed_def, THEN conjunct2, THEN conjunct2, THEN conjunct2, rule_format,
      of 0 j demo_outcome "replicate (length (th_prog ?t)) (Move 0)"] j(1) duty
    by simp
  ultimately show ?thesis using j(2) by metis
qed

end
