(* ===== verification/Amarre_Console_Rounds.thy ===== *)
theory Amarre_Console_Rounds
  imports Amarre_Console_Facts
begin

text \<open>
  The rounds of the running console: at most four visits at a time, no host visited twice at once,
  no goroutine that waits for ever, and no failing host left unvisited for more than six hours of
  rounds.
\<close>

section \<open>Visits under way\<close>

definition visited :: "thread \<Rightarrow> string option" where
  "visited t = (case th_duty t of
     Visit h \<Rightarrow> if th_prog t = [] then None else Some (hc_name h)
   | _ \<Rightarrow> None)"

definition under_visit :: "thread list \<Rightarrow> string list" where
  "under_visit ts = List.map_filter visited ts"

lemmas under_visit_put = picked_put [where f = visited, folded under_visit_def]
lemmas under_visit_split = picked_split [where f = visited, folded under_visit_def]
lemmas under_visit_same = picked_same [where f = visited, folded under_visit_def]

lemma under_visit_Nil [simp]: "under_visit [] = []"
  by (simp add: under_visit_def map_filter_def)

lemma under_visit_append: "under_visit (ts @ us) = under_visit ts @ under_visit us"
  by (simp add: under_visit_def picked_append)

lemma under_visit_Cons: "under_visit (t # ts) = (case visited t of None \<Rightarrow> [] | Some n \<Rightarrow> [n]) @ under_visit ts"
  by (simp add: under_visit_def picked_Cons split: option.splits)

lemma visited_start [simp]:
  "visited (operation_thread cd oc j) = None" "visited (closing_thread b now) = None"
  "visited (visit_thread cd a h) = Some (hc_name h)"
  by (simp_all add: visited_def operation_thread_def closing_thread_def visit_thread_def visit_prog_def Let_def)

lemma visited_in [simp]: "visited (t\<lparr>th_in := b\<rparr>) = visited t"
  by (simp add: visited_def split: duty.splits)

lemma no_visits: "(\<And>t. t \<in> set ts \<Longrightarrow> is_visit t \<Longrightarrow> th_prog t = []) \<Longrightarrow> under_visit ts = []"
  by (induction ts) (auto simp: under_visit_Cons visited_def is_visit_def split: duty.splits)

lemma count_put:
  assumes "i < length xs"
  shows "length (filter P (xs[i := x])) + of_bool (P (xs ! i)) = length (filter P xs) + of_bool (P x)"
proof -
  have "length (filter P (xs[i := y])) =
      length (filter P (take i xs)) + of_bool (P y) + length (filter P (drop (Suc i) xs))" for y
    using assms by (simp add: upd_conv_take_nth_drop)
  from this [of x] this [of "xs ! i"] show ?thesis by simp
qed

definition inside :: "thread \<Rightarrow> bool" where
  "inside t \<longleftrightarrow> is_visit t \<and> th_in t \<and> th_prog t \<noteq> []"

lemma visits_inside_alt: "visits_inside ts = length (filter inside ts)"
  by (simp add: visits_inside_def inside_def [abs_def])

lemma inside_start [simp]:
  "\<not> inside (operation_thread cd oc j)" "\<not> inside (closing_thread b now)" "\<not> inside (visit_thread cd a h)"
  by (simp_all add: inside_def operation_thread_def closing_thread_def visit_thread_def is_visit_def)

section \<open>The invariant of the rounds\<close>

definition rounds_ok :: "site \<Rightarrow> bool" where
  "rounds_ok c \<longleftrightarrow> visits_inside (si_threads c) \<le> 4 \<and>
     (case si_round c of
        Launching hs \<Rightarrow> distinct (map hc_name hs @ under_visit (si_threads c))
      | _ \<Rightarrow> under_visit (si_threads c) = [])"

lemma step_rounds:
  assumes names: "distinct (map hc_name (cfg_hosts cfg))" and ok: "rounds_ok c"
  shows "rounds_ok (console_step cd cfg e c)"
proof (cases e)
  case (Request ev r oc)
  have "under_visit (case j of None \<Rightarrow> [] | Some j \<Rightarrow> [operation_thread cd oc j]) = []"
    "filter inside (case j of None \<Rightarrow> [] | Some j \<Rightarrow> [operation_thread cd oc j]) = []" for j
    by (simp_all add: under_visit_Cons split: option.splits)
  with ok Request show ?thesis
    by (simp add: rounds_ok_def visits_inside_alt under_visit_append split: round_state.splits)
next
  case (Launch now a)
  show ?thesis
    unfolding Launch by (cases cd cfg now a c rule: launch_cases)
      (use ok in \<open>auto simp: rounds_ok_def visits_inside_alt under_visit_append under_visit_Cons\<close>)
next
  case (Enter i)
  show ?thesis
    unfolding Enter
  proof (cases cd cfg i c rule: enter_cases)
    case enters
    have "under_visit ((si_threads c)[i := (si_threads c ! i)\<lparr>th_in := True\<rparr>]) = under_visit (si_threads c)"
      using enters(1) by (simp add: under_visit_same)
    moreover have "visits_inside ((si_threads c)[i := (si_threads c ! i)\<lparr>th_in := True\<rparr>]) \<le> 4"
      using enters(4) count_put [OF enters(1), of inside "(si_threads c ! i)\<lparr>th_in := True\<rparr>"]
      by (simp add: visits_inside_alt of_bool_def split: if_splits)
    ultimately show "rounds_ok (console_step cd cfg (Enter i) c)"
      unfolding enters(5) using ok by (auto simp: rounds_ok_def split: round_state.splits)
  qed (use ok in simp)
next
  case (Move i)
  show ?thesis
    unfolding Move
  proof (cases cd cfg i c rule: move_cases)
    case (acts a p)
    let ?t = "(si_threads c ! i)\<lparr>th_prog := p\<rparr>"
    have "visits_inside ((si_threads c)[i := ?t]) \<le> visits_inside (si_threads c)"
      using count_put [OF acts(1), of inside ?t] acts(3)
      by (auto simp: visits_inside_alt inside_def is_visit_def of_bool_def split: if_splits)
    moreover have "visited ?t = None \<or> visited ?t = visited (si_threads c ! i)"
      using acts(3) by (simp add: visited_def split: duty.splits)
    then have "under_visit ((si_threads c)[i := ?t]) = under_visit (si_threads c) \<or>
        (\<exists>xs n ys. under_visit (si_threads c) = xs @ n # ys \<and> under_visit ((si_threads c)[i := ?t]) = xs @ ys)"
    proof (cases "visited ?t = visited (si_threads c ! i)")
      case False
      assume "visited ?t = None \<or> visited ?t = visited (si_threads c ! i)"
      with False obtain n where "visited ?t = None" "visited (si_threads c ! i) = Some n"
        by (cases "visited (si_threads c ! i)") auto
      with under_visit_put [OF acts(1), of ?t] under_visit_split [OF acts(1)] show ?thesis
        by (intro disjI2 exI conjI) simp_all
    qed (simp add: under_visit_same acts(1))
    ultimately show "rounds_ok (console_step cd cfg (Move i) c)"
      unfolding acts(4) using ok by (auto simp: rounds_ok_def on_col_def split: round_state.splits)
  qed (use ok in simp)
next
  case (Wrap now)
  with ok no_visits show ?thesis
    by (auto simp: rounds_ok_def visits_inside_alt under_visit_append under_visit_Cons)
qed (use ok names in \<open>auto simp: rounds_ok_def\<close>)

lemma new_rounds: "rounds_ok (new_console d)"
  by (simp add: rounds_ok_def new_console_def visits_inside_def)

section \<open>No goroutine waits for ever\<close>

definition needed :: "thread \<Rightarrow> nat" where
  "needed t = length (th_prog t) + (if th_in t then 0 else 1)"

definition work_due :: "site \<Rightarrow> nat" where
  "work_due c = (\<Sum>t\<leftarrow>si_threads c. needed t)"

definition goroutine_step :: "codec \<Rightarrow> config \<Rightarrow> site \<Rightarrow> site \<Rightarrow> bool" where
  "goroutine_step cd cfg c c' \<longleftrightarrow> (\<exists>i. c' = console_step cd cfg (Enter i) c \<or> c' = console_step cd cfg (Move i) c)"

definition lively :: "codec \<Rightarrow> config \<Rightarrow> site \<Rightarrow> bool" where
  "lively cd cfg c \<longleftrightarrow> distinct (map hc_name (cfg_hosts cfg)) \<and> rounds_ok c \<and> (\<forall>t\<in>set (si_threads c). on_course cd t)"

lemma step_lively: "lively cd cfg c \<Longrightarrow> lively cd cfg (console_step cd cfg e c)"
  unfolding lively_def using step_rounds step_course by blast

lemma work_put:
  assumes "i < length (si_threads c)" and "si_threads c' = (si_threads c)[i := t]"
  shows "work_due c' + needed (si_threads c ! i) = work_due c + needed t"
proof -
  have "needed (si_threads c ! i) \<le> (\<Sum>t\<leftarrow>si_threads c. needed t)"
    using assms(1) by (intro member_le_sum_list) auto
  with assms show ?thesis by (simp add: work_due_def map_update sum_list_update)
qed

lemma enter_work:
  "i < length (si_threads c) \<Longrightarrow> is_visit (si_threads c ! i) \<Longrightarrow> \<not> th_in (si_threads c ! i) \<Longrightarrow>
   visits_inside (si_threads c) < 4 \<Longrightarrow> work_due (console_step cd cfg (Enter i) c) < work_due c"
  using work_put [of i c "console_step cd cfg (Enter i) c" "(si_threads c ! i)\<lparr>th_in := True\<rparr>"]
  by (simp add: needed_def)

lemma move_work:
  "i < length (si_threads c) \<Longrightarrow> th_in (si_threads c ! i) \<Longrightarrow> th_prog (si_threads c ! i) = a # p \<Longrightarrow>
   work_due (console_step cd cfg (Move i) c) < work_due c"
  using work_put [of i c "console_step cd cfg (Move i) c" "(si_threads c ! i)\<lparr>th_prog := p\<rparr>"]
  by (simp add: needed_def on_col_def)

lemma goroutine_work: "goroutine_step cd cfg c c' \<Longrightarrow> c' = c \<or> work_due c' < work_due c"
proof -
  have "console_step cd cfg (Enter i) c = c \<or> work_due (console_step cd cfg (Enter i) c) < work_due c" for i
    by (cases cd cfg i c rule: enter_cases) (use enter_work in blast)+
  moreover have "console_step cd cfg (Move i) c = c \<or> work_due (console_step cd cfg (Move i) c) < work_due c" for i
    by (cases cd cfg i c rule: move_cases) (use move_work in blast)+
  ultimately show "goroutine_step cd cfg c c' \<Longrightarrow> ?thesis" unfolding goroutine_step_def by blast
qed

lemma somebody_goes_on:
  assumes "lively cd cfg c" and "t \<in> set (si_threads c)" and "needed t \<noteq> 0"
  shows "\<exists>c'. goroutine_step cd cfg c c' \<and> work_due c' < work_due c"
proof -
  let ?goes = "\<lambda>t. th_in t \<and> th_prog t \<noteq> []"
  show ?thesis
  proof (cases "\<exists>t\<in>set (si_threads c). ?goes t")
    case True
    then obtain i where "i < length (si_threads c)" "?goes (si_threads c ! i)" by (auto simp: in_set_conv_nth)
    then show ?thesis
      using move_work [of i c] unfolding goroutine_step_def by (cases "th_prog (si_threads c ! i)") blast+
  next
    case False
    then have "visits_inside (si_threads c) = 0" by (auto simp: visits_inside_def filter_empty_conv)
    moreover obtain i where i: "i < length (si_threads c)" "si_threads c ! i = t"
      using assms(2) by (auto simp: in_set_conv_nth)
    moreover have "\<not> th_in t" using False assms(2,3) by (auto simp: needed_def)
    moreover have "on_course cd t" using assms(1,2) by (simp add: lively_def)
    ultimately have "work_due (console_step cd cfg (Enter i) c) < work_due c"
      by (intro enter_work) (auto simp: on_course_def is_visit_def split: duty.splits)
    then show ?thesis unfolding goroutine_step_def by blast
  qed
qed

lemma no_work_due: "0 < work_due c \<Longrightarrow> \<exists>t\<in>set (si_threads c). needed t \<noteq> 0"
  by (auto simp: work_due_def cong: map_cong intro: ccontr)

interpretation goroutines: settling_system "goroutine_step cd cfg" "lively cd cfg" work_due for cd cfg
proof
  fix c c'
  assume step: "goroutine_step cd cfg c c'"
  then show "lively cd cfg c \<Longrightarrow> lively cd cfg c'" using step_lively unfolding goroutine_step_def by blast
  show "work_due c' \<le> work_due c" using goroutine_work [OF step] by auto
next
  fix c
  assume "lively cd cfg c" and "0 < work_due c"
  then show "\<exists>c'. goroutine_step cd cfg c c' \<and> work_due c' < work_due c"
    using no_work_due somebody_goes_on by blast
qed

section \<open>The property of the rounds\<close>

lemma rested: "work_due c = 0 \<Longrightarrow> t \<in> set (si_threads c) \<Longrightarrow> th_prog t = []"
  by (auto simp: work_due_def needed_def)

lemma goroutines_run: "(goroutine_step cd cfg)\<^sup>*\<^sup>* c c' \<Longrightarrow> \<exists>es. c' = console_run cd cfg es c"
proof (induction rule: rtranclp_induct)
  case base
  then show ?case by (intro exI [of _ "[]"]) simp
next
  case (step x y)
  then obtain es i where "x = console_run cd cfg es c"
    "y = console_run cd cfg [Enter i] x \<or> y = console_run cd cfg [Move i] x"
    by (auto simp: goroutine_step_def run_Cons simp del: console_step.simps)
  then show ?case by (metis run_append)
qed

lemma reached_lively: "config_ok cfg \<Longrightarrow> lively cd cfg (console_run cd cfg es (new_console d))"
proof (rule run_invariant)
  show "config_ok cfg \<Longrightarrow> lively cd cfg (new_console d)"
    using new_rounds by (simp add: lively_def config_ok_def new_console_def)
qed (rule step_lively)


text \<open>In the midst of a round of two hosts, each visited by a goroutine of its own.\<close>

definition demo_midst :: site where
  "demo_midst = console_run unit_codec demo_pair
     [Tick, Launch (1100 * second) demo_answers, Launch (1100 * second) demo_answers, Enter 1, Enter 0]
     (new_console empty_db)"

lemma demo_pair_ok: "config_ok demo_pair"
  by (simp add: config_ok_def demo_pair_def demo_config_def demo_site_def go_time)


section \<open>No host is forgotten\<close>

text \<open>
  The clock readings of the visits of host \<open>n\<close> that the events of a run start: those of the rounds,
  and those of the operations, which visit their host after a command that went well and, for a
  refresh, once more before.
\<close>

definition job_visits :: "outcome \<Rightarrow> job \<Rightarrow> time list" where
  "job_visits oc j =
     (if jb_verb j = ''refresh'' then [an_later (oc_first oc), an_later (oc_again oc)]
      else if oc_command oc (jb_verb j) = None then [an_later (oc_again oc)] else [])"

fun visits_of :: "config \<Rightarrow> string \<Rightarrow> console_event \<Rightarrow> site \<Rightarrow> time list" where
  "visits_of cfg n (Request ev r oc) c =
     (case job_of ev cfg r (si_server c) of
        None \<Rightarrow> []
      | Some j \<Rightarrow> if hc_name (jb_host j) = n then job_visits oc j else [])"
| "visits_of cfg n (Launch now a) c =
     (case si_round c of
        Launching (h # hs) \<Rightarrow>
          if hc_name h = n \<and> \<not> hc_disabled h \<and> due now n (si_col c) then [an_later a] else []
      | _ \<Rightarrow> [])"
| "visits_of cfg n _ c = []"

fun visit_times :: "codec \<Rightarrow> config \<Rightarrow> string \<Rightarrow> console_event list \<Rightarrow> site \<Rightarrow> time list" where
  "visit_times cd cfg n [] c = []"
| "visit_times cd cfg n (e # es) c = visits_of cfg n e c @ visit_times cd cfg n es (console_step cd cfg e c)"

text \<open>What puts host \<open>n\<close> off does so from a clock reading that is not after \<open>T\<close>.\<close>

fun notes_by :: "time \<Rightarrow> string \<Rightarrow> atom \<Rightarrow> bool" where
  "notes_by T n (NoteFailure t m) \<longleftrightarrow> (m = n \<longrightarrow> t \<le> T)"
| "notes_by T n _ \<longleftrightarrow> True"

lemma visit_notes:
  "(hc_name h = n \<Longrightarrow> an_later a \<le> T) \<Longrightarrow> x \<in> set (visit_prog cd a h) \<Longrightarrow> notes_by T n x"
  by (auto simp: visit_prog_def Let_def dest!: save_prog_atoms split: sum.splits option.splits)

lemma action_notes:
  assumes "\<And>t. hc_name (jb_host j) = n \<Longrightarrow> t \<in> set (job_visits oc j) \<Longrightarrow> t \<le> T"
    and "x \<in> set (th_prog (operation_thread cd oc j))"
  shows "notes_by T n x"
  using assms by (cases "oc_command oc (jb_verb j)"; cases "jb_verb j = ''refresh''")
    (auto simp: operation_thread_def action_prog_def job_visits_def Let_def intro: visit_notes)

definition due_after :: "time \<Rightarrow> string \<Rightarrow> collector \<Rightarrow> bool" where
  "due_after T n c \<longleftrightarrow> (\<forall>b. co_bo c n = Some b \<longrightarrow> bk_next b \<le> T)"

lemma due_after_due: "due_after T n c \<Longrightarrow> T < now \<Longrightarrow> due now n c"
  by (auto simp: due_after_def due_def split: option.splits)

lemma failure_delay_max: "failure_delay cfg k \<le> 6 * hour"
  by (simp add: failure_delay_def max_backoff_def Let_def)

lemma atom_due_after:
  "due_after (T + 6 * hour) n c \<Longrightarrow> notes_by T n a \<Longrightarrow> due_after (T + 6 * hour) n (atom_do cd cfg a c)"
proof (cases a)
  case (NoteFailure t m)
  assume "due_after (T + 6 * hour) n c" "notes_by T n a"
  with NoteFailure failure_delay_max [of cfg "(case co_bo c n of None \<Rightarrow> 0 | Some b \<Rightarrow> bk_fails b) + 1"] show ?thesis
    by (auto simp: due_after_def note_failure_def Let_def)
qed (simp_all add: due_after_def note_success_def)

text \<open>No visit of the host made or under way puts it off beyond six hours after \<open>T\<close>.\<close>

definition timely :: "time \<Rightarrow> string \<Rightarrow> site \<Rightarrow> bool" where
  "timely T n c \<longleftrightarrow> due_after (T + 6 * hour) n (si_col c) \<and> (\<forall>a\<in>pending (si_threads c). notes_by T n a)"

lemma step_pending_notes:
  assumes "\<forall>a\<in>pending (si_threads c). notes_by T n a" and "\<And>t. t \<in> set (visits_of cfg n e c) \<Longrightarrow> t \<le> T"
  shows "\<forall>a\<in>pending (si_threads (console_step cd cfg e c)). notes_by T n a"
proof (cases e)
  case (Request ev r oc)
  have "notes_by T n a" if "job_of ev cfg r (si_server c) = Some j" "a \<in> set (th_prog (operation_thread cd oc j))" for j a
    by (rule action_notes [OF _ that(2)]) (use assms(2) Request that(1) in simp)
  with Request assms(1) show ?thesis by (auto split: option.splits)
next
  case (Launch now a)
  show ?thesis
    unfolding Launch
  proof (cases cd cfg now a c rule: launch_cases)
    case (launches h hs)
    have "notes_by T n x" if "x \<in> set (visit_prog cd a h)" for x
      by (rule visit_notes [OF _ that]) (use assms(2) Launch launches in auto)
    with launches assms(1) show "\<forall>x\<in>pending (si_threads (console_step cd cfg (Launch now a) c)). notes_by T n x"
      by (auto simp: visit_thread_def)
  qed (use assms(1) in auto)
next
  case (Wrap now)
  have "notes_by T n a" if "a \<in> fresh cd (Wrap now)" for a using that by auto
  with assms(1) pending_step [of cd cfg "Wrap now" c] show ?thesis unfolding Wrap by blast
qed (use assms(1) pending_step [of cd cfg e c] in auto)

lemma step_timely:
  assumes "timely T n c" and "\<And>t. t \<in> set (visits_of cfg n e c) \<Longrightarrow> t \<le> T"
  shows "timely T n (console_step cd cfg e c)"
proof -
  have "due_after (T + 6 * hour) n (si_col (console_step cd cfg e c))"
  proof (cases e)
    case (Request ev r oc)
    with assms(1) handle_effect show ?thesis by (simp add: timely_def due_after_def)
  next
    case (Launch now a)
    show ?thesis
      unfolding Launch by (cases cd cfg now a c rule: launch_cases) (use assms in \<open>simp_all add: timely_def\<close>)
  next
    case (Move i)
    show ?thesis
      unfolding Move
    proof (cases cd cfg i c rule: move_cases)
      case (acts a p)
      then have "notes_by T n a" using assms(1) pending_nth [OF acts(1)] by (auto simp: timely_def)
      with assms(1) atom_due_after show "due_after (T + 6 * hour) n (si_col (console_step cd cfg (Move i) c))"
        unfolding acts(4) by (simp add: timely_def on_col_def)
    qed (use assms in \<open>simp add: timely_def\<close>)
  qed (use assms in \<open>simp_all add: timely_def\<close>)
  moreover have "\<forall>a\<in>pending (si_threads (console_step cd cfg e c)). notes_by T n a"
    by (rule step_pending_notes) (use assms in \<open>simp_all add: timely_def\<close>)
  ultimately show ?thesis by (simp add: timely_def)
qed

lemma run_timely:
  "timely T n c \<Longrightarrow> (\<And>t. t \<in> set (visit_times cd cfg n es c) \<Longrightarrow> t \<le> T) \<Longrightarrow> timely T n (console_run cd cfg es c)"
proof (induction es arbitrary: c)
  case (Cons e es)
  have "timely T n (console_step cd cfg e c)" by (rule step_timely [OF Cons.prems(1)]) (use Cons.prems(2) in simp)
  then show ?case unfolding run_Cons by (rule Cons.IH) (use Cons.prems(2) in simp)
qed (simp add: console_run_def)

text \<open>
  C14. No host is forgotten. However often a host has failed, whatever operators did in between, and
  whenever the other hosts were visited, the first round that comes to it more than six hours
  after its own last visit, in a round or by an operation, visits it: if it is enabled, its
  goroutine starts, the round cannot end before that visit has, and, when the database accepts
  the insertions of checks, in every run in which the visit has come to its end the table of
  checks has gained its check.
\<close>

theorem no_host_forgotten:
  assumes "si_round c = Launching (h # hs)" and "\<not> hc_disabled h"
    and "c = console_run cd cfg es (new_console d)"
    and "\<And>t. t \<in> set (visit_times cd cfg (hc_name h) es (new_console d)) \<Longrightarrow> t + 6 * hour < now"
    and "\<not> db_fails d SInsertCheck"
  shows "\<exists>i. i < length (si_threads (console_step cd cfg (Launch now a) c)) \<and>
    th_duty (si_threads (console_step cd cfg (Launch now a) c) ! i) = Visit h \<and>
    (\<forall>fs t. th_prog (si_threads (console_run cd cfg (Launch now a # fs) c) ! i) \<noteq> [] \<longrightarrow>
      console_step cd cfg (Wrap t) (console_run cd cfg (Launch now a # fs) c) =
        console_run cd cfg (Launch now a # fs) c) \<and>
    (\<forall>fs. th_prog (si_threads (console_run cd cfg (Launch now a # fs) c) ! i) = [] \<longrightarrow>
      (\<exists>new. prefix (db_checks (si_db c) @ new) (db_checks (si_db (console_run cd cfg (Launch now a # fs) c))) \<and>
        (\<exists>row\<in>set new. cr_host row = hc_name h \<and> check_of row = stored_check (visit_check h a))))"
proof -
  let ?c = "console_step cd cfg (Launch now a) c" and ?i = "length (si_threads c)"
  define T where "T = now - 6 * hour - 1"
  have "timely T (hc_name h) (new_console d)"
    by (simp add: timely_def due_after_def new_console_def new_server_def new_collector_def)
  moreover have "t \<le> T" if "t \<in> set (visit_times cd cfg (hc_name h) es (new_console d))" for t
    using assms(4) [OF that] by (simp add: T_def)
  ultimately have "timely T (hc_name h) c" unfolding assms(3) by (rule run_timely)
  moreover have "T + 6 * hour < now" by (simp add: T_def)
  ultimately have "due now (hc_name h) (si_col c)" by (auto simp: timely_def intro: due_after_due)
  with assms(1,2) have c: "?c = c\<lparr>si_round := Launching hs, si_threads := si_threads c @ [visit_thread cd a h]\<rparr>"
    by simp
  then have i: "?i < length (si_threads ?c)" "th_duty (si_threads ?c ! ?i) = Visit h"
    and prog: "th_prog (si_threads ?c ! ?i) = visit_prog cd a h"
    by (simp_all add: visit_thread_def)
  have same: "si_db ?c = si_db c" unfolding c by simp
  then have kept: "steady (si_db (new_console d)) (si_db ?c)"
    using run_steady [of "new_console d" cd cfg es] assms(3) by simp
  have gained: "\<exists>new. prefix (db_checks (si_db c) @ new) (db_checks (si_db (console_run cd cfg fs ?c))) \<and>
      (\<exists>row\<in>set new. cr_host row = hc_name h \<and> check_of row = stored_check (visit_check h a))"
    if ended: "th_prog (si_threads (console_run cd cfg fs ?c) ! ?i) = []" for fs
  proof -
    have "RecordCheck (visit_check h a) \<in> set (filter records (visit_prog cd a h))"
      by (simp add: visit_prog_records)
    then have check: "RecordCheck (visit_check h a) \<in> set (visit_prog cd a h)" by simp
    with visit_prog_atoms have host: "ck_host (visit_check h a) = hc_name h" by fastforce
    from taken_effect [OF i(1), of "RecordCheck (visit_check h a)" cd cfg fs] check prog ended obtain x where
      x: "steady (si_db ?c) (co_db x)" "steady (co_db (atom_do cd cfg (RecordCheck (visit_check h a)) x))
        (si_db (console_run cd cfg fs ?c))" by auto
    have "\<not> db_fails (co_db x) SInsertCheck"
      using x(1) kept assms(5) by (simp add: steady_def new_console_def new_server_def new_collector_def)
    then obtain row where row: "db_checks (co_db (atom_do cd cfg (RecordCheck (visit_check h a)) x)) =
        db_checks (co_db x) @ [row]" "cr_host row = hc_name h" "check_of row = stored_check (visit_check h a)"
      by (simp add: on_db_db record_check_def check_of_row) (simp add: check_row_of_def host)
    obtain mid where "prefix (db_checks (si_db ?c) @ mid @ [row]) (db_checks (si_db (console_run cd cfg fs ?c)))"
      using prefix_later [of "db_checks (si_db ?c)" "db_checks (co_db x)"] x row(1) unfolding steady_def by metis
    with row show ?thesis unfolding same by (intro exI [of _ "mid @ [row]"]) simp
  qed
  have waits: "console_step cd cfg (Wrap t) (console_run cd cfg fs ?c) = console_run cd cfg fs ?c"
    if "th_prog (si_threads (console_run cd cfg fs ?c) ! ?i) \<noteq> []" for fs t
    using thread_run [OF i(1), of cd cfg fs] i(2) that by (auto simp: is_visit_def dest: nth_mem)
  from i waits gained show ?thesis unfolding run_Cons by blast
qed

text \<open>A first round finds that the host refuses; the next one is seven hours later.\<close>

lemma demo_visit_prog: "\<exists>a b c. visit_prog unit_codec demo_answers demo_site = [a, b, c]"
  by (simp add: visit_prog_def save_prog_def unit_codec_def demo_answers_def demo_site_def probe_http_def Let_def)

lemma demo_round_done:
  assumes "visit_prog unit_codec demo_answers h = [a, b, c]" and "\<not> hc_disabled h" and "co_bo (sv_col s) (hc_name h) = None"
  shows "\<exists>s' ts. console_run unit_codec cfg ([Launch 0 demo_answers, Enter 0] @ [Move 0, Move 0, Move 0] @ [Wrap t, Move 1, Rest, Tick])
      \<lparr>si_server = s, si_threads = [], si_round = Launching [h], si_begun = 1\<rparr> =
    \<lparr>si_server = s', si_threads = ts, si_round = Launching (cfg_hosts cfg), si_begun = 2\<rparr>"
proof -
  let ?t = "\<lambda>p. \<lparr>th_duty = Visit h, th_in = True, th_prog = p\<rparr>"
  have "console_run unit_codec cfg [Launch 0 demo_answers, Enter 0]
      \<lparr>si_server = s, si_threads = [], si_round = Launching [h], si_begun = 1\<rparr> =
    \<lparr>si_server = s, si_threads = [?t [a, b, c]], si_round = Launching [], si_begun = 1\<rparr>"
    using assms by (simp add: console_run_def due_def visit_thread_def visits_inside_def is_visit_def)
  moreover have "\<exists>s'. console_run unit_codec cfg [Move 0, Move 0, Move 0]
      \<lparr>si_server = s, si_threads = [?t [a, b, c]], si_round = Launching [], si_begun = 1\<rparr> =
    \<lparr>si_server = s', si_threads = [?t []], si_round = Launching [], si_begun = 1\<rparr>"
    by (simp add: console_run_def on_col_def)
  then obtain s' where "console_run unit_codec cfg [Move 0, Move 0, Move 0]
      \<lparr>si_server = s, si_threads = [?t [a, b, c]], si_round = Launching [], si_begun = 1\<rparr> =
    \<lparr>si_server = s', si_threads = [?t []], si_round = Launching [], si_begun = 1\<rparr>" by blast
  moreover have "\<exists>s'' ts. console_run unit_codec cfg [Wrap t, Move 1, Rest, Tick]
      \<lparr>si_server = s', si_threads = [?t []], si_round = Launching [], si_begun = 1\<rparr> =
    \<lparr>si_server = s'', si_threads = ts, si_round = Launching (cfg_hosts cfg), si_begun = 2\<rparr>"
    by (simp add: console_run_def closing_thread_def close_prog_def on_col_def)
  ultimately show ?thesis by (simp only: run_append)
qed

definition demo_rounds :: "console_event list" where
  "demo_rounds = Tick # [Launch 0 demo_answers, Enter 0] @ [Move 0, Move 0, Move 0] @ [Wrap (8 * second), Move 1, Rest, Tick]"

lemma demo_rounds_launching:
  "si_round (console_run unit_codec demo_config demo_rounds (new_console empty_db)) = Launching [demo_site]"
proof -
  obtain a b c where prog: "visit_prog unit_codec demo_answers demo_site = [a, b, c]"
    using demo_visit_prog by blast
  have hosts: "cfg_hosts demo_config = [demo_site]" "\<not> hc_disabled demo_site"
    by (simp_all add: demo_config_def demo_site_def)
  have "co_bo (sv_col (new_server (new_collector empty_db))) (hc_name demo_site) = None"
    by (simp add: new_server_def new_collector_def)
  from demo_round_done [OF prog hosts(2) this, of demo_config "8 * second"] obtain s ts where
    round: "console_run unit_codec demo_config
      ([Launch 0 demo_answers, Enter 0] @ [Move 0, Move 0, Move 0] @ [Wrap (8 * second), Move 1, Rest, Tick])
      \<lparr>si_server = new_server (new_collector empty_db), si_threads = [], si_round = Launching [demo_site], si_begun = 1\<rparr> =
      \<lparr>si_server = s, si_threads = ts, si_round = Launching [demo_site], si_begun = 2\<rparr>"
    unfolding hosts(1) by blast
  have "console_step unit_codec demo_config Tick (new_console empty_db) =
      \<lparr>si_server = new_server (new_collector empty_db), si_threads = [], si_round = Launching [demo_site], si_begun = 1\<rparr>"
    by (simp add: new_console_def hosts(1))
  then show ?thesis unfolding demo_rounds_def run_Cons by (simp only: round) simp
qed

text \<open>A run without operations, all of whose visits read the same clock.\<close>

lemma visit_times_launches:
  assumes "\<And>e. e \<in> set es \<Longrightarrow> (case e of Request ev r oc \<Rightarrow> False | Launch now a \<Rightarrow> an_later a = T | _ \<Rightarrow> True)"
    and "t \<in> set (visit_times cd cfg n es c)"
  shows "t = T"
  using assms
proof (induction es arbitrary: c)
  case (Cons e es)
  have head: "t = T" if "t \<in> set (visits_of cfg n e c)"
    using that Cons.prems(1) [of e] by (cases e) (auto split: round_state.splits list.splits if_splits)
  from Cons.prems(2) consider "t \<in> set (visits_of cfg n e c)" | "t \<in> set (visit_times cd cfg n es (console_step cd cfg e c))"
    by auto
  then show ?case by cases (use head Cons.IH Cons.prems(1) in auto)
qed simp

theorem no_host_forgotten_witness:
  "\<exists>fs new. prefix new (db_checks (si_db (console_run unit_codec demo_config
       (demo_rounds @ Launch (7 * hour) demo_answers # fs) (new_console empty_db)))) \<and>
     (\<exists>row\<in>set new. cr_host row = ''web'' \<and> check_of row = stored_check (visit_check demo_site demo_answers))"
proof -
  let ?c = "console_run unit_codec demo_config demo_rounds (new_console empty_db)"
  have demo: "\<not> hc_disabled demo_site" "hc_name demo_site = ''web''" "\<not> db_fails empty_db SInsertCheck"
    by (simp_all add: demo_site_def empty_db_def)
  have late: "t + 6 * hour < 7 * hour"
    if "t \<in> set (visit_times unit_codec demo_config (hc_name demo_site) demo_rounds (new_console empty_db))" for t
  proof -
    have "t = 6 * second"
      by (rule visit_times_launches [OF _ that]) (auto simp: demo_rounds_def demo_answers_def)
    then show ?thesis by (simp add: go_time)
  qed
  from no_host_forgotten [OF demo_rounds_launching demo(1) refl late demo(3), of demo_answers] obtain i where
    gained: "\<forall>fs. th_prog (si_threads (console_run unit_codec demo_config (Launch (7 * hour) demo_answers # fs) ?c) ! i) = [] \<longrightarrow>
      (\<exists>new. prefix (db_checks (si_db ?c) @ new)
          (db_checks (si_db (console_run unit_codec demo_config (Launch (7 * hour) demo_answers # fs) ?c))) \<and>
        (\<exists>row\<in>set new. cr_host row = hc_name demo_site \<and>
          check_of row = stored_check (visit_check demo_site demo_answers)))"
    and i: "i < length (si_threads (console_step unit_codec demo_config (Launch (7 * hour) demo_answers) ?c))" by blast
  let ?c' = "console_step unit_codec demo_config (Launch (7 * hour) demo_answers) ?c"
  have "lively unit_codec demo_config ?c'" by (intro step_lively reached_lively demo_config_ok)
  from goroutines.can_rest [OF this] obtain fs where rest: "work_due (console_run unit_codec demo_config fs ?c') = 0"
    using goroutines_run by blast
  have "th_prog (si_threads (console_run unit_codec demo_config fs ?c') ! i) = []"
    using thread_run [OF i, of unit_codec demo_config fs] by (intro rested [OF rest] nth_mem) blast
  with gained obtain new where "prefix (db_checks (si_db ?c) @ new)
      (db_checks (si_db (console_run unit_codec demo_config (Launch (7 * hour) demo_answers # fs) ?c)))"
    "\<exists>row\<in>set new. cr_host row = hc_name demo_site \<and> check_of row = stored_check (visit_check demo_site demo_answers)"
    unfolding run_Cons by blast
  then show ?thesis
    by (intro exI [of _ fs] exI [of _ "db_checks (si_db ?c) @ new"]) (auto simp: run_append demo(2))
qed

end
