(* ===== verification/Amarre_Console_Serial.thy ===== *)
theory Amarre_Console_Serial
  imports Amarre_Console_Rounds
begin

text \<open>
  A round of the running console is \<open>collect_all\<close>: the statements the goroutines of a round take
  are an interleaving of the visits of the hosts due, so the theorem of \<open>Amarre_Rounds\<close> applies
  to what the events of the console do.
\<close>

section \<open>The statements of a run\<close>

fun acted :: "codec \<Rightarrow> config \<Rightarrow> console_event list \<Rightarrow> site \<Rightarrow> atom list" where
  "acted cd cfg [] c = []"
| "acted cd cfg (Move i # es) c =
     (if i < length (si_threads c) \<and> th_in (si_threads c ! i) \<and> th_prog (si_threads c ! i) \<noteq> []
      then [hd (th_prog (si_threads c ! i))] else []) @ acted cd cfg es (console_step cd cfg (Move i) c)"
| "acted cd cfg (e # es) c = acted cd cfg es (console_step cd cfg e c)"

text \<open>The events of one round: every host is looked at with the clock at \<open>now\<close> and answers as \<open>ans\<close> says.\<close>

fun of_round :: "time \<Rightarrow> (string \<Rightarrow> answers) \<Rightarrow> console_event \<Rightarrow> site \<Rightarrow> bool" where
  "of_round now ans (Launch t a) c \<longleftrightarrow>
     t = now \<and> (case si_round c of Launching (h # hs) \<Rightarrow> a = ans (hc_name h) | _ \<Rightarrow> True)"
| "of_round now ans (Enter i) c \<longleftrightarrow> True"
| "of_round now ans (Move i) c \<longleftrightarrow> True"
| "of_round now ans e c \<longleftrightarrow> False"

definition left_to_launch :: "site \<Rightarrow> host_config list" where
  "left_to_launch c = (case si_round c of Launching hs \<Rightarrow> hs | _ \<Rightarrow> [])"

definition due_of :: "time \<Rightarrow> host_config list \<Rightarrow> collector \<Rightarrow> host_config list" where
  "due_of now hs c = filter (\<lambda>h. \<not> hc_disabled h \<and> due now (hc_name h) c) hs"

definition apart :: "site \<Rightarrow> bool" where
  "apart c \<longleftrightarrow> distinct (map hc_name (left_to_launch c)) \<and>
     (\<forall>a\<in>pending (si_threads c). visiting a \<and> atom_host a \<notin> set (map hc_name (left_to_launch c)))"

lemma other_host_due:
  assumes "atom_host a \<notin> set (map hc_name hs)" and "visiting a"
  shows "due_of now hs (atom_do cd cfg a c) = due_of now hs c"
proof -
  have "due now (hc_name h) (atom_do cd cfg a c) = due now (hc_name h) c" if "h \<in> set hs" for h
  proof -
    have "\<not> touches_bo (hc_name h) a" using that assms by (cases a) auto
    then show ?thesis using bo.unseen [of "hc_name h" a cd cfg c] by (simp add: due_def)
  qed
  then show ?thesis unfolding due_of_def by (metis (no_types, lifting) filter_cong)
qed

lemma round_trace:
  assumes "proper (console_step cd cfg) (of_round now ans) es c" and "apart c"
    and "si_round (console_run cd cfg es c) = Launching []" and "\<exists>hs. si_round c = Launching hs"
    and "\<And>t. t \<in> set (si_threads (console_run cd cfg es c)) \<Longrightarrow> th_prog t = []"
  shows "interleaves (map th_prog (si_threads c) @
        map (\<lambda>h. visit_prog cd (ans (hc_name h)) h) (due_of now (left_to_launch c) (si_col c))) (acted cd cfg es c) \<and>
    si_col (console_run cd cfg es c) = fold (atom_do cd cfg) (acted cd cfg es c) (si_col c)"
  using assms
proof (induction es arbitrary: c)
  case Nil
  then show ?case by (auto simp: left_to_launch_def due_of_def nothing_left)
next
  case (Cons e es)
  let ?c = "console_step cd cfg e c"
  let ?goal = "\<lambda>c es. interleaves (map th_prog (si_threads c) @
      map (\<lambda>h. visit_prog cd (ans (hc_name h)) h) (due_of now (left_to_launch c) (si_col c))) (acted cd cfg es c) \<and>
    si_col (console_run cd cfg es c) = fold (atom_do cd cfg) (acted cd cfg es c) (si_col c)"
  have step: "?goal ?c es" if "apart ?c" "\<exists>hs. si_round ?c = Launching hs"
    using Cons.IH [of ?c] Cons.prems that by (simp add: run_Cons del: console_step.simps)
  show ?case
  proof (cases e)
    case (Launch t a)
    with Cons.prems have t: "t = now" by (cases "si_round c") auto
    show ?thesis
    proof (cases cd cfg t a c rule: launch_cases)
      case idle
      with step Launch Cons.prems show ?thesis by (simp add: run_Cons del: console_step.simps)
    next
      case (skips h hs)
      then have "apart ?c" using Launch Cons.prems(2) by (simp add: apart_def left_to_launch_def del: console_step.simps)
      moreover have "due_of now (h # hs) (si_col c) = due_of now hs (si_col c)" using skips(2) t by (auto simp: due_of_def)
      ultimately show ?thesis
        using step Launch skips by (simp add: run_Cons left_to_launch_def del: console_step.simps)
    next
      case (launches h hs)
      then have "a = ans (hc_name h)" using Launch Cons.prems(1) by simp
      moreover have "apart ?c"
        using Launch Cons.prems(2) launches visit_prog_atoms [of _ cd a h]
        by (auto simp: apart_def left_to_launch_def visit_thread_def simp del: console_step.simps)
      moreover have "due_of now (h # hs) (si_col c) = h # due_of now hs (si_col c)"
        using launches(2,3) t by (simp add: due_of_def)
      ultimately show ?thesis
        using step Launch launches by (simp add: run_Cons left_to_launch_def visit_thread_def del: console_step.simps)
    qed
  next
    case (Enter i)
    show ?thesis
    proof (cases cd cfg i c rule: enter_cases)
      case idle
      with step Enter Cons.prems show ?thesis by (simp add: run_Cons del: console_step.simps)
    next
      case enters
      have same: "map th_prog ((si_threads c)[i := (si_threads c ! i)\<lparr>th_in := True\<rparr>]) = map th_prog (si_threads c)"
        using enters(1) by (simp add: map_update) (metis list_update_id map_update nth_map length_map)
      then have "pending ((si_threads c)[i := (si_threads c ! i)\<lparr>th_in := True\<rparr>]) = pending (si_threads c)"
        unfolding pending_def by (metis image_image set_map)
      with same step Enter enters Cons.prems show ?thesis
        by (simp add: run_Cons apart_def left_to_launch_def del: console_step.simps)
    qed
  next
    case (Move i)
    show ?thesis
    proof (cases "i < length (si_threads c) \<and> th_in (si_threads c ! i) \<and> th_prog (si_threads c ! i) \<noteq> []")
      case False
      then have "?c = c" using Move by (cases "th_prog (si_threads c ! i)") auto
      with False step Move Cons.prems show ?thesis by (auto simp: run_Cons simp del: console_step.simps)
    next
      case True
      then obtain a p where prog: "th_prog (si_threads c ! i) = a # p" by (cases "th_prog (si_threads c ! i)") auto
      let ?ts = "(si_threads c)[i := (si_threads c ! i)\<lparr>th_prog := p\<rparr>]"
      from True prog have c: "?c = (on_col (atom_do cd cfg a) c)\<lparr>si_threads := ?ts\<rparr>" using Move by simp
      have "a \<in> pending (si_threads c)" using True prog pending_nth [of i "si_threads c"] by auto
      with Cons.prems(2) have a: "visiting a" "atom_host a \<notin> set (map hc_name (left_to_launch c))"
        by (auto simp: apart_def)
      have "pending ?ts \<subseteq> pending (si_threads c)"
        using pending_put [of "si_threads c" i "(si_threads c ! i)\<lparr>th_prog := p\<rparr>"]
          pending_nth [of i "si_threads c"] True prog by auto
      moreover have same: "left_to_launch ?c = left_to_launch c" unfolding c by (simp add: left_to_launch_def on_col_def)
      ultimately have "apart ?c" using Cons.prems(2) unfolding apart_def same by (auto simp: c)
      moreover have "\<exists>hs. si_round ?c = Launching hs" using Cons.prems(4) unfolding c by (simp add: on_col_def)
      ultimately have IH: "?goal ?c es" by (rule step)
      have "due_of now (left_to_launch c) (si_col ?c) = due_of now (left_to_launch c) (si_col c)"
        using other_host_due [OF a(2,1)] unfolding c by (simp add: on_col_def)
      moreover have "map th_prog (si_threads ?c) = (map th_prog (si_threads c))[i := p]"
        unfolding c by (simp add: map_update)
      ultimately have "interleaves ((map th_prog (si_threads c) @ map (\<lambda>h. visit_prog cd (ans (hc_name h)) h)
          (due_of now (left_to_launch c) (si_col c)))[i := p]) (acted cd cfg es ?c)"
        using IH True unfolding same by (simp add: list_update_append)
      then have "interleaves (map th_prog (si_threads c) @ map (\<lambda>h. visit_prog cd (ans (hc_name h)) h)
          (due_of now (left_to_launch c) (si_col c))) (a # acted cd cfg es ?c)"
        by (rule one_moves [rotated 2]) (use True prog in \<open>simp_all add: nth_append\<close>)
      moreover have "si_col ?c = atom_do cd cfg a (si_col c)" unfolding c by (simp add: on_col_def)
      ultimately show ?thesis using IH True prog Move by (simp add: run_Cons del: console_step.simps)
    qed
  qed (use Cons.prems in simp_all)
qed

section \<open>Property\<close>

text \<open>
  C12. A round is \<open>CollectAll\<close>, in turn. Start a round when no goroutine has anything left, and let
  it go on in any way, with no request in between: visits start as the loop comes to their hosts, wait for one of
  the four places, and take every statement between those of the others. Once all have come to
  their end, there is an order in which \<open>collect_all\<close> visits the hosts one after the other and
  leaves the same checks with the same numbers, the same back-off, caches, trees and tables, and
  the same metadata row under every key; and the fleet, host and supervision pages cannot tell
  the two apart.
\<close>

theorem concurrent_round_is_serial:
  assumes "config_ok cfg" and "si_round c = Resting" and "\<And>t. t \<in> set (si_threads c) \<Longrightarrow> th_prog t = []"
    and "proper (console_step cd cfg) (of_round now ans) es (console_step cd cfg Tick c)"
    and "si_round (console_run cd cfg (Tick # es) c) = Launching []"
    and "\<And>t. t \<in> set (si_threads (console_run cd cfg (Tick # es) c)) \<Longrightarrow> th_prog t = []"
  shows "\<exists>sched. (\<forall>hs. mset (sched hs) = mset hs) \<and>
    alike (collect_all sched cd cfg now ans (si_col c)) (si_col (console_run cd cfg (Tick # es) c)) \<and>
    fleet_view t cfg (co_db (collect_all sched cd cfg now ans (si_col c))) =
      fleet_view t cfg (si_db (console_run cd cfg (Tick # es) c)) \<and>
    host_detail cd t cfg name (collect_all sched cd cfg now ans (si_col c)) =
      host_detail cd t cfg name (si_col (console_run cd cfg (Tick # es) c)) \<and>
    sante_fleet (dec_health cd) (dec_probe cd) t cfg (co_db (collect_all sched cd cfg now ans (si_col c))) =
      sante_fleet (dec_health cd) (dec_probe cd) t cfg (si_db (console_run cd cfg (Tick # es) c))"
proof -
  let ?c = "console_step cd cfg Tick c"
  have c: "?c = c\<lparr>si_round := Launching (cfg_hosts cfg), si_begun := Suc (si_begun c)\<rparr>" using assms(2) by simp
  have "pending (si_threads c) = {}" using assms(3) by (simp add: pending_def)
  then have "apart ?c" using assms(1) unfolding c by (simp add: apart_def left_to_launch_def config_ok_def)
  moreover have "\<exists>hs. si_round ?c = Launching hs" unfolding c by simp
  ultimately have trace: "interleaves (map th_prog (si_threads ?c) @
      map (\<lambda>h. visit_prog cd (ans (hc_name h)) h) (due_of now (left_to_launch ?c) (si_col ?c))) (acted cd cfg es ?c) \<and>
    si_col (console_run cd cfg es ?c) = fold (atom_do cd cfg) (acted cd cfg es ?c) (si_col ?c)"
    using round_trace [OF assms(4)] assms(5,6) unfolding run_Cons by blast
  have "due_of now (left_to_launch ?c) (si_col ?c) = due_hosts cfg now (si_col c)"
    unfolding c by (simp add: due_of_def due_hosts_def left_to_launch_def)
  with trace have "interleaves (map th_prog (si_threads c) @
      map (\<lambda>h. visit_prog cd (ans (hc_name h)) h) (due_hosts cfg now (si_col c))) (acted cd cfg es ?c)"
    unfolding c by simp
  then have "interleaves (map (\<lambda>h. visit_prog cd (ans (hc_name h)) h) (due_hosts cfg now (si_col c))) (acted cd cfg es ?c)"
    by (rule interleaves_idle [rotated]) (use assms(3) in auto)
  note serial = interleaved_round [OF assms(1) this]
  have "si_col ?c = si_col c" unfolding c by simp
  with trace have "si_col (console_run cd cfg es ?c) = fold (atom_do cd cfg) (acted cd cfg es ?c) (si_col c)" by metis
  then show ?thesis unfolding run_Cons using serial by metis
qed

text \<open>Two hosts, their statements one from each in turn.\<close>

definition demo_round :: "console_event list" where
  "demo_round = [Launch 0 demo_answers, Launch 0 demo_answers, Enter 1, Enter 0] @
     [Move 1, Move 0, Move 1, Move 0, Move 1, Move 0]"

lemma demo_db_prog: "\<exists>x y z. visit_prog unit_codec demo_answers (demo_site\<lparr>hc_name := ''db''\<rparr>) = [x, y, z]"
  by (simp add: visit_prog_def save_prog_def unit_codec_def demo_answers_def demo_site_def probe_http_def Let_def)

lemma demo_round_run:
  assumes "visit_prog unit_codec demo_answers h = [a, b, c]" "visit_prog unit_codec demo_answers k = [x, y, z]"
    and "\<not> hc_disabled h" "\<not> hc_disabled k"
    and "co_bo (sv_col s) (hc_name h) = None" "co_bo (sv_col s) (hc_name k) = None"
  shows "\<exists>s'. console_run unit_codec cfg demo_round
      \<lparr>si_server = s, si_threads = [], si_round = Launching [h, k], si_begun = 1\<rparr> =
    \<lparr>si_server = s', si_threads = [\<lparr>th_duty = Visit h, th_in = True, th_prog = []\<rparr>,
       \<lparr>th_duty = Visit k, th_in = True, th_prog = []\<rparr>], si_round = Launching [], si_begun = 1\<rparr>"
proof -
  have "console_run unit_codec cfg [Launch 0 demo_answers, Launch 0 demo_answers, Enter 1, Enter 0]
      \<lparr>si_server = s, si_threads = [], si_round = Launching [h, k], si_begun = 1\<rparr> =
    \<lparr>si_server = s, si_threads = [\<lparr>th_duty = Visit h, th_in = True, th_prog = [a, b, c]\<rparr>,
       \<lparr>th_duty = Visit k, th_in = True, th_prog = [x, y, z]\<rparr>], si_round = Launching [], si_begun = 1\<rparr>"
    using assms by (simp add: console_run_def due_def visit_thread_def visits_inside_def is_visit_def)
  moreover have "\<exists>s'. console_run unit_codec cfg [Move 1, Move 0, Move 1, Move 0, Move 1, Move 0]
      \<lparr>si_server = s, si_threads = [\<lparr>th_duty = Visit h, th_in = True, th_prog = [a, b, c]\<rparr>,
        \<lparr>th_duty = Visit k, th_in = True, th_prog = [x, y, z]\<rparr>], si_round = Launching [], si_begun = 1\<rparr> =
    \<lparr>si_server = s', si_threads = [\<lparr>th_duty = Visit h, th_in = True, th_prog = []\<rparr>,
       \<lparr>th_duty = Visit k, th_in = True, th_prog = []\<rparr>], si_round = Launching [], si_begun = 1\<rparr>"
    by (simp add: console_run_def on_col_def)
  ultimately show ?thesis unfolding demo_round_def by (simp only: run_append)
qed

lemma demo_round_proper:
  "proper (console_step cd cfg) (of_round 0 (\<lambda>_. demo_answers)) demo_round c"
proof (rule proper_always)
  show "of_round 0 (\<lambda>_. demo_answers) e c'" if "e \<in> set demo_round" for e c'
    using that by (auto simp: demo_round_def split: round_state.splits list.splits)
qed

theorem concurrent_round_is_serial_witness:
  "\<exists>sched. (\<forall>hs. mset (sched hs) = mset hs) \<and>
     alike (collect_all sched unit_codec demo_pair 0 (\<lambda>_. demo_answers) (si_col (new_console empty_db)))
       (si_col (console_run unit_codec demo_pair (Tick # demo_round) (new_console empty_db)))"
proof -
  let ?h = demo_site and ?k = "demo_site\<lparr>hc_name := ''db''\<rparr>" and ?s = "new_server (new_collector empty_db)"
  have rest: "si_round (new_console empty_db) = Resting" "si_threads (new_console empty_db) = []"
    by (simp_all add: new_console_def)
  obtain a b c x y z where progs: "visit_prog unit_codec demo_answers ?h = [a, b, c]"
    "visit_prog unit_codec demo_answers ?k = [x, y, z]" using demo_visit_prog demo_db_prog by blast
  have on: "\<not> hc_disabled ?h" "\<not> hc_disabled ?k" by (simp_all add: demo_site_def)
  have free: "co_bo (sv_col ?s) n = None" for n by (simp add: new_server_def new_collector_def)
  obtain s' where run: "console_run unit_codec demo_pair demo_round
      \<lparr>si_server = ?s, si_threads = [], si_round = Launching [?h, ?k], si_begun = 1\<rparr> =
    \<lparr>si_server = s', si_threads = [\<lparr>th_duty = Visit ?h, th_in = True, th_prog = []\<rparr>,
       \<lparr>th_duty = Visit ?k, th_in = True, th_prog = []\<rparr>], si_round = Launching [], si_begun = 1\<rparr>"
    using demo_round_run [OF progs on free free] by blast
  have "console_step unit_codec demo_pair Tick (new_console empty_db) =
      \<lparr>si_server = ?s, si_threads = [], si_round = Launching [?h, ?k], si_begun = 1\<rparr>"
    by (simp add: new_console_def demo_pair_def)
  with run have end_state: "console_run unit_codec demo_pair (Tick # demo_round) (new_console empty_db) =
    \<lparr>si_server = s', si_threads = [\<lparr>th_duty = Visit ?h, th_in = True, th_prog = []\<rparr>,
       \<lparr>th_duty = Visit ?k, th_in = True, th_prog = []\<rparr>], si_round = Launching [], si_begun = 1\<rparr>"
    by (simp only: run_Cons)
  have "si_round (console_run unit_codec demo_pair (Tick # demo_round) (new_console empty_db)) = Launching []"
    "th_prog t = []" if "t \<in> set (si_threads (console_run unit_codec demo_pair (Tick # demo_round) (new_console empty_db)))" for t
    using that unfolding end_state by auto
  moreover have "si_round (console_run unit_codec demo_pair (Tick # demo_round) (new_console empty_db)) = Launching []"
    unfolding end_state by simp
  moreover have "th_prog t = []" if "t \<in> set (si_threads (new_console empty_db))" for t using that rest(2) by simp
  ultimately show ?thesis
    using concurrent_round_is_serial [OF demo_pair_ok rest(1) _ demo_round_proper] by blast
qed

end
