(* ===== verification/Amarre_Expiry.thy ===== *)
theory Amarre_Expiry
  imports Amarre_Console
begin

text \<open>
  An invariant carried over by the refinement of \<open>Amarre_Console\<close>: in the machine of tokens no
  session ends later than eight hours after the last event, so the whole console lets nobody in
  after eight hours without a login.
\<close>

fun until :: "time \<Rightarrow> console_event \<Rightarrow> bool" where
  "until T (Request ev r oc) \<longleftrightarrow> ev_now ev \<le> T"
| "until T (Wrap now) \<longleftrightarrow> now \<le> T"
| "until T _ \<longleftrightarrow> True"

definition short_lived :: "time \<Rightarrow> access \<Rightarrow> bool" where
  "short_lived T m \<longleftrightarrow> (\<forall>tok u ip end_at. m tok = Some (u, ip, end_at) \<longrightarrow> end_at \<le> unix_sec T + 28800)"

fun opens_short :: "time \<Rightarrow> access_event \<Rightarrow> bool" where
  "opens_short T (Opens tok u ip end_at) \<longleftrightarrow> end_at \<le> unix_sec T + 28800"
| "opens_short T _ \<longleftrightarrow> True"

section \<open>No cookie lives longer than eight hours\<close>

lemma login_age:
  assumes "session_set (fst (post_login ev r s)) = Some k"
  shows "cookie_max_age k = 28800"
proof -
  from assms not_granted obtain tok where "grants_session (fst (post_login ev r s)) tok" by fastforce
  from granted_answer [OF this] assms show ?thesis
    by (simp add: session_set_session session_ttl_def go_time split: if_splits) (auto simp: go_div_def)
qed

lemma logout_age: "session_set (fst (post_logout ev r s)) = Some k \<Longrightarrow> cookie_max_age k \<le> 28800"
  by (auto simp: post_logout_def Let_def session_set_session go_div_def go_time
      split: sum.splits option.splits if_splits)

lemma handle_age:
  assumes "session_set (fst (handle ev cfg r s)) = Some k"
  shows "cookie_max_age k \<le> 28800"
proof -
  have serve: "cookie_max_age k \<le> 28800" if "session_set (fst (serve ev cfg r s)) = Some k"
    using that login_age logout_age
    by (cases "route_of (rq_method r) (rq_path r)")
      (fastforce simp: serve_def require_auth_def idle_answers split: if_splits)+
  with assms show ?thesis by (auto simp: handle_def split: option.splits if_splits)
qed

lemma told_short:
  assumes "until T e"
  shows "opens_short T (told_by cfg e c)"
proof (cases e)
  case (Request ev r oc)
  have "unix_sec (ev_now ev) \<le> unix_sec T" using assms Request by (simp add: unix_sec_def zdiv_mono1 go_time)
  with Request handle_age show ?thesis
    by (fastforce simp: told_def split: option.splits sum.splits)
qed simp_all

section \<open>The invariant, carried over\<close>

lemma until_by_time: "until T e \<Longrightarrow> by_time T e"
  by (cases e) auto

interpretation expiry: safe_refinement "console_step cd cfg" access_step "told_by cfg" "\<lambda>e c. until T e"
  "\<lambda>c m. represents T (si_db c) m \<and> purges_by T (si_threads c)" "opens_short T" "short_lived T" for cd cfg T
proof
  fix l m
  assume "opens_short T l" and "short_lived T m"
  then show "short_lived T (access_step l m)" by (cases l) (auto simp: short_lived_def)
next
  fix c m e
  assume rel: "represents T (si_db c) m \<and> purges_by T (si_threads c)" and time: "until T e"
  show "represents T (si_db (console_step cd cfg e c)) (access_step (told_by cfg e c) m) \<and>
      purges_by T (si_threads (console_step cd cfg e c))"
    by (rule access.simulates [OF rel until_by_time [OF time]])
  show "opens_short T (told_by cfg e c)" using time by (rule told_short)
qed

lemma proper_until: "(\<And>e. e \<in> set es \<Longrightarrow> until T e) \<Longrightarrow> proper step (\<lambda>e c. until T e) es c"
  by (induction es arbitrary: c) auto

lemma short_access: "(\<And>row. row \<in> set (db_sessions d) \<Longrightarrow> se_expires row \<le> unix_sec T + 28800) \<Longrightarrow> short_lived T (access_of d)"
  by (auto simp: short_lived_def access_of_def bind_eq_Some_conv dest!: find_SomeD)

section \<open>Property\<close>

text \<open>
  C5. Eight hours of silence log everybody out. Let every request and every end of a round in a
  run of the console be at the time \<open>T\<close> or before, from a console with no goroutine under way, on a
  well-formed database that answers the lookups of sessions and whose sessions end within eight hours
  of \<open>T\<close>, an empty table say. Eight hours after \<open>T\<close> no token of any kind, from any address,
  stands for an account, and every page and every form but the login is answered by the way to
  the login.
\<close>

theorem silence_logs_everybody_out:
  assumes "store_inv (si_db c)" and "engine_up (si_db c)" and "si_threads c = []"
    and "\<And>row. row \<in> set (db_sessions (si_db c)) \<Longrightarrow> se_expires row \<le> unix_sec T + 8 * 3600"
    and "\<And>e. e \<in> set es \<Longrightarrow> until T e" and "T + 8 * hour \<le> ev_now ev"
  shows "session_user (ev_now ev) tok ip (si_db (console_run cd cfg es c)) = Inl ErrNoUser \<and>
    require_auth ev page_of r (si_server (console_run cd cfg es c)) =
      (reply (Redirect ''/login''), si_server (console_run cd cfg es c))"
proof -
  let ?d = "si_db (console_run cd cfg es c)"
  have "short_lived T (access_of (si_db c))" using assms(4) by (intro short_access) simp
  moreover have "represents T (si_db c) (access_of (si_db c)) \<and> purges_by T (si_threads c)"
    using represents_access_of [OF assms(1,2)] assms(3) by (simp add: purges_by_def)
  moreover have "proper (console_step cd cfg) (\<lambda>e c. until T e) es c" using assms(5) by (rule proper_until)
  ultimately obtain m where rep: "represents T ?d m" and short: "short_lived T m"
    unfolding console_run_def using expiry.run_good by metis
  have late: "T \<le> ev_now ev" "unix_sec T + 28800 \<le> unix_sec (ev_now ev)"
    using assms(6) session_end [of T] zdiv_mono1 [OF assms(6), of second] by (simp_all add: go_time)
  have out: "session_user (ev_now ev) tok ip ?d = Inl ErrNoUser" for tok ip
    using rep short late by (fastforce simp: represents_def stands_for_def short_lived_def split: option.splits)
  then have "current_user ev r (si_server (console_run cd cfg es c)) = None"
    by (auto simp: current_user_def split: option.splits)
  with out show ?thesis by (simp add: require_auth_def)
qed

text \<open>The login of \<open>demo_login\<close>, and the morning after.\<close>

theorem silence_logs_everybody_out_witness:
  "session_user (ev_now (demo_env\<lparr>ev_now := 30000 * second\<rparr>)) demo_token (show_nat 0x0A000001)
     (si_db (console_run unit_codec open_config [Request demo_env (demo_login ''secret'') demo_outcome] demo_console)) = Inl ErrNoUser"
proof -
  have inv: "store_inv (si_db demo_console)" "engine_up (si_db demo_console)" "si_threads demo_console = []"
    by (simp_all add: demo_console_def demo_inv engine_up_def demo_no_failure)
  show ?thesis
    by (rule silence_logs_everybody_out [where T = "1000 * second", THEN conjunct1, OF inv])
      (auto simp: demo_console_def demo_site_server_def new_server_def new_collector_def empty_db_def
        demo_env_def go_time)
qed

end
