(* ===== verification/Amarre_Explorer.thy ===== *)
theory Amarre_Explorer
  imports Amarre_Console
begin

text \<open>
  The explorer page (\<open>getExplorer\<close> of \<open>server.go\<close>, which the routes now redirect past) and the
  cached relays it stands on (\<open>snapshotsCached\<close>, \<open>policyCached\<close> of \<open>collector.go\<close>). The answer
  cache is a contract, \<open>answer_cache\<close>; what a relay does with it is proved once and holds of
  every kind of answer.
\<close>

section \<open>The contract of the cache\<close>

text \<open>
  A relay asks the cache first and the host next, and keeps the host's answer. \<open>fresh t now\<close>
  says that what was put at \<open>t\<close> is still served at \<open>now\<close>; \<open>covers h k\<close> that dropping \<open>h\<close> drops
  the key \<open>k\<close>.
\<close>

definition memo ::
  "(time \<Rightarrow> string \<Rightarrow> 's \<Rightarrow> 'v option) \<Rightarrow> (time \<Rightarrow> string \<Rightarrow> 'v \<Rightarrow> 's \<Rightarrow> 's) \<Rightarrow> time \<Rightarrow> string \<Rightarrow> 'e + 'v \<Rightarrow> 's
     \<Rightarrow> ('e + 'v) \<times> 's" where
  "memo get put now k answer s =
     (case get now k s of
        Some v \<Rightarrow> (Inr v, s)
      | None \<Rightarrow> (case answer of Inl e \<Rightarrow> (Inl e, s) | Inr v \<Rightarrow> (Inr v, put now k v s)))"

locale answer_cache =
  fixes get :: "time \<Rightarrow> string \<Rightarrow> 's \<Rightarrow> 'v option" and put :: "time \<Rightarrow> string \<Rightarrow> 'v \<Rightarrow> 's \<Rightarrow> 's"
    and drop_host :: "string \<Rightarrow> 's \<Rightarrow> 's" and ok :: "'s \<Rightarrow> bool"
    and fresh :: "time \<Rightarrow> time \<Rightarrow> bool" and covers :: "string \<Rightarrow> string \<Rightarrow> bool"
  assumes get_put: "ok s \<Longrightarrow> get now k (put t k v s) = (if fresh t now then Some v else None)"
    and get_put_other: "k' \<noteq> k \<Longrightarrow> get now k' (put t k v s) = get now k' s"
    and get_drop: "get now k (drop_host h s) = (if covers h k then None else get now k s)"
    and ok_kept: "ok s \<Longrightarrow> ok (put t k v s)" "ok s \<Longrightarrow> ok (drop_host h s)"
begin

lemmas cache_laws = get_put get_put_other get_drop ok_kept

text \<open>What the host answered is served again without asking, as long as it is fresh.\<close>

lemma memo_reuses:
  assumes "ok s" and "get t k s = None" and "memo get put t k (Inr v) s = (r, s')" and "fresh t now"
  shows "r = Inr v \<and> memo get put now k answer s' = (Inr v, s')"
  using assms by (auto simp: memo_def get_put)

lemma memo_expires:
  assumes "ok s" and "get t k s = None" and "memo get put t k (Inr v) s = (r, s')" and "\<not> fresh t now"
  shows "fst (memo get put now k answer s') = answer"
  using assms by (auto simp: memo_def get_put split: sum.splits)

text \<open>After the host is dropped, it is asked.\<close>

lemma memo_asks_again: "covers h k \<Longrightarrow> fst (memo get put now k answer (drop_host h s)) = answer"
  by (auto simp: memo_def get_drop split: sum.splits)

lemma memo_others: "k' \<noteq> k \<Longrightarrow> get now' k' (snd (memo get put now k answer s)) = get now' k' s"
  by (auto simp: memo_def get_put_other split: option.splits sum.splits)

text \<open>An error is not kept.\<close>

lemma memo_error: "get now k s = None \<Longrightarrow> memo get put now k (Inl e) s = (Inl e, s)"
  by (simp add: memo_def)

end

section \<open>The cache keeps it, for every kind of answer\<close>

definition get_as :: "(cached \<Rightarrow> 'v option) \<Rightarrow> time \<Rightarrow> string \<Rightarrow> cached cache \<Rightarrow> 'v option" where
  "get_as proj now k c = Option.bind (cache_get now k c) proj"

definition put_as :: "('v \<Rightarrow> cached) \<Rightarrow> time \<Rightarrow> string \<Rightarrow> 'v \<Rightarrow> cached cache \<Rightarrow> cached cache" where
  "put_as pack now k v c = cache_put now k (pack v) c"

definition ninety_seconds :: "cached cache \<Rightarrow> bool" where
  "ninety_seconds c \<longleftrightarrow> ca_ttl c = 90 * second"

definition served_still :: "time \<Rightarrow> time \<Rightarrow> bool" where
  "served_still t now \<longleftrightarrow> \<not> time_sub now t > 90 * second"

abbreviation as_snapshots :: "cached \<Rightarrow> snapshot list option" where
  "as_snapshots v \<equiv> (case v of CSnapshots s \<Rightarrow> Some s | _ \<Rightarrow> None)"

abbreviation as_policy :: "cached \<Rightarrow> policy_entry list option" where
  "as_policy v \<equiv> (case v of CPolicy p \<Rightarrow> Some p | _ \<Rightarrow> None)"

lemma get_as_put:
  "ninety_seconds c \<Longrightarrow> proj (pack v) = Some v \<Longrightarrow>
   get_as proj now k (put_as pack t k v c) = (if served_still t now then Some v else None)"
  by (auto simp: get_as_def put_as_def cache_get_def cache_put_def ninety_seconds_def served_still_def update_conv'
      split: option.splits)

lemma get_as_put_other: "k' \<noteq> k \<Longrightarrow> get_as proj now k' (put_as pack t k v c) = get_as proj now k' c"
  by (auto simp: get_as_def put_as_def cache_get_def cache_put_def update_conv' split: option.splits
      intro!: arg_cong [of _ _ "\<lambda>x. Option.bind x proj"])

lemma get_as_drop:
  "get_as proj now k (cache_invalidate h c) = (if purged_by h k then None else get_as proj now k c)"
  by (auto simp: get_as_def cache_get_def cache_invalidate_def map_of_purge split: option.splits
      intro!: arg_cong [of _ _ "\<lambda>x. Option.bind x proj"])

lemma ninety_kept: "ninety_seconds c \<Longrightarrow> ninety_seconds (put_as pack t k v c)"
  "ninety_seconds c \<Longrightarrow> ninety_seconds (cache_invalidate h c)"
  by (simp_all add: ninety_seconds_def put_as_def cache_put_def cache_invalidate_def)

interpretation snapshots: answer_cache "get_as as_snapshots" "put_as CSnapshots" cache_invalidate ninety_seconds
  served_still purged_by
  by unfold_locales (simp_all add: get_as_put get_as_put_other get_as_drop ninety_kept)

interpretation policy: answer_cache "get_as as_policy" "put_as CPolicy" cache_invalidate ninety_seconds
  served_still purged_by
  by unfold_locales (simp_all add: get_as_put get_as_put_other get_as_drop ninety_kept)

text \<open>The relays of the collector are this \<open>memo\<close> on its cache.\<close>

lemma relay_memo:
  "relay now kind proj pack answer host c =
     (let (r, cache') = memo (get_as proj) (put_as pack) now (host @ ''|'' @ kind) answer (co_cache c)
      in (case r of Inl e \<Rightarrow> Inl (RemoteError e) | Inr v \<Rightarrow> Inr v, c\<lparr>co_cache := cache'\<rparr>))"
  by (simp add: relay_def memo_def get_as_def put_as_def split: option.splits sum.splits)

lemma purged_own_keys: "purged_by host (host @ ''|'' @ kind)"
  by (simp add: purged_by_def)

section \<open>The page\<close>

record explorer_page =
  xp_rail :: rail
  xp_hosts :: "host_config list"
  xp_host :: string
  xp_snap :: string
  xp_path :: string
  xp_crumbs :: "crumb list"
  xp_snapshots :: "snapshot list"
  xp_policy :: "policy_entry list"
  xp_restore :: "bool option"
  xp_stream :: "bool option"
  xp_nodes :: "node list option"
  xp_err :: "string option"

definition col_hosts :: "config \<Rightarrow> host_config list" where
  "col_hosts cfg = cfg_hosts cfg"

text \<open>
  \<open>ask_snapshots\<close> and \<open>ask_policy\<close> are the hosts' answers, should they be asked. The account
  is read at the end, to sign the journal entry; without a session that is a panic, \<open>None\<close> here.
\<close>

definition explorer ::
  "env \<Rightarrow> config \<Rightarrow> (host_config \<Rightarrow> fleet_error + snapshot list) \<Rightarrow> (host_config \<Rightarrow> fleet_error + policy_entry list)
     \<Rightarrow> request \<Rightarrow> server \<Rightarrow> explorer_page option \<times> server" where
  "explorer ev cfg ask_snapshots ask_policy r s =
     (let (ra, s1) = make_rail ev cfg ''explorer'' r s;
          host = rq_query r ''host''; snap = rq_query r ''snap''; path = path_or_root r;
          page = \<lparr>xp_rail = ra, xp_hosts = col_hosts cfg, xp_host = host, xp_snap = snap, xp_path = path,
            xp_crumbs = crumbs path, xp_snapshots = [], xp_policy = [], xp_restore = None, xp_stream = None,
            xp_nodes = None, xp_err = None\<rparr>
      in if host = '''' then (Some page, s1)
         else (case snapshots_of (ev_now ev) cfg ask_snapshots host (sv_col s1) of
           (Inl e, c1) \<Rightarrow> (Some (page\<lparr>xp_err := Some (collector_error_text e)\<rparr>), s1\<lparr>sv_col := c1\<rparr>)
         | (Inr snaps, c1) \<Rightarrow>
             let snap' = (if snap = '''' \<and> snaps \<noteq> [] then sn_id (hd snaps) else snap);
                 (pol, c2) = policy_of (ev_now ev) cfg ask_policy host c1;
                 entries = (case pol of Inl e \<Rightarrow> [] | Inr es \<Rightarrow> es);
                 (nodes, err) = (case browse cfg (ev_tree ev host snap') (ev_list ev host snap' path) host path of
                    Inl e \<Rightarrow> ([], Some (collector_error_text e))
                  | Inr (ns, long, _) \<Rightarrow> if long then ([], Some ''bufio.Scanner: token too long'') else (ns, None));
                 page' = page\<lparr>xp_snap := snap', xp_snapshots := snaps, xp_policy := entries,
                   xp_restore := policy_flag ''SHIM_ALLOW_RESTORE'' entries,
                   xp_stream := policy_flag ''SHIM_STREAM_TO_CONSOLE'' entries,
                   xp_nodes := Some nodes, xp_err := err\<rparr>;
                 s2 = s1\<lparr>sv_col := c2\<rparr>
             in (case ra_user ra of
                   None \<Rightarrow> (None, s2)
                 | Some u \<Rightarrow> (Some page', log_audit ev (usr_name u) (remote_ip ev r) ''navigation''
                     (host @ '':'' @ path) (fr ''succ`es'') s2))))"

section \<open>One click, one question\<close>

text \<open>A page whose questions are in the cache does not depend on what the host would answer.\<close>

lemma relay_cached:
  "get_as proj now (host @ ''|'' @ kind) (co_cache c) = Some v \<Longrightarrow> relay now kind proj pack answer host c = (Inr v, c)"
  by (simp add: relay_def get_as_def)

lemma rail_cache [simp]: "co_cache (sv_col (snd (make_rail ev cfg n r s))) = co_cache (sv_col s)"
  by (auto simp: make_rail_def Let_def set_db_def split: sum.splits)

lemma rail_cache_at: "make_rail ev cfg n r s = (ra, s1) \<Longrightarrow> co_cache (sv_col s1) = co_cache (sv_col s)"
  using rail_cache [of ev cfg n r s] by simp

definition questions_cached :: "time \<Rightarrow> string \<Rightarrow> cached cache \<Rightarrow> bool" where
  "questions_cached now host c \<longleftrightarrow>
     (\<exists>v. get_as as_snapshots now (host @ ''|'' @ ''snapshots'') c = Some v) \<and>
     (\<exists>v. get_as as_policy now (host @ ''|'' @ ''policy'') c = Some v)"

lemma cached_page:
  assumes "questions_cached (ev_now ev) (rq_query r ''host'') (co_cache (sv_col s))"
  shows "explorer ev cfg a b r s = explorer ev cfg a' b' r s"
proof (cases "find_host cfg (rq_query r ''host'')")
  case None
  then show ?thesis by (simp add: explorer_def snapshots_of_def Let_def split_beta)
next
  case (Some h)
  then have name: "hc_name h = rq_query r ''host''" using find_host_Some by auto
  from assms obtain sn po where hits:
    "get_as as_snapshots (ev_now ev) (hc_name h @ ''|'' @ ''snapshots'') (co_cache (sv_col s)) = Some sn"
    "get_as as_policy (ev_now ev) (hc_name h @ ''|'' @ ''policy'') (co_cache (sv_col s)) = Some po"
    by (auto simp: questions_cached_def name)
  have "snapshots_of (ev_now ev) cfg ask (rq_query r ''host'') c = (Inr sn, c)"
    "policy_of (ev_now ev) cfg ask' (rq_query r ''host'') c = (Inr po, c)"
    if "co_cache c = co_cache (sv_col s)" for ask ask' c
    using hits that by (simp_all add: snapshots_of_def policy_of_def Some relay_cached)
  then show ?thesis by (simp add: explorer_def Let_def split_beta cong: option.case_cong)
qed

lemma keys_differ: "host @ ''|'' @ ''snapshots'' \<noteq> host @ ''|'' @ ''policy''"
  by simp

text \<open>The first page of a host that answers caches both questions for ninety seconds.\<close>

lemma page_caches:
  assumes "find_host cfg host = Some h" and "ninety_seconds (co_cache c)" and "served_still t now"
    and "get_as as_snapshots t (host @ ''|'' @ ''snapshots'') (co_cache c) = None"
    and "get_as as_policy t (host @ ''|'' @ ''policy'') (co_cache c) = None"
    and "ask_s h = Inr sn" and "ask_p h = Inr po"
    and "snapshots_of t cfg ask_s host c = (r1, c1)" and "policy_of t cfg ask_p host c1 = (r2, c2)"
  shows "r1 = Inr sn \<and> r2 = Inr po \<and> questions_cached now host (co_cache c2)"
proof -
  have name: "hc_name h = host" using assms(1) find_host_Some by auto
  have c1: "r1 = Inr sn" "co_cache c1 = put_as CSnapshots t (host @ ''|'' @ ''snapshots'') sn (co_cache c)"
    using assms(1,4,6,8) by (auto simp: snapshots_of_def name relay_memo memo_def)
  moreover have "get_as as_policy t (host @ ''|'' @ ''policy'') (co_cache c1) = None"
    unfolding c1(2) using assms(5) get_as_put_other [OF keys_differ [of host, symmetric]] by metis
  ultimately have c2: "r2 = Inr po"
      "co_cache c2 = put_as CPolicy t (host @ ''|'' @ ''policy'') po (co_cache c1)"
    using assms(1,7,9) by (auto simp: policy_of_def name relay_memo memo_def)
  have "get_as as_snapshots now (host @ ''|'' @ ''snapshots'') (co_cache c2) = Some sn"
    unfolding c2(2) c1(2) get_as_put_other [OF keys_differ] using snapshots.get_put [OF assms(2)] assms(3) by simp
  moreover have "get_as as_policy now (host @ ''|'' @ ''policy'') (co_cache c2) = Some po"
    unfolding c2(2) c1(2) using policy.get_put [OF ninety_kept(1) [OF assms(2), of CSnapshots]] assms(3) by simp
  ultimately show ?thesis using c1(1) c2(1) by (simp add: questions_cached_def)
qed

text \<open>
  Browsing asks a host once. After a page for a host that answered both questions, the pages of
  the next ninety seconds are the same whatever the host would say; once an operation or a
  collection has dropped the host's answers, they are what it says now.
\<close>

lemma explorer_asks_once:
  assumes "find_host cfg host = Some h" and "ninety_seconds (co_cache (sv_col s))" and "host \<noteq> ''''"
    and "get_as as_snapshots (ev_now ev) (host @ ''|'' @ ''snapshots'') (co_cache (sv_col s)) = None"
    and "get_as as_policy (ev_now ev) (host @ ''|'' @ ''policy'') (co_cache (sv_col s)) = None"
    and "ask_s h = Inr sn" and "ask_p h = Inr po"
    and "rq_query r ''host'' = host" and "rq_query r' ''host'' = host" and "served_still (ev_now ev) (ev_now ev')"
  shows "explorer ev' cfg a b r' (snd (explorer ev cfg ask_s ask_p r s)) =
    explorer ev' cfg a' b' r' (snd (explorer ev cfg ask_s ask_p r s))"
proof (rule cached_page)
  obtain ra s1 where rail: "make_rail ev cfg ''explorer'' r s = (ra, s1)" by fastforce
  then have cache: "co_cache (sv_col s1) = co_cache (sv_col s)" by (rule rail_cache_at)
  obtain r1 c1 where one: "snapshots_of (ev_now ev) cfg ask_s host (sv_col s1) = (r1, c1)" by fastforce
  obtain r2 c2 where two: "policy_of (ev_now ev) cfg ask_p host c1 = (r2, c2)" by fastforce
  note both = page_caches [OF assms(1) _ assms(10) _ _ assms(6,7) one two, unfolded cache, OF assms(2,4,5)]
  have log: "co_cache (sv_col (log_audit e x i t g o2 s2)) = co_cache (sv_col s2)" for e x i t g o2 s2
    by (simp add: log_audit_def set_db_def)
  have "co_cache (sv_col (snd (explorer ev cfg ask_s ask_p r s))) = co_cache c2"
    using assms(3,8) both one two
    by (simp add: explorer_def Let_def rail split_beta log split: option.splits)
  with both assms(9) show "questions_cached (ev_now ev') (rq_query r' ''host'')
      (co_cache (sv_col (snd (explorer ev cfg ask_s ask_p r s))))" by simp
qed

lemma dropped_host_is_asked:
  assumes "find_host cfg host = Some h"
  shows "fst (snapshots_of now cfg ask host (forget_host host c)) =
    (case ask h of Inl e \<Rightarrow> Inl (RemoteError e) | Inr v \<Rightarrow> Inr v)"
proof -
  have name: "hc_name h = host" using assms find_host_Some by auto
  have "fst (memo (get_as as_snapshots) (put_as CSnapshots) now (host @ ''|'' @ ''snapshots'') (ask h)
      (cache_invalidate host (co_cache c))) = ask h"
    by (rule snapshots.memo_asks_again) (rule purged_own_keys)
  then show ?thesis
    by (simp add: snapshots_of_def assms name relay_memo forget_host_def split_beta Let_def)
qed

end
