(* ===== verification/Amarre_Progress.thy ===== *)
theory Amarre_Progress
  imports Amarre_Runs Amarre_Trees_Facts
begin

text \<open>
  Liveness of the tree store: a call of \<open>Tree\<close> that is under way returns, whatever other calls
  begin, end or invalidate meanwhile, as long as the call itself and the one it waits for are
  scheduled. What a call still needs is counted by \<open>needs\<close>, a weight in the sense of the
  contract \<open>settling_system\<close>.
\<close>

section \<open>What a call still needs\<close>

definition under_way :: "call \<Rightarrow> bool" where
  "under_way c \<longleftrightarrow> c \<noteq> Fresh \<and> \<not> finished c"

fun own_steps :: "call \<Rightarrow> nat" where
  "own_steps (Fetching h sn) = 2"
| "own_steps (Releasing h sn r) = 1"
| "own_steps _ = 0"

definition needs :: "nat \<Rightarrow> tree_sys \<Rightarrow> nat" where
  "needs i s = (case sy_call s i of Waiting h sn w \<Rightarrow> Suc (own_steps (sy_call s w)) | c \<Rightarrow> own_steps c)"

text \<open>A step that helps a call: it moves the call itself, or the one it waits for.\<close>

definition helps :: "nat \<Rightarrow> tree_sys \<Rightarrow> tree_sys \<Rightarrow> bool" where
  "helps i s s' \<longleftrightarrow> sy_call s' i \<noteq> sy_call s i \<or>
     (\<exists>h sn w. sy_call s i = Waiting h sn w \<and> sy_call s' w \<noteq> sy_call s w)"

definition begun :: "nat \<Rightarrow> tree_sys \<Rightarrow> bool" where
  "begun i s \<longleftrightarrow> sys_ok s \<and> sy_call s i \<noteq> Fresh"

lemma under_way_simps [simp]:
  "\<not> under_way Fresh" "under_way (Waiting h sn w)" "under_way (Fetching h sn)"
  "under_way (Releasing h sn r)" "\<not> under_way (Finished r)"
  by (simp_all add: under_way_def)

text \<open>What a step does to the calls: nothing, or one call takes its next place.\<close>

lemma step_calls:
  "tree_step cfg s s' \<Longrightarrow>
   sy_call s' = sy_call s \<or>
   (\<exists>i c. sy_call s' = (sy_call s)(i := c) \<and>
     (sy_call s i = Fresh \<or>
      (\<exists>h sn r. sy_call s i = Fetching h sn \<and> c = Releasing h sn r) \<or>
      (\<exists>h sn r. sy_call s i = Releasing h sn r \<and> c = Finished r) \<or>
      (\<exists>h sn w r r'. sy_call s i = Waiting h sn w \<and> sy_call s w = Finished r' \<and> c = Finished r)))"
  by (induction rule: tree_step.induct) (auto intro!: exI)

lemma entered_not_fresh: "entered h sn r \<noteq> Fresh"
  by (cases r) simp_all

lemma begun_waits:
  assumes "begun i s" and "sy_call s i = Waiting h sn w"
  obtains sn' where "sy_call s w = Fetching h sn'" | h' sn' r where "sy_call s w = Releasing h' sn' r"
  | h' sn' where "sy_call s w = Fetching h' sn'" | r where "sy_call s w = Finished r"
proof -
  have "in_flight (sy_call s w) (tree_key h sn) \<or> finished (sy_call s w)"
    using assms unfolding begun_def sys_ok_def waits_ok_def by blast
  then show ?thesis using that by (cases "sy_call s w") (auto simp: finished_def)
qed

lemma needs_begun: "tree_step cfg s s' \<Longrightarrow> sy_call s i \<noteq> Fresh \<Longrightarrow> sy_call s' i \<noteq> Fresh"
  by (induction rule: tree_step.induct) (auto simp: entered_not_fresh)

lemma needs_step:
  assumes "begun i s" and "tree_step cfg s s'"
  shows "needs i s' \<le> needs i s \<and> (under_way (sy_call s i) \<and> helps i s s' \<longrightarrow> needs i s' < needs i s)"
proof -
  have begun: "sy_call s i \<noteq> Fresh" using assms(1) by (simp add: begun_def)
  consider "sy_call s' = sy_call s"
    | j c where "sy_call s' = (sy_call s)(j := c)"
      "sy_call s j = Fresh \<or> (\<exists>h sn r. sy_call s j = Fetching h sn \<and> c = Releasing h sn r) \<or>
       (\<exists>h sn r. sy_call s j = Releasing h sn r \<and> c = Finished r) \<or>
       (\<exists>h sn w r r'. sy_call s j = Waiting h sn w \<and> sy_call s w = Finished r' \<and> c = Finished r)"
    using step_calls [OF assms(2)] by blast
  then show ?thesis
  proof cases
    case 1
    then show ?thesis by (auto simp: needs_def helps_def split: call.splits)
  next
    case (2 j c)
    then show ?thesis
      using begun by (cases "sy_call s i") (auto simp: needs_def helps_def elim!: begun_waits [OF assms(1)])
  qed
qed

text \<open>Some step that helps is always enabled, whatever the host answers.\<close>

lemma any_order: "visits (\<lambda>used. used)"
  by (simp add: visits_def)

lemma fetch_delivers:
  assumes "sys_ok s" and "sy_call s i = Fetching h sn"
  shows "\<exists>s'. tree_step cfg s s' \<and> sy_call s' = (sy_call s)(i := Releasing h sn
    (case fetch_tree srt run unjson built sn of Inl e \<Rightarrow> Inl (TreeFetch e) | Inr t \<Rightarrow> Inr t))"
proof (cases "fetch_tree srt run unjson built sn")
  case (Inl e)
  from tree_step.failed [OF assms(2) Inl, of cfg] Inl show ?thesis
    by (intro exI conjI) (assumption, simp)
next
  case (Inr t)
  from assms(1) have "trees_ok (sy_ts s)" by (simp add: sys_ok_def)
  from evict_ends [OF any_order this, of "tr_count t"] obtain ts where
    "tree_install (\<lambda>used. used) 0 (tree_key h sn) t (sy_ts s) = Some ts"
    by (fastforce simp: tree_install_def)
  from tree_step.fetched [OF assms(2) Inr any_order this, of cfg] Inr show ?thesis
    by (intro exI conjI) (assumption, simp)
qed

lemma mover_enabled:
  assumes "sys_ok s" and "sy_call s i = Fetching h sn \<or> sy_call s i = Releasing h sn r"
  shows "\<exists>s'. tree_step cfg s s' \<and> sy_call s' i \<noteq> sy_call s i"
  using assms(2)
proof
  assume "sy_call s i = Fetching h sn"
  from fetch_delivers [OF assms(1) this, where cfg = cfg] obtain s' x where
    "tree_step cfg s s'" "sy_call s' = (sy_call s)(i := Releasing h sn x)" by blast
  with \<open>sy_call s i = Fetching h sn\<close> show ?thesis by (intro exI [of _ s']) simp
next
  assume r: "sy_call s i = Releasing h sn r"
  from tree_step.release [OF r, of cfg] r show ?thesis by (intro exI conjI) (assumption, simp)
qed

lemma help_enabled:
  assumes "begun i s" and "under_way (sy_call s i)"
  shows "\<exists>s'. tree_step cfg s s' \<and> helps i s s'"
proof -
  have ok: "sys_ok s" using assms(1) by (simp add: begun_def)
  note move = mover_enabled [OF ok, of _ _ _ _ cfg]
  show ?thesis
  proof (cases "sy_call s i")
    case (Waiting h sn w)
    from begun_waits [OF assms(1) this] show ?thesis
    proof cases
      case (4 r)
      from tree_step.wake [OF Waiting this, of cfg] Waiting show ?thesis
        by (intro exI conjI) (assumption, simp add: helps_def)
    qed (use move [of w] Waiting in \<open>fastforce simp: helps_def\<close>)+
  qed (use move [of i] assms(2) in \<open>fastforce simp: helps_def\<close>)+
qed

lemma needs_zero: "begun i s \<Longrightarrow> needs i s = 0 \<longleftrightarrow> (\<exists>r. sy_call s i = Finished r)"
  by (cases "sy_call s i") (auto simp: begun_def needs_def)

lemma needs_under_way: "begun i s \<Longrightarrow> 0 < needs i s \<longleftrightarrow> under_way (sy_call s i)"
  by (cases "sy_call s i") (auto simp: begun_def needs_def)

text \<open>The contract, for each call.\<close>

interpretation tree_call: settling_system "tree_step cfg" "begun i" "needs i" for cfg i
proof
  fix s s'
  assume step: "tree_step cfg s s'" and inv: "begun i s"
  then have "sys_ok s'" by (auto simp: begun_def intro: step_ok)
  moreover have "sy_call s' i \<noteq> Fresh"
    using step inv needs_begun by (simp add: begun_def)
  ultimately show "begun i s'" by (simp add: begun_def)
  show "needs i s' \<le> needs i s" using needs_step step inv by blast
next
  fix s
  assume inv: "begun i s" and "0 < needs i s"
  then have way: "under_way (sy_call s i)" by (simp add: needs_under_way)
  with inv help_enabled [of i s cfg] obtain s' where
    "tree_step cfg s s'" "helps i s s'" by blast
  with inv way needs_step [of i s cfg s'] show "\<exists>s'. tree_step cfg s s' \<and> needs i s' < needs i s"
    by blast
qed

section \<open>Property\<close>

text \<open>
  C19. Every call returns. Take any run of the tree store from a reachable state, with calls
  beginning, failing, invalidating and waiting at will. Whenever a call is under way, a step
  that moves it or the call it waits for is enabled, and if the run does not put those off for
  ever, the call returns: no interleaving of invalidations, evictions and failed retrievals
  leaves a page waiting.
\<close>

theorem tree_calls_return:
  assumes "tree_reachable cfg (f 0)" and "sy_call (f 0) i \<noteq> Fresh"
    and "\<And>n. f (Suc n) = f n \<or> tree_step cfg (f n) (f (Suc n))"
    and "\<And>n. under_way (sy_call (f n) i) \<Longrightarrow> \<exists>m\<ge>n. helps i (f m) (f (Suc m))"
  shows "(under_way (sy_call (f n) i) \<longrightarrow> (\<exists>s'. tree_step cfg (f n) s' \<and> helps i (f n) s')) \<and>
    (\<exists>n r. sy_call (f n) i = Finished r)"
proof
  have inv: "begun i (f 0)"
    using reachable_ok [OF assms(1)] assms(2) by (simp add: begun_def)
  note run = assms(3)
  note begun = tree_call.sequence_inv [where f = f, OF inv run]
  from begun show "under_way (sy_call (f n) i) \<longrightarrow> (\<exists>s'. tree_step cfg (f n) s' \<and> helps i (f n) s')"
    using help_enabled by blast
  have "\<exists>m\<ge>n. needs i (f m) < needs i (f n)" if "0 < needs i (f n)" for n
  proof (rule ccontr)
    assume "\<not> ?thesis"
    then have high: "needs i (f n) \<le> needs i (f m)" if "n \<le> m" for m
      using that by (meson linorder_not_less)
    have way: "under_way (sy_call (f m) i)" if "n \<le> m" for m
      using high [OF that] \<open>0 < needs i (f n)\<close> begun needs_under_way by (meson order_less_le_trans)
    from assms(4) [OF way [OF order_refl]] obtain m where m: "n \<le> m" "helps i (f m) (f (Suc m))" by blast
    then have "tree_step cfg (f m) (f (Suc m))" using assms(3) [of m] by (auto simp: helps_def)
    with m way begun needs_step have "needs i (f (Suc m)) < needs i (f m)" by blast
    also have "\<dots> \<le> needs i (f n)"
      by (rule tree_call.sequence_never_more [where f = f, OF inv run m(1)])
    finally show False using high [of "Suc m"] m(1) by simp
  qed
  from tree_call.fair_run_rests [of i f, OF this] obtain n where "needs i (f n) = 0" by blast
  with begun needs_zero show "\<exists>n r. sy_call (f n) i = Finished r" by blast
qed

text \<open>The retrieval of another call fails; the one that waited for it wakes with an error.\<close>

fun demo_run :: "nat \<Rightarrow> tree_sys" where
  "demo_run n =
     (if n = 0 then demo_sys
      else if n = 1
      then demo_sys\<lparr>sy_call := demo_calls(0 := Releasing ''web'' ''s1'' (Inl (TreeFetch PolicyMissing)))\<rparr>
      else demo_sys\<lparr>sy_ts := new_tree_store,
        sy_call := demo_calls(0 := Finished (Inl (TreeFetch PolicyMissing)),
          1 := (if n = 2 then Waiting ''web'' ''s1'' 0 else Finished (Inl (TreeFailed ''web''))))\<rparr>)"

lemma demo_run_steps:
  "tree_step demo_cfg (demo_run 0) (demo_run 1)"
  "tree_step demo_cfg (demo_run 1) (demo_run 2)"
  "tree_step demo_cfg (demo_run 2) (demo_run 3)"
proof -
  have "fetch_tree (\<lambda>_ ns. ns) (\<lambda>_. Inl PolicyMissing) (\<lambda>_. None) 0 ''s1'' = Inl PolicyMissing"
    by (simp add: fetch_tree_def)
  from tree_step.failed [of demo_sys 0, OF _ this, of "''web''" demo_cfg]
  show "tree_step demo_cfg (demo_run 0) (demo_run 1)"
    by (simp add: demo_sys_def demo_calls_def)
  show "tree_step demo_cfg (demo_run 1) (demo_run 2)"
    using tree_step.release [of "demo_run 1" 0 "''web''" "''s1''" _ demo_cfg]
    by (simp add: demo_sys_def demo_calls_def tree_release_def tree_key_def new_tree_store_def fun_upd_twist)
  show "tree_step demo_cfg (demo_run 2) (demo_run 3)"
    using tree_step.wake [of "demo_run 2" 1 "''web''" "''s1''" 0 _ demo_cfg]
    by (simp add: demo_sys_def demo_calls_def tree_recheck_def new_tree_store_def)
qed

theorem tree_calls_return_witness:
  "under_way (sy_call (demo_run 0) 1) \<and> (\<exists>n r. sy_call (demo_run n) 1 = Finished r)"
proof
  show "under_way (sy_call (demo_run 0) 1)" by (simp add: demo_sys_def demo_calls_def)
  have late: "demo_run (Suc n) = demo_run n" if "3 \<le> n" for n using that by simp
  have cases3: "n = 0 \<or> n = 1 \<or> n = 2 \<or> 3 \<le> n" for n :: nat by linarith
  have reach: "tree_reachable demo_cfg (demo_run 0)" using demo_sys_reachable by simp
  have begun: "sy_call (demo_run 0) 1 \<noteq> Fresh" by (simp add: demo_sys_def demo_calls_def)
  have run: "demo_run (Suc n) = demo_run n \<or> tree_step demo_cfg (demo_run n) (demo_run (Suc n))" for n
    using cases3 [of n] late [of n] demo_run_steps by (auto simp: numeral_2_eq_2 numeral_3_eq_3 simp del: demo_run.simps)
  have fair: "\<exists>m\<ge>n. helps 1 (demo_run m) (demo_run (Suc m))" if "under_way (sy_call (demo_run n) 1)" for n
  proof -
    from that have "n = 0 \<or> n = 1 \<or> n = 2" using cases3 [of n] by (auto simp: demo_sys_def demo_calls_def)
    then have "helps 1 (demo_run n) (demo_run (Suc n))"
      by (auto simp: helps_def demo_sys_def demo_calls_def)
    then show ?thesis by blast
  qed
  from tree_calls_return [where f = demo_run, OF reach begun run fair]
  show "\<exists>n r. sy_call (demo_run n) 1 = Finished r" by blast
qed

end
