(* ===== verification/Amarre_Pool_Progress.thy ===== *)
theory Amarre_Pool_Progress
  imports Amarre_Runs Amarre_Pool_Facts
begin

text \<open>
  Liveness of the connection pool: remote commands cannot block one another for ever, although
  a retried command keeps the slot of its first connection while it takes its second. The
  counting invariant \<open>sys_consistent\<close> finds, for every full connection, a call that holds one of
  its slots and can go on.
\<close>

section \<open>The actions of calls\<close>

text \<open>What a call does by itself; neither its caller's deadline nor a new call is among them.\<close>

fun call_action :: "action \<Rightarrow> bool" where
  "call_action (Call now k) = False"
| "call_action (GiveUp i) = False"
| "call_action (Falls c) = False"
| "call_action (Noticed c) = False"
| "call_action (Reap now) = False"
| "call_action CloseAll = False"
| "call_action _ = True"

fun steps_left :: "call_state \<Rightarrow> nat" where
  "steps_left (Dialing k h) = (if h = None then 9 else 4)"
| "steps_left (Dialled k c h) = (if h = None then 8 else 3)"
| "steps_left (Waiting k c) = 7"
| "steps_left (Opening k c) = 6"
| "steps_left (Retrying k h) = 5"
| "steps_left (Reopening c h) = 2"
| "steps_left (Session c h) = 1"
| "steps_left Returned = 0"

definition work_left :: "pool_sys \<Rightarrow> nat" where
  "work_left s = (\<Sum>x\<leftarrow>ps_calls s. steps_left x)"

lemma got_left: "steps_left (got k None r) \<le> 9" "steps_left (got k None (Some c)) = 7"
  "steps_left (got k (Some h) r) \<le> 4" "steps_left (got k (Some h) (Some c)) = 2"
  by (auto simp: got_def split: option.splits)

text \<open>One call takes its next place, nearer to its return.\<close>

definition advances :: "pool_sys \<Rightarrow> pool_sys \<Rightarrow> bool" where
  "advances s s' \<longleftrightarrow> (\<exists>i y p. s' = set_call i y p s \<and> steps_left y < steps_left (call_at s i))"

lemma advancesI [intro]:
  "steps_left y < steps_left (call_at s i) \<Longrightarrow> advances s (set_call i y p s)"
  unfolding advances_def by blast

lemma advances_got:
  "call_at s i = Dialled k c h \<Longrightarrow> advances s (set_call i (got k h (Some c')) p s)"
  "call_at s i = Retrying k c \<Longrightarrow> advances s (set_call i (got k (Some c) r) p s)"
  by (cases h; auto intro!: advancesI simp: got_left(2,4) le_imp_less_Suc order.strict_trans1 [OF got_left(3)])+

lemma call_step: "pool_step a s = Some s' \<Longrightarrow> call_action a \<Longrightarrow> advances s s'"
proof (induction a s rule: pool_step.induct)
  case (4 now i s)
  then show ?case by (auto simp: Let_def split_beta advances_got split: call_state.splits)
next
  case (9 now i s)
  then show ?case by (auto simp: Let_def split_beta advances_got split: call_state.splits)
qed (auto simp: Let_def split_beta split: call_state.splits if_splits intro!: advancesI)

lemma advances_less:
  assumes "advances s s'"
  shows "work_left s' < work_left s" and "length (ps_calls s') = length (ps_calls s)"
proof -
  from assms obtain i y p where s': "s' = set_call i y p s" and y: "steps_left y < steps_left (call_at s i)"
    unfolding advances_def by blast
  then have i: "i < length (ps_calls s)" by (auto simp: call_at_def split: if_splits)
  have "steps_left (ps_calls s ! i) \<le> (\<Sum>x\<leftarrow>ps_calls s. steps_left x)"
    using i by (intro member_le_sum_list) auto
  with i y show "work_left s' < work_left s"
    by (simp add: s' set_call_def work_left_def call_at_def map_update sum_list_update)
  show "length (ps_calls s') = length (ps_calls s)" by (simp add: s' set_call_def)
qed

section \<open>Nobody is stuck\<close>

text \<open>A call that does not wait for a slot can always go on.\<close>

lemma can_go_on:
  assumes "call_at s i = x" and "x \<noteq> Returned" and "\<And>k c. x \<noteq> Waiting k c"
  shows "\<exists>a s'. call_action a \<and> pool_step a s = Some s'"
proof -
  from assms consider k h where "call_at s i = Dialing k h" | k c h where "call_at s i = Dialled k c h"
    | k c where "call_at s i = Opening k c" | k c where "call_at s i = Retrying k c"
    | c h where "call_at s i = Reopening c h" | c h where "call_at s i = Session c h"
    by (cases x) auto
  then show ?thesis
  proof cases
    case 1
    then show ?thesis by (intro exI [of _ "DialFails i"]) simp
  next
    case 2
    then show ?thesis by (intro exI [of _ "Install 0 i"]) (simp add: Let_def split_beta)
  next
    case 3
    then show ?thesis by (intro exI [of _ "OpenFails i"]) simp
  next
    case 4
    then show ?thesis by (intro exI [of _ "GetAgain 0 i"]) (simp add: Let_def split_beta)
  next
    case 5
    then show ?thesis by (intro exI [of _ "ReopenFails i"]) simp
  next
    case 6
    then show ?thesis by (intro exI [of _ "Finish i"]) simp
  qed
qed

lemma call_of:
  assumes "x \<in> set (ps_calls s)"
  obtains i where "call_at s i = x"
proof -
  from assms obtain i where "i < length (ps_calls s)" "ps_calls s ! i = x" by (auto simp: in_set_conv_nth)
  then have "call_at s i = x" by (simp add: call_at_def)
  then show ?thesis by (rule that)
qed

lemma somebody_moves:
  assumes "sys_consistent s" and "x \<in> set (ps_calls s)" and "x \<noteq> Returned"
  shows "\<exists>a s'. call_action a \<and> pool_step a s = Some s'"
proof -
  obtain i where at: "call_at s i = x" using call_of [OF assms(2)] .
  show ?thesis
  proof (cases "\<exists>k c. x = Waiting k c")
    case False
    with at assms(3) show ?thesis by (blast intro: can_go_on)
  next
    case True
    then obtain k c where w: "call_at s i = Waiting k c" using at by blast
    show ?thesis
    proof (cases "conn_used (ps_pool s) c < max_sessions")
      case True
      with w show ?thesis by (intro exI [of _ "TakeSlot i"]) simp
    next
      case False
      have "conn_used (ps_pool s) c = tally (holds_slot c) (ps_calls s)"
        using consistentD(10) [OF assms(1) [unfolded sys_consistent_def]] .
      with False have "0 < tally (holds_slot c) (ps_calls s)" by (simp add: max_sessions_def)
      then obtain y where y: "y \<in> set (ps_calls s)" "holds_slot c y" by (auto simp: tally_pos_iff)
      obtain j where "call_at s j = y" using call_of [OF y(1)] .
      moreover have "y \<noteq> Returned" "y \<noteq> Waiting k' c'" for k' c' using y(2) by auto
      ultimately show ?thesis by (blast intro: can_go_on)
    qed
  qed
qed

lemma no_work_left: "work_left s = 0 \<longleftrightarrow> (\<forall>x\<in>set (ps_calls s). x = Returned)"
proof -
  have "steps_left x = 0 \<longleftrightarrow> x = Returned" for x by (cases x) auto
  then show ?thesis by (simp add: work_left_def)
qed

interpretation calls: settling_system "\<lambda>s s'. \<exists>a. call_action a \<and> pool_step a s = Some s'"
  sys_consistent work_left
proof
  fix s s'
  assume "\<exists>a. call_action a \<and> pool_step a s = Some s'"
  then obtain a where a: "call_action a" "pool_step a s = Some s'" by blast
  show "sys_consistent s \<Longrightarrow> sys_consistent s'" by (rule step_consistent [OF a(2)])
  show "sys_consistent s \<Longrightarrow> work_left s' \<le> work_left s"
    using advances_less(1) [OF call_step [OF a(2,1)]] by simp
next
  fix s
  assume "sys_consistent s" and "0 < work_left s"
  then have "\<exists>a s'. call_action a \<and> pool_step a s = Some s'"
    using no_work_left [of s] somebody_moves [of s] by auto
  then show "\<exists>s'. (\<exists>a. call_action a \<and> pool_step a s = Some s') \<and> work_left s' < work_left s"
    using call_step advances_less(1) by blast
qed

section \<open>Property\<close>

lemma work_bounded: "work_left s \<le> 9 * length (ps_calls s)"
proof -
  have "steps_left x \<le> 9" for x by (cases x) auto
  then show ?thesis
    unfolding work_left_def using sum_list_mono [of "ps_calls s" steps_left "\<lambda>_. 9"] 
    by (simp add: sum_list_triv mult.commute)
qed

lemma run_shortens:
  "pool_run as s = Some s' \<Longrightarrow> (\<And>a. a \<in> set as \<Longrightarrow> call_action a) \<Longrightarrow>
   length as + work_left s' \<le> work_left s \<and> length (ps_calls s') = length (ps_calls s)"
proof (induction as s rule: pool_run.induct)
  case (2 a as s)
  then obtain t where t: "pool_step a s = Some t" "pool_run as t = Some s'" by (auto split: option.splits)
  with 2 advances_less [OF call_step [OF t(1)]] show ?case by fastforce
qed simp

text \<open>
  C36. Remote commands do not block one another. From any reachable state of the pool, the calls
  take at most nine actions for each of them in all, deadlines apart: dialling, waiting for one of the
  four slots, opening, retrying once and running. And as long as one of them has not returned,
  some call has an action to take: the slots held by others, by retried calls included, never
  close a circle.
\<close>

theorem pool_calls_return:
  assumes "pool_reachable s" and "pool_run as s = Some s'" and "\<And>a. a \<in> set as \<Longrightarrow> call_action a"
  shows "length as \<le> 9 * length (ps_calls s) \<and>
    ((\<forall>x\<in>set (ps_calls s'). x = Returned) \<or> (\<exists>a t. call_action a \<and> pool_step a s' = Some t))"
proof
  show "length as \<le> 9 * length (ps_calls s)"
    using run_shortens [OF assms(2,3)] work_bounded [of s] by simp
  have "sys_consistent s'"
    using run_reachable [OF assms(2,1)] by (rule reachable_consistent)
  then show "(\<forall>x\<in>set (ps_calls s'). x = Returned) \<or> (\<exists>a t. call_action a \<and> pool_step a s' = Some t)"
    using calls.helpful [of s'] no_work_left [of s'] by blast
qed

theorem pool_calls_return_witness:
  "\<exists>s s'. pool_run [Call 0 ''h'', Call 0 ''h''] pool_init = Some s \<and>
     pool_run [DialWorks 0, Install 0 0, TakeSlot 0] s = Some s' \<and>
     (\<exists>a t. call_action a \<and> pool_step a s' = Some t)"
proof -
  let ?as = "[DialWorks 0, Install 0 0, TakeSlot 0]"
  obtain s where s: "pool_run [Call 0 ''h'', Call 0 ''h''] pool_init = Some s"
    "s = pool_init\<lparr>ps_calls := [Dialing ''h'' None, Dialing ''h'' None]\<rparr>"
    by (simp add: pool_init_def pool_lookup_def live_def new_pool_def got_def)
  then obtain s' where s': "pool_run ?as s = Some s'" "ps_calls s' = [Opening ''h'' 0, Dialing ''h'' None]"
    by (simp add: pool_init_def new_pool_def call_at_def dial_client_def pool_install_def live_def set_call_def
        got_def conn_used_def max_sessions_def)
  have "pool_reachable s" using run_reachable [OF s(1) pool_start] .
  from pool_calls_return [OF this s'(1)] s'(2) show ?thesis using s(1) s'(1) by fastforce
qed

end
