(* ===== verification/Amarre_Wire.thy ===== *)
theory Amarre_Wire
  imports Amarre_Fleet Amarre_Pool_Facts
begin

text \<open>
  One call of \<open>Client.run\<close> from end to end (\<open>fleet.go\<close>, with \<open>get\<close> and \<open>dial\<close> of \<open>pool.go\<close>), as
  the caller sees it: what it returns, error texts included, and the pool it leaves. The pool's
  machine of \<open>Amarre_Pool\<close> cuts the same code into steps for interleavings; the theorem here says
  that the call is a run of that machine.

  The network is a record of functions: the dialler, the handshake, the sessions and the remote
  command with its two outputs, each with the number of the attempt, and the context's two
  chances to end the call. What is not open takes no session.
\<close>

section \<open>The network\<close>

record wire =
  wi_tcp :: "nat \<Rightarrow> duration \<Rightarrow> string \<Rightarrow> string option"
  wi_handshake :: "nat \<Rightarrow> duration \<Rightarrow> string \<Rightarrow> string \<Rightarrow> string option"
  wi_clock :: "nat \<Rightarrow> time"
  wi_waited :: "string option"
  wi_session :: "nat \<Rightarrow> string option"
  wi_gone :: string
  wi_cut :: "string option"
  wi_output :: "string \<Rightarrow> run_status \<times> string \<times> string"

definition dial_timeout :: duration where
  "dial_timeout = 15 * second"

section \<open>The call\<close>

definition dial :: "wire \<Rightarrow> nat \<Rightarrow> string \<Rightarrow> string \<Rightarrow> int \<Rightarrow> pool \<Rightarrow> (fleet_error + nat) \<times> pool" where
  "dial w n addr user port p =
     (let hostport = join_host_port addr (show_int port)
      in (case wi_tcp w n dial_timeout hostport of
            Some e \<Rightarrow> (Inl (Unreachable (''connexion : '' @ e)), p)
          | None \<Rightarrow>
              (case wi_handshake w n dial_timeout hostport user of
                 Some e \<Rightarrow> (Inl (Unreachable (''poign'' @ u_eacute @ ''e de main SSH : '' @ e)), p)
               | None \<Rightarrow> (case dial_client p of (cl, p') \<Rightarrow> (Inr cl, p')))))"

definition pool_get :: "wire \<Rightarrow> nat \<Rightarrow> string \<Rightarrow> string \<Rightarrow> int \<Rightarrow> pool \<Rightarrow> (fleet_error + nat) \<times> pool" where
  "pool_get w n addr user port p =
     (let key = pool_key addr user port
      in (case pool_lookup (wi_clock w (2 * n)) key p of
            (Some c, p1) \<Rightarrow> (Inr c, p1)
          | (None, p1) \<Rightarrow>
              (case dial w n addr user port p1 of
                 (Inl e, p2) \<Rightarrow> (Inl e, p2)
               | (Inr cl, p2) \<Rightarrow>
                   (case pool_install (wi_clock w (2 * n + 1)) key cl p2 of (c, p3) \<Rightarrow> (Inr c, p3)))))"

definition new_session :: "wire \<Rightarrow> nat \<Rightarrow> nat \<Rightarrow> pool \<Rightarrow> string option" where
  "new_session w n c p = (if c \<in> set (pl_open p) then wi_session w n else Some (wi_gone w))"

definition remote_output :: "wire \<Rightarrow> string \<Rightarrow> fleet_error + string" where
  "remote_output w cmd =
     (case wi_cut w of
        Some e \<Rightarrow> Inl (Unreachable e)
      | None \<Rightarrow> (case wi_output w cmd of (st, stdout, stderr) \<Rightarrow> run_result st stdout stderr))"

text \<open>
  \<open>None\<close> is the call that still waits: the four slots of its connection are taken and its
  context has not ended.
\<close>

definition client_run ::
  "wire \<Rightarrow> string \<Rightarrow> string \<Rightarrow> int \<Rightarrow> string \<Rightarrow> pool \<Rightarrow> ((fleet_error + string) \<times> pool) option" where
  "client_run w addr user port cmd p =
     (case pool_get w 0 addr user port p of
        (Inl e, p1) \<Rightarrow> Some (Inl e, p1)
      | (Inr c, p1) \<Rightarrow>
          (case wi_waited w of
             Some e \<Rightarrow> Some (Inl (Unreachable e), p1)
           | None \<Rightarrow>
               if \<not> conn_used p1 c < max_sessions then None
               else (let p2 = take_slot c p1
                 in (case new_session w 0 c p2 of
                       None \<Rightarrow> Some (remote_output w cmd, free_slot c p2)
                     | Some _ \<Rightarrow>
                         (case pool_get w 1 addr user port (pool_drop (pool_key addr user port) p2) of
                            (Inl e, p3) \<Rightarrow> Some (Inl e, free_slot c p3)
                          | (Inr c', p3) \<Rightarrow>
                              (case new_session w 1 c' p3 of
                                 Some e \<Rightarrow> Some (Inl (Unreachable (''ouverture de session : '' @ e)), free_slot c p3)
                               | None \<Rightarrow> Some (remote_output w cmd, free_slot c p3)))))))"

section \<open>As steps of the pool\<close>

lemma pool_run_append:
  "pool_run (as @ bs) s = (case pool_run as s of None \<Rightarrow> None | Some s' \<Rightarrow> pool_run bs s')"
  by (induction as s rule: pool_run.induct) (auto split: option.splits)

text \<open>The last call of a system, seen alone.\<close>

definition with_call :: "call_state list \<Rightarrow> call_state \<Rightarrow> pool \<Rightarrow> pool_sys" where
  "with_call cs x p = \<lparr>ps_pool = p, ps_calls = cs @ [x]\<rparr>"

definition goes :: "pool_sys \<Rightarrow> pool_sys \<Rightarrow> bool" where
  "goes s s' \<longleftrightarrow> (\<exists>as. pool_run as s = Some s')"

lemma goes_trans [trans]: "goes s s' \<Longrightarrow> goes s' s'' \<Longrightarrow> goes s s''"
  unfolding goes_def using pool_run_append by (metis option.simps(5))

lemma goes_step: "pool_step a s = Some s' \<Longrightarrow> goes s s'"
  by (auto simp: goes_def intro!: exI [of _ "[a]"])

lemma with_call_simps [simp]:
  "call_at (with_call cs x p) (length cs) = x" "ps_pool (with_call cs x p) = p"
  "set_call (length cs) y p' (with_call cs x p) = with_call cs y p'"
  by (simp_all add: with_call_def call_at_def set_call_def)

text \<open>\<open>dial\<close> and the second half of \<open>get\<close>, for a first and for a repeated attempt.\<close>

lemma goes_dial:
  "dial w n addr user port p = (Inl e, p') \<Longrightarrow>
     goes (with_call cs (Dialing k h) p) (with_call cs Returned (free_held h p'))"
  "dial w n addr user port p = (Inr cl, p') \<Longrightarrow>
     goes (with_call cs (Dialing k h) p) (with_call cs (Dialled k cl h) p')"
  by (rule goes_step [of "DialFails (length cs)"]; auto simp: dial_def Let_def split: option.splits prod.splits)
    (rule goes_step [of "DialWorks (length cs)"]; auto simp: dial_def Let_def split: option.splits prod.splits)

lemma goes_install:
  "pool_install t k cl p = (c, p') \<Longrightarrow>
     goes (with_call cs (Dialled k cl h) p) (with_call cs (got k h (Some c)) p')"
  by (auto intro!: goes_step [of "Install t (length cs)"])

lemma goes_get:
  assumes "pool_lookup (wi_clock w (2 * n)) k p = (r, p0)" and "k = pool_key addr user port"
  shows "pool_get w n addr user port p = (Inl e, p') \<Longrightarrow>
      goes (with_call cs (got k h r) p0) (with_call cs Returned (free_held h p'))"
    and "pool_get w n addr user port p = (Inr c, p') \<Longrightarrow>
      goes (with_call cs (got k h r) p0) (with_call cs (got k h (Some c)) p')"
proof -
  have dialing: "got k h None = Dialing k h" by (simp add: got_def)
  assume "pool_get w n addr user port p = (Inl e, p')"
  then have "r = None \<and> dial w n addr user port p0 = (Inl e, p')"
    using assms by (auto simp: pool_get_def split: option.splits prod.splits sum.splits)
  then show "goes (with_call cs (got k h r) p0) (with_call cs Returned (free_held h p'))"
    using goes_dial(1) dialing by auto
next
  have dialing: "got k h None = Dialing k h" by (simp add: got_def)
  assume "pool_get w n addr user port p = (Inr c, p')"
  then consider "r = Some c" "p' = p0" | cl p2 where "r = None" "dial w n addr user port p0 = (Inr cl, p2)"
      "pool_install (wi_clock w (2 * n + 1)) k cl p2 = (c, p')"
    using assms by (auto simp: pool_get_def split: option.splits prod.splits sum.splits)
  then show "goes (with_call cs (got k h r) p0) (with_call cs (got k h (Some c)) p')"
  proof cases
    case 1
    then show ?thesis by (auto simp: goes_def intro!: exI [of _ "[]"])
  next
    case 2
    show ?thesis
      using goes_trans [OF goes_dial(2) [OF 2(2)] goes_install [OF 2(3)]] 2(1) dialing by simp
  qed
qed

lemma goes_call:
  "pool_lookup t k p = (r, p0) \<Longrightarrow> goes \<lparr>ps_pool = p, ps_calls = cs\<rparr> (with_call cs (got k None r) p0)"
  by (auto simp: with_call_def intro!: goes_step [of "Call t k"])

lemma goes_again:
  "pool_lookup t k p = (r, p0) \<Longrightarrow> goes (with_call cs (Retrying k c) p) (with_call cs (got k (Some c) r) p0)"
  by (auto intro!: goes_step [of "GetAgain t (length cs)"])

lemma goes_give_up: "goes (with_call cs (Waiting k c) p) (with_call cs Returned p)"
  by (auto intro!: goes_step [of "GiveUp (length cs)"])

lemma goes_take:
  "conn_used p c < max_sessions \<Longrightarrow>
     goes (with_call cs (Waiting k c) p) (with_call cs (Opening k c) (take_slot c p))"
  by (auto intro!: goes_step [of "TakeSlot (length cs)"])

lemma goes_session:
  assumes "new_session w n c p = None"
  shows "goes (with_call cs (Opening k c) p) (with_call cs Returned (free_slot c p))"
    and "goes (with_call cs (Reopening c h) p) (with_call cs Returned (free_slot h p))"
proof -
  have isopen: "c \<in> set (pl_open p)" using assms by (simp add: new_session_def split: if_splits)
  have ends: "goes (with_call cs (Session c h') p) (with_call cs Returned (free_slot h' p))" for h'
    by (auto intro!: goes_step [of "Finish (length cs)"])
  have "goes (with_call cs (Opening k c) p) (with_call cs (Session c c) p)"
    using isopen by (auto intro!: goes_step [of "OpenWorks (length cs)"])
  then show "goes (with_call cs (Opening k c) p) (with_call cs Returned (free_slot c p))"
    by (rule goes_trans [OF _ ends])
  have "goes (with_call cs (Reopening c h) p) (with_call cs (Session c h) p)"
    using isopen by (auto intro!: goes_step [of "ReopenWorks (length cs)"])
  then show "goes (with_call cs (Reopening c h) p) (with_call cs Returned (free_slot h p))"
    by (rule goes_trans [OF _ ends])
qed

lemma goes_drop: "goes (with_call cs (Opening k c) p) (with_call cs (Retrying k c) (pool_drop k p))"
  by (auto intro!: goes_step [of "OpenFails (length cs)"])

lemma goes_refused: "goes (with_call cs (Reopening c h) p) (with_call cs Returned (free_slot h p))"
  by (auto intro!: goes_step [of "ReopenFails (length cs)"])

text \<open>From the slot on.\<close>

lemma goes_from_slot:
  assumes "client_run w addr user port cmd p = Some (r, p')" and "pool_get w 0 addr user port p = (Inr c, p1)"
    and "wi_waited w = None" and "k = pool_key addr user port"
  shows "goes (with_call cs (Waiting k c) p1) (with_call cs Returned p')"
proof -
  let ?p2 = "take_slot c p1"
  have used: "conn_used p1 c < max_sessions" using assms by (auto simp: client_run_def split: if_splits)
  note taken = goes_take [OF used, of cs k]
  show ?thesis
  proof (cases "new_session w 0 c ?p2")
    case None
    then have "p' = free_slot c ?p2" using assms used by (simp add: client_run_def Let_def)
    with goes_trans [OF taken goes_session(1) [OF None]] show ?thesis by simp
  next
    case (Some e)
    let ?d = "pool_drop k ?p2"
    obtain x p0 where look: "pool_lookup (wi_clock w (2 * 1)) k ?d = (x, p0)" by fastforce
    obtain y p3 where again: "pool_get w 1 addr user port ?d = (y, p3)" by fastforce
    have retried: "goes (with_call cs (Waiting k c) p1) (with_call cs (got k (Some c) x) p0)"
      by (rule goes_trans [OF taken goes_trans [OF goes_drop goes_again [OF look]]])
    have p': "p' = free_slot c p3"
      using assms used Some again
      by (auto simp: client_run_def Let_def split: sum.splits option.splits)
    show ?thesis
    proof (cases y)
      case (Inl e)
      from goes_trans [OF retried goes_get(1) [OF look assms(4) again [unfolded Inl]]] p'
      show ?thesis by (simp add: free_held_def)
    next
      case (Inr c')
      have "got k (Some c) (Some c') = Reopening c' c" by (simp add: got_def)
      with goes_trans [OF goes_trans [OF retried goes_get(2) [OF look assms(4) again [unfolded Inr]]]] goes_refused
      show ?thesis unfolding p' by simp
    qed
  qed
qed

lemma run_goes:
  assumes "client_run w addr user port cmd p = Some (r, p')"
  shows "goes \<lparr>ps_pool = p, ps_calls = cs\<rparr> (with_call cs Returned p')"
proof -
  let ?k = "pool_key addr user port"
  obtain x p0 where look: "pool_lookup (wi_clock w (2 * 0)) ?k p = (x, p0)" by fastforce
  obtain y p1 where get: "pool_get w 0 addr user port p = (y, p1)" by fastforce
  note begun = goes_call [OF look, of cs]
  show ?thesis
  proof (cases y)
    case (Inl e)
    then have "p' = p1" using assms get by (simp add: client_run_def)
    with goes_trans [OF begun goes_get(1) [OF look refl get [unfolded Inl]]] show ?thesis by (simp add: free_held_def)
  next
    case (Inr c)
    have "got ?k None (Some c) = Waiting ?k c" by (simp add: got_def)
    with goes_trans [OF begun goes_get(2) [OF look refl get [unfolded Inr]]]
    have waiting: "goes \<lparr>ps_pool = p, ps_calls = cs\<rparr> (with_call cs (Waiting ?k c) p1)" by simp
    show ?thesis
    proof (cases "wi_waited w")
      case None
      show ?thesis by (rule goes_trans [OF waiting goes_from_slot [OF assms get [unfolded Inr] None refl]])
    next
      case (Some e)
      then have "p' = p1" using assms get Inr by (simp add: client_run_def)
      with goes_trans [OF waiting goes_give_up] show ?thesis by simp
    qed
  qed
qed

section \<open>Slots and answers\<close>

lemma used_counts:
  assumes "pool_reachable \<lparr>ps_pool = p, ps_calls = cs\<rparr>"
  shows "conn_used p c = tally (holds_slot c) cs"
  using reachable_consistent [OF assms] by (simp add: sys_consistent_def consistent_def)

lemma answer_is_output:
  "remote_output w cmd = Inr out \<Longrightarrow> wi_cut w = None \<and> (\<exists>err. wi_output w cmd = (RunOK, out, err))"
  by (auto simp: remote_output_def run_result_def Let_def split: option.splits prod.splits run_status.splits if_splits)

lemma run_answer:
  "client_run w addr user port cmd p = Some (Inr out, p') \<Longrightarrow>
     wi_waited w = None \<and> remote_output w cmd = Inr out"
  by (auto simp: client_run_def Let_def split: sum.splits option.splits prod.splits if_splits)

lemma fresh_used:
  assumes "live k p = None" and "pl_conns p2 = pl_conns p" and "pl_conn p2 = pl_conn p"
    and "pool_install t k cl p2 = (c, p3)"
  shows "conn_used p3 c = 0"
proof -
  have "conn_dead p2 = conn_dead p" using assms(3) by (intro ext) (simp add: conn_dead_def)
  then have "live k p2 = live k p" using assms(2) by (simp add: live_def cong: option.case_cong)
  with assms(1,4) show ?thesis by (auto simp: pool_install_def conn_used_def)
qed

lemma get_fresh:
  assumes "live (pool_key addr user port) p = None" and "pool_get w n addr user port p = (Inr c, p1)"
  shows "conn_used p1 c = 0"
proof -
  have look: "pool_lookup (wi_clock w (2 * n)) (pool_key addr user port) p = (None, p)"
    using assms(1) by (simp add: pool_lookup_def)
  then obtain cl p2 where "dial w n addr user port p = (Inr cl, p2)"
    and install: "pool_install (wi_clock w (2 * n + 1)) (pool_key addr user port) cl p2 = (c, p1)"
    using assms(2) by (auto simp: pool_get_def Let_def split: sum.splits prod.splits)
  then have "pl_conns p2 = pl_conns p" "pl_conn p2 = pl_conn p"
    by (auto simp: dial_def dial_client_def Let_def split: option.splits)
  from fresh_used [OF assms(1) this install] show ?thesis .
qed

lemma touch_used [simp]: "conn_used (touch t c p) c' = conn_used p c'"
  by (simp add: touch_def on_conn_def conn_used_def split: option.splits)

lemma get_live:
  "live (pool_key addr user port) p = Some c \<Longrightarrow>
     pool_get w n addr user port p = (Inr c, touch (wi_clock w (2 * n)) c p)"
  by (simp add: pool_get_def pool_lookup_def)

lemma run_waits:
  "client_run w addr user port cmd p = None \<longleftrightarrow>
     wi_waited w = None \<and>
     (\<exists>c p1. pool_get w 0 addr user port p = (Inr c, p1) \<and> \<not> conn_used p1 c < max_sessions)"
  by (auto simp: client_run_def Let_def split: sum.splits option.splits prod.splits if_splits)

text \<open>A call waits on the connection the pool keeps for its own host, account and port.\<close>

lemma run_waits_live:
  "client_run w addr user port cmd p = None \<longleftrightarrow>
     wi_waited w = None \<and> (\<exists>c. live (pool_key addr user port) p = Some c \<and> \<not> conn_used p c < max_sessions)"
proof (cases "live (pool_key addr user port) p")
  case None
  then show ?thesis using get_fresh [OF None] unfolding run_waits by (fastforce simp: max_sessions_def)
next
  case (Some c)
  then show ?thesis unfolding run_waits get_live [OF Some] by simp
qed

section \<open>Property\<close>


text \<open>The first command of a host dials; its connection falls, and the second one dials again.\<close>

definition demo_wire :: wire where
  "demo_wire = \<lparr>wi_tcp = (\<lambda>_ _ _. None), wi_handshake = (\<lambda>_ _ _ _. None), wi_clock = int, wi_waited = None,
     wi_session = (\<lambda>_. None), wi_gone = ''EOF'', wi_cut = None, wi_output = (\<lambda>_. (RunOK, ''ok'', ''''))\<rparr>"

definition demo_command :: "pool \<Rightarrow> ((fleet_error + string) \<times> pool) option" where
  "demo_command = client_run demo_wire ''h'' ''root'' 22 ''check''"

lemmas run_defs = demo_command_def client_run_def demo_wire_def pool_get_def dial_def Let_def new_pool_def
  pool_lookup_def live_def dial_client_def pool_install_def conn_used_def max_sessions_def new_session_def
  take_slot_def free_slot_def on_conn_def remote_output_def run_result_def close_client_def conn_dead_def
  touch_def pool_drop_def mark_dead_def


end
